(* ===== verification/Prelude.thy ===== *)
theory Prelude
  imports "HOL-Library.Word" "HOL-Library.AList" "HOL-Library.Char_ord"
begin

text \<open>
  The ground the component theories stand on: the Go base types as the model writes them, the
  pieces of the Go standard library the program calls on strings, numbers and maps, the
  interfaces (locales) that several components share, and the fact collections.

  \<^item> A Go \<open>string\<close> and a \<open>[]byte\<close> are both a HOL \<open>string\<close>: a list of \<open>char\<close>, and a \<open>char\<close> is
    one byte.
  \<^item> \<open>int64\<close> and the atomic counters are \<open>64 word\<close>, so they wrap as \<open>atomic.AddInt64\<close> does.
  \<^item> \<open>time.Time\<close> is an \<open>int\<close>, nanoseconds since the Unix epoch; \<open>time.Duration\<close> likewise.
  \<^item> A clock is \<open>nat \<Rightarrow> time\<close>: reading \<open>n\<close> is the \<open>n\<close>-th call of \<open>time.Now()\<close> in one operation.
  \<^item> A Go \<open>error\<close> result is a sum, \<open>Inl\<close> the error.
  \<^item> A Go map is an association list with distinct keys. Its order stands for the order a
    \<open>range\<close> loop happens to use, so a fact proved for every list holds for every order.
\<close>

type_synonym bytes = string
type_synonym int64 = "64 word"
type_synonym time = int
type_synonym clock = "nat \<Rightarrow> time"

named_theorems gomap_simps \<open>equations of the association-list model of Go maps\<close>
named_theorems step_defs \<open>definitions unfolded to evaluate one operation\<close>
named_theorems inv_defs \<open>definitions of the component invariants\<close>

subsection \<open>Durations\<close>

definition millisecond :: time where "millisecond = 1000000"
definition second :: time where "second = 1000000000"
definition minute :: time where "minute = 60 * second"
definition hour :: time where "hour = 60 * minute"

text \<open>\<open>t.Unix()\<close> and \<open>t.UnixMilli()\<close>, as \<open>int64\<close>.\<close>

definition unix_sec :: "time \<Rightarrow> int64" where
  "unix_sec t = word_of_int (t div 1000000000)"

definition unix_milli :: "time \<Rightarrow> int64" where
  "unix_milli t = word_of_int (t div 1000000)"

lemmas duration_defs = millisecond_def second_def minute_def hour_def

subsection \<open>Strings\<close>

text \<open>\<open>strings.HasPrefix\<close>, \<open>strings.HasSuffix\<close>, \<open>strings.Contains\<close>.\<close>

fun HasPrefix :: "string \<Rightarrow> string \<Rightarrow> bool" where
  "HasPrefix s [] = True"
| "HasPrefix [] (p # ps) = False"
| "HasPrefix (c # cs) (p # ps) = (c = p \<and> HasPrefix cs ps)"

definition HasSuffix :: "string \<Rightarrow> string \<Rightarrow> bool" where
  "HasSuffix s t = HasPrefix (rev s) (rev t)"

fun str_contains :: "string \<Rightarrow> string \<Rightarrow> bool" where
  "str_contains [] sub = (sub = [])"
| "str_contains (c # cs) sub = (HasPrefix (c # cs) sub \<or> str_contains cs sub)"

lemma HasPrefix_iff: "HasPrefix s p \<longleftrightarrow> (\<exists>r. s = p @ r)"
  by (induction s p rule: HasPrefix.induct) auto

lemma HasPrefix_append [simp]: "HasPrefix (p @ r) p"
  by (auto simp: HasPrefix_iff)

lemma HasSuffix_iff: "HasSuffix s t \<longleftrightarrow> (\<exists>r. s = r @ t)"
proof -
  have "(rev s = rev t @ r) \<longleftrightarrow> (s = rev r @ t)" for r
    by (metis rev_append rev_rev_ident)
  then show ?thesis
    by (auto simp: HasSuffix_def HasPrefix_iff) (metis rev_rev_ident)
qed

lemma str_contains_iff: "str_contains s sub \<longleftrightarrow> (\<exists>a b. s = a @ sub @ b)"
proof (induction s)
  case Nil
  then show ?case by auto
next
  case (Cons c cs)
  have "(\<exists>a b. c # cs = a @ sub @ b) \<longleftrightarrow>
      (\<exists>b. c # cs = sub @ b) \<or> (\<exists>a b. cs = a @ sub @ b)" (is "?L = ?R")
  proof
    assume ?L
    then obtain a b where ab: "c # cs = a @ sub @ b" by blast
    show ?R
    proof (cases a)
      case Nil
      with ab show ?thesis by auto
    next
      case (Cons x xs)
      with ab show ?thesis by auto
    qed
  next
    assume ?R
    then show ?L by (metis append_Cons append_Nil)
  qed
  then show ?case by (simp add: Cons.IH HasPrefix_iff)
qed

lemma str_contains_char: "str_contains s [c] \<longleftrightarrow> c \<in> set s"
  by (auto simp: str_contains_iff in_set_conv_decomp)

text \<open>The UTF-8 bytes of the arrow the source writes in its messages.\<close>

definition arrow :: string where
  "arrow = [CHR 0xE2, CHR 0x86, CHR 0x92]"

subsection \<open>Decimal numbers: \<open>%d\<close> and \<open>strconv.Atoi\<close>\<close>

definition digit_char :: "nat \<Rightarrow> char" where
  "digit_char d = char_of (48 + d)"

definition is_dec :: "char \<Rightarrow> bool" where
  "is_dec c \<longleftrightarrow> 48 \<le> (of_char c :: nat) \<and> (of_char c :: nat) \<le> 57"

definition dec_val :: "char \<Rightarrow> nat" where
  "dec_val c = of_char c - 48"

fun dec_nat :: "nat \<Rightarrow> string" where
  "dec_nat n = (if n < 10 then [digit_char n] else dec_nat (n div 10) @ [digit_char (n mod 10)])"

declare dec_nat.simps [simp del]

definition dec_int :: "int \<Rightarrow> string" where
  "dec_int i = (if i < 0 then CHR ''-'' # dec_nat (nat (- i)) else dec_nat (nat i))"

fun dec_read :: "nat \<Rightarrow> string \<Rightarrow> nat option" where
  "dec_read acc [] = Some acc"
| "dec_read acc (c # cs) = (if is_dec c then dec_read (10 * acc + dec_val c) cs else None)"

text \<open>
  \<open>strconv.Atoi\<close> on a 64-bit platform: an optional sign, at least one digit, nothing else, and a
  value in range.
\<close>

definition Atoi :: "string \<Rightarrow> int option" where
  "Atoi s =
     (let neg = (s \<noteq> [] \<and> hd s = CHR ''-'');
          body = (if s \<noteq> [] \<and> (hd s = CHR ''-'' \<or> hd s = CHR ''+'') then tl s else s)
      in if body = [] then None
         else case dec_read 0 body of
           None \<Rightarrow> None
         | Some n \<Rightarrow>
             (let v = (if neg then - int n else int n)
              in if - (2 ^ 63) \<le> v \<and> v < 2 ^ 63 then Some v else None))"

lemma is_dec_digit [simp]: "d < 10 \<Longrightarrow> is_dec (digit_char d)"
  by (simp add: is_dec_def digit_char_def)

lemma dec_val_digit [simp]: "d < 10 \<Longrightarrow> dec_val (digit_char d) = d"
  by (simp add: dec_val_def digit_char_def)

lemma dec_nat_not_Nil [simp]: "dec_nat n \<noteq> []"
  by (subst dec_nat.simps) simp

lemma dec_read_append:
  "dec_read acc (xs @ ys) = (case dec_read acc xs of None \<Rightarrow> None | Some v \<Rightarrow> dec_read v ys)"
  by (induction xs arbitrary: acc) auto

lemma dec_read_dec_nat: "dec_read 0 (dec_nat n) = Some n"
proof (induction n rule: dec_nat.induct)
  case (1 n)
  show ?case
  proof (cases "n < 10")
    case True
    then show ?thesis by (subst dec_nat.simps) simp
  next
    case False
    with "1.IH" have "dec_read 0 (dec_nat (n div 10)) = Some (n div 10)" by simp
    with False show ?thesis by (subst dec_nat.simps) (simp add: dec_read_append)
  qed
qed

lemma set_dec_nat: "c \<in> set (dec_nat n) \<Longrightarrow> is_dec c"
proof (induction n rule: dec_nat.induct)
  case (1 n)
  then show ?case
    by (subst (asm) (2) dec_nat.simps) (auto split: if_splits)
qed

lemma hd_dec_nat: "is_dec (hd (dec_nat n))"
  using hd_in_set [OF dec_nat_not_Nil] by (rule set_dec_nat)

lemma Atoi_dec_int:
  assumes "- (2 ^ 63) \<le> i" and "i < 2 ^ 63"
  shows "Atoi (dec_int i) = Some i"
proof (cases "i < 0")
  case True
  with assms show ?thesis
    by (simp add: Atoi_def dec_int_def dec_read_dec_nat)
next
  case False
  have "hd (dec_nat (nat i)) \<noteq> CHR ''-''" and "hd (dec_nat (nat i)) \<noteq> CHR ''+''"
    using hd_dec_nat [of "nat i"] by (auto simp: is_dec_def)
  with False assms show ?thesis
    by (simp add: Atoi_def dec_int_def dec_read_dec_nat)
qed

subsection \<open>Go maps\<close>

type_synonym ('k, 'v) gomap = "('k \<times> 'v) list"

definition gm_wf :: "('k, 'v) gomap \<Rightarrow> bool" where
  "gm_wf m \<longleftrightarrow> distinct (map fst m)"

definition gm_get :: "('k, 'v) gomap \<Rightarrow> 'k \<Rightarrow> 'v option" where
  "gm_get m k = map_of m k"

definition gm_put :: "('k, 'v) gomap \<Rightarrow> 'k \<Rightarrow> 'v \<Rightarrow> ('k, 'v) gomap" where
  "gm_put m k v = AList.update k v m"

definition gm_del :: "('k, 'v) gomap \<Rightarrow> 'k \<Rightarrow> ('k, 'v) gomap" where
  "gm_del m k = AList.delete k m"

definition gm_len :: "('k, 'v) gomap \<Rightarrow> nat" where
  "gm_len m = length m"

lemmas gm_defs = gm_wf_def gm_get_def gm_put_def gm_del_def gm_len_def

text \<open>
  The contract of a keyed store, as every component that keeps a table relies on it: what a
  lookup returns after each operation, and that the operations keep the store well formed.
\<close>

locale keyed_store =
  fixes emp :: "'s"
    and get :: "'s \<Rightarrow> 'k \<Rightarrow> 'v option"
    and put :: "'s \<Rightarrow> 'k \<Rightarrow> 'v \<Rightarrow> 's"
    and del :: "'s \<Rightarrow> 'k \<Rightarrow> 's"
    and wf :: "'s \<Rightarrow> bool"
  assumes get_emp: "get emp k = None"
    and get_put: "wf s \<Longrightarrow> get (put s k v) = (get s)(k \<mapsto> v)"
    and get_del: "wf s \<Longrightarrow> get (del s k) = (get s)(k := None)"
    and wf_emp: "wf emp"
    and wf_put: "wf s \<Longrightarrow> wf (put s k v)"
    and wf_del: "wf s \<Longrightarrow> wf (del s k)"
begin

lemma get_put_same: "wf s \<Longrightarrow> get (put s k v) k = Some v"
  by (simp add: get_put)

lemma get_put_other: "wf s \<Longrightarrow> k' \<noteq> k \<Longrightarrow> get (put s k v) k' = get s k'"
  by (simp add: get_put)

lemma get_del_same: "wf s \<Longrightarrow> get (del s k) k = None"
  by (simp add: get_del)

lemma get_del_other: "wf s \<Longrightarrow> k' \<noteq> k \<Longrightarrow> get (del s k) k' = get s k'"
  by (simp add: get_del)

lemma get_del_put: "wf s \<Longrightarrow> get (del (put s k v) k) = (get s)(k := None)"
  by (simp add: get_put get_del wf_put)

lemma wf_fold_put: "wf s \<Longrightarrow> wf (fold (\<lambda>(k, v) s. put s k v) kvs s)"
  by (induction kvs arbitrary: s) (auto intro: wf_put)

lemma get_fold_del:
  "wf s \<Longrightarrow> get (fold (\<lambda>k s. del s k) ks s) k = (if k \<in> set ks then None else get s k)"
proof (induction ks arbitrary: s)
  case Nil
  then show ?case by simp
next
  case (Cons a ks)
  then show ?case by (simp add: wf_del get_del)
qed

lemma wf_fold_del: "wf s \<Longrightarrow> wf (fold (\<lambda>k s. del s k) ks s)"
  by (induction ks arbitrary: s) (auto intro: wf_del)

end

interpretation gomap: keyed_store "[]" gm_get gm_put gm_del gm_wf
proof unfold_locales
  fix m :: "('a, 'b) gomap" and k :: 'a and v :: 'b
  show "gm_get ([] :: ('a, 'b) gomap) k = None" by (simp add: gm_get_def)
  show "gm_get (gm_put m k v) = (gm_get m)(k \<mapsto> v)"
    by (simp add: gm_get_def gm_put_def update_conv' fun_eq_iff)
  show "gm_get (gm_del m k) = (gm_get m)(k := None)"
    by (simp add: gm_get_def gm_del_def delete_conv' fun_eq_iff)
  show "gm_wf ([] :: ('a, 'b) gomap)" by (simp add: gm_wf_def)
  show "gm_wf m \<Longrightarrow> gm_wf (gm_put m k v)"
    by (simp add: gm_wf_def gm_put_def distinct_update)
  show "gm_wf m \<Longrightarrow> gm_wf (gm_del m k)"
    by (simp add: gm_wf_def gm_del_def distinct_delete)
qed

lemmas [gomap_simps] =
  gomap.get_emp gomap.get_put gomap.get_del gomap.wf_emp gomap.wf_put gomap.wf_del

lemma gm_get_dom: "dom (gm_get m) = fst ` set m"
proof -
  have "gm_get m = map_of m" by (simp add: gm_get_def fun_eq_iff)
  then show ?thesis by (simp add: dom_map_of_conv_image_fst)
qed

lemma finite_gm_dom [simp]: "finite (dom (gm_get m))"
  by (simp add: gm_get_dom)

lemma gm_len_card: "gm_wf m \<Longrightarrow> gm_len m = card (dom (gm_get m))"
proof -
  assume "gm_wf m"
  then have "card (set (map fst m)) = length (map fst m)"
    unfolding gm_wf_def by (rule distinct_card)
  then show ?thesis by (simp add: gm_len_def gm_get_dom)
qed

lemma gm_get_in_set: "gm_wf m \<Longrightarrow> gm_get m k = Some v \<longleftrightarrow> (k, v) \<in> set m"
  by (simp add: gm_wf_def gm_get_def)

lemma gm_len_put:
  "gm_wf m \<Longrightarrow> gm_len (gm_put m k v) = (if gm_get m k = None then Suc (gm_len m) else gm_len m)"
  by (simp add: gm_len_card gomap_simps card_insert_if domIff)

lemma gm_len_del:
  "gm_wf m \<Longrightarrow> gm_len (gm_del m k) = (if gm_get m k = None then gm_len m else gm_len m - 1)"
  by (simp add: gm_len_card gomap_simps card_Diff_singleton_if domIff)

subsection \<open>Rule lists\<close>

text \<open>
  A policy that permits a query when some rule of a list matches it: the contract of the
  inter-agent ACL, of the domain allowlist and of the CIDR allowlist.
\<close>

locale rule_list =
  fixes permits :: "'r list \<Rightarrow> 'q \<Rightarrow> bool"
    and matches :: "'r \<Rightarrow> 'q \<Rightarrow> bool"
  assumes permits_iff: "permits rs q \<longleftrightarrow> (\<exists>r \<in> set rs. matches r q)"
begin

lemma default_deny: "\<not> permits [] q"
  by (simp add: permits_iff)

lemma permits_append: "permits (rs @ rs') q \<longleftrightarrow> permits rs q \<or> permits rs' q"
  by (auto simp: permits_iff)

lemma permits_cong_set: "set rs = set rs' \<Longrightarrow> permits rs q = permits rs' q"
  by (simp add: permits_iff)

lemma permits_mono: "set rs \<subseteq> set rs' \<Longrightarrow> permits rs q \<Longrightarrow> permits rs' q"
  by (auto simp: permits_iff)

lemma permits_filter:
  "permits (filter P rs) q \<Longrightarrow> permits rs q"
  by (auto simp: permits_iff)

lemma denied_iff: "\<not> permits rs q \<longleftrightarrow> (\<forall>r \<in> set rs. \<not> matches r q)"
  by (simp add: permits_iff)

end

subsection \<open>Run-once cells\<close>

text \<open>
  \<open>sync.Once\<close>: the contract of an operation guarded by it. \<open>fired\<close> is the cell's flag; the
  first call sets it, every later call leaves the state alone.
\<close>

locale once_cell =
  fixes call :: "'a \<Rightarrow> 's \<Rightarrow> 's"
    and fired :: "'s \<Rightarrow> bool"
  assumes call_fires: "fired (call a s)"
    and call_idle: "fired s \<Longrightarrow> call a s = s"
begin

lemma call_twice: "call b (call a s) = call a s"
  by (simp add: call_fires call_idle)

lemma calls_once: "fold call (a # as) s = call a s"
proof -
  have "fired t \<Longrightarrow> fold call as t = t" for t
    by (induction as) (simp_all add: call_idle)
  then show ?thesis by (simp add: call_fires)
qed

lemma fired_fold: "fired s \<Longrightarrow> fired (fold call as s)"
  by (induction as arbitrary: s) (simp_all add: call_fires)

end

subsection \<open>Limited reads\<close>

text \<open>
  A stream is the bytes it delivers and the error it ends with, \<open>None\<close> for EOF. \<open>io.ReadAll\<close> of an
  \<open>io.LimitReader\<close>: the limit ends the read before the stream's own end does.
\<close>

definition read_limited :: "nat \<Rightarrow> bytes \<times> string option \<Rightarrow> string + bytes" where
  "read_limited n s =
     (if n \<le> length (fst s) then Inr (take n (fst s))
      else case snd s of None \<Rightarrow> Inr (fst s) | Some e \<Rightarrow> Inl e)"

lemma read_limited_prefix:
  "read_limited n s = Inr b \<Longrightarrow> b = take n (fst s)"
  by (auto simp: read_limited_def split: if_splits option.splits)

subsection \<open>Outcome of a fallible call\<close>

lemma sum_case_Inr:
  "(case r of Inl e \<Rightarrow> Inl e | Inr x \<Rightarrow> f x) = Inr y \<longleftrightarrow> (\<exists>x. r = Inr x \<and> f x = Inr y)"
  by (cases r) auto

end
