(* ===== verification/Netaddr.thy ===== *)
theory Netaddr
  imports Prelude
begin

text \<open>
  The part of Go's \<open>net\<close> package the allowlist relies on: \<open>ParseIP\<close>, \<open>ParseCIDR\<close>, \<open>IPNet.Contains\<close> and
  \<open>SplitHostPort\<close>, written along the library's code. An address is its 16 bytes, an IPv4 address its
  mapped form.
\<close>

unbundle bit_operations_syntax

type_synonym ip = "8 word list"

definition v4InV6Prefix :: ip where
  "v4InV6Prefix = replicate 10 0 @ [0xFF, 0xFF]"

text \<open>\<open>IP.To4\<close>.\<close>

definition To4 :: "ip \<Rightarrow> ip option" where
  "To4 a =
     (if length a = 4 then Some a
      else if length a = 16 \<and> take 12 a = v4InV6Prefix then Some (drop 12 a)
      else None)"

subsection \<open>Parsing addresses\<close>

text \<open>
  \<open>parseIPv4Fields\<close>: the loop over the characters, with the fields read so far, the value and the
  number of digits of the current one.
\<close>

fun ipv4_fields :: "ip \<Rightarrow> nat \<Rightarrow> nat \<Rightarrow> string \<Rightarrow> ip option" where
  "ipv4_fields acc val digLen [] =
     (if digLen = 0 \<or> length acc < 3 then None else Some (acc @ [of_nat val]))"
| "ipv4_fields acc val digLen (c # cs) =
     (if is_dec c
      then (if digLen = 1 \<and> val = 0 then None
            else (let v = val * 10 + dec_val c in
                  if v > 255 then None else ipv4_fields acc v (Suc digLen) cs))
      else if c = CHR ''.''
      then (if digLen = 0 \<or> length acc = 3 then None
            else ipv4_fields (acc @ [of_nat val]) 0 0 cs)
      else None)"

definition parseIPv4 :: "string \<Rightarrow> ip option" where
  "parseIPv4 s = ipv4_fields [] 0 0 s"

definition hexval :: "char \<Rightarrow> nat option" where
  "hexval c =
     (let n = of_char c in
      if 48 \<le> n \<and> n \<le> 57 then Some (n - 48)
      else if 97 \<le> n \<and> n \<le> 102 then Some (n - 87)
      else if 65 \<le> n \<and> n \<le> 70 then Some (n - 55)
      else None)"

text \<open>The hexadecimal digits at the front of \<open>s\<close>, their value, and the rest; at most four.\<close>

fun hex_group :: "nat \<Rightarrow> nat \<Rightarrow> string \<Rightarrow> (nat \<times> nat \<times> string) option" where
  "hex_group off acc [] = Some (off, acc, [])"
| "hex_group off acc (c # cs) =
     (case hexval c of
        None \<Rightarrow> Some (off, acc, c # cs)
      | Some d \<Rightarrow> if off > 3 then None else hex_group (Suc off) (acc * 16 + d) cs)"

text \<open>
  The loop of \<open>parseIPv6\<close>, with fuel 9 for its eight rounds: the bytes read, the position of the
  ellipsis, the input. The result is the bytes, the ellipsis and the unread input.
\<close>

fun ipv6_loop :: "nat \<Rightarrow> ip \<Rightarrow> nat option \<Rightarrow> string \<Rightarrow> (ip \<times> nat option \<times> string) option" where
  "ipv6_loop 0 acc ell s = None"
| "ipv6_loop (Suc fuel) acc ell s =
     (if length acc \<ge> 16 then Some (acc, ell, s)
      else case hex_group 0 0 s of
        None \<Rightarrow> None
      | Some (off, v, rest) \<Rightarrow>
          if off = 0 then None
          else if rest \<noteq> [] \<and> hd rest = CHR ''.''
          then (if (ell = None \<and> length acc \<noteq> 12) \<or> length acc + 4 > 16 then None
                else (case parseIPv4 s of
                        None \<Rightarrow> None
                      | Some f \<Rightarrow> Some (acc @ f, ell, [])))
          else
            (let acc' = acc @ [of_nat (v div 256), of_nat (v mod 256)] in
             case rest of
               [] \<Rightarrow> Some (acc', ell, [])
             | c # s1 \<Rightarrow>
                 if c \<noteq> CHR '':'' \<or> s1 = [] then None
                 else if hd s1 = CHR '':''
                 then (if ell \<noteq> None then None
                       else if tl s1 = [] then Some (acc', Some (length acc'), [])
                       else ipv6_loop fuel acc' (Some (length acc')) (tl s1))
                 else ipv6_loop fuel acc' ell s1))"

definition ipv6_expand :: "ip \<Rightarrow> nat option \<Rightarrow> ip option" where
  "ipv6_expand acc ell =
     (case ell of
        None \<Rightarrow> if length acc < 16 then None else Some acc
      | Some k \<Rightarrow>
          if length acc < 16 then Some (take k acc @ replicate (16 - length acc) 0 @ drop k acc)
          else None)"

text \<open>An address without a zone.\<close>

definition parseIPv6 :: "string \<Rightarrow> ip option" where
  "parseIPv6 s0 =
     (let lead = (HasPrefix s0 ''::'');
          s = (if lead then drop 2 s0 else s0)
      in if lead \<and> s = [] then Some (replicate 16 0)
         else (case ipv6_loop 9 [] (if lead then Some 0 else None) s of
                 None \<Rightarrow> None
               | Some (acc, ell, rest) \<Rightarrow> if rest \<noteq> [] then None else ipv6_expand acc ell))"

text \<open>
  \<open>netip.ParseAddr\<close>, for callers that reject zones: the address and its bit length. The first of the
  characters dot, colon and percent decides.
\<close>

definition ParseAddr :: "string \<Rightarrow> (ip \<times> nat) option" where
  "ParseAddr s =
     (case dropWhile (\<lambda>c. c \<noteq> CHR ''.'' \<and> c \<noteq> CHR '':'' \<and> c \<noteq> CHR ''%'') s of
        [] \<Rightarrow> None
      | c # _ \<Rightarrow>
          if c = CHR ''.''
          then map_option (\<lambda>f. (v4InV6Prefix @ f, 32)) (parseIPv4 s)
          else if c = CHR '':''
          then (if CHR ''%'' \<in> set s then None else map_option (\<lambda>a. (a, 128)) (parseIPv6 s))
          else None)"

definition ParseIP :: "string \<Rightarrow> ip option" where
  "ParseIP s = map_option fst (ParseAddr s)"

subsection \<open>CIDR blocks\<close>

record IPNet =
  in_IP :: ip
  in_Mask :: ip

fun mask_bytes :: "nat \<Rightarrow> nat \<Rightarrow> ip" where
  "mask_bytes 0 n = []"
| "mask_bytes (Suc l) n =
     (if n \<ge> 8 then 0xFF # mask_bytes l (n - 8)
      else NOT (drop_bit n 0xFF) # mask_bytes l 0)"

definition CIDRMask :: "nat \<Rightarrow> nat \<Rightarrow> ip" where
  "CIDRMask ones bits = mask_bytes (bits div 8) ones"

definition apply_mask :: "ip \<Rightarrow> ip \<Rightarrow> ip" where
  "apply_mask a m = map2 (\<lambda>x y. x AND y) a m"

text \<open>\<open>IP.Mask\<close>, for an address of 16 bytes.\<close>

definition ip_Mask :: "ip \<Rightarrow> ip \<Rightarrow> ip" where
  "ip_Mask a m =
     (if length m = 4 \<and> length a = 16 \<and> take 12 a = v4InV6Prefix then apply_mask (drop 12 a) m
      else apply_mask a m)"

text \<open>\<open>dtoi\<close> followed by the check that it read everything; the library's bound is \<open>0xFFFFFF\<close>.\<close>

definition read_ones :: "string \<Rightarrow> nat option" where
  "read_ones s =
     (if s = [] \<or> \<not> list_all is_dec s then None
      else (let n = foldl (\<lambda>a c. a * 10 + dec_val c) 0 s in if n \<ge> 0xFFFFFF then None else Some n))"

definition ParseCIDR :: "string \<Rightarrow> IPNet option" where
  "ParseCIDR s =
     (if CHR ''/'' \<notin> set s then None
      else
        (let addr = takeWhile (\<lambda>c. c \<noteq> CHR ''/'') s;
             mask = tl (dropWhile (\<lambda>c. c \<noteq> CHR ''/'') s)
         in case ParseAddr addr of
              None \<Rightarrow> None
            | Some (a, bits) \<Rightarrow>
                (case read_ones mask of
                   None \<Rightarrow> None
                 | Some n \<Rightarrow>
                     if n > bits then None
                     else (let m = CIDRMask n bits
                           in Some \<lparr> in_IP = ip_Mask a m, in_Mask = m \<rparr>))))"

definition networkNumberAndMask :: "IPNet \<Rightarrow> (ip \<times> ip) option" where
  "networkNumberAndMask n =
     (let nn = (case To4 (in_IP n) of Some x \<Rightarrow> x | None \<Rightarrow> in_IP n) in
      if length nn \<noteq> 4 \<and> length nn \<noteq> 16 then None
      else if length (in_Mask n) = 4 then (if length nn \<noteq> 4 then None else Some (nn, in_Mask n))
      else if length (in_Mask n) = 16
      then Some (nn, if length nn = 4 then drop 12 (in_Mask n) else in_Mask n)
      else None)"

text \<open>\<open>IPNet.Contains\<close>. A malformed block has no bytes to compare with.\<close>

definition Contains :: "IPNet \<Rightarrow> ip \<Rightarrow> bool" where
  "Contains n a =
     (let x = (case To4 a of Some y \<Rightarrow> y | None \<Rightarrow> a) in
      case networkNumberAndMask n of
        None \<Rightarrow> x = []
      | Some (nn, m) \<Rightarrow>
          length x = length nn \<and> list_all2 (=) (apply_mask nn m) (apply_mask x m))"

subsection \<open>Host and port\<close>

text \<open>\<open>net.SplitHostPort\<close>: the host when it succeeds.\<close>

definition after_last_colon :: "string \<Rightarrow> string" where
  "after_last_colon s = rev (takeWhile (\<lambda>c. c \<noteq> CHR '':'') (rev s))"

definition SplitHostPort :: "string \<Rightarrow> string option" where
  "SplitHostPort s =
     (if CHR '':'' \<notin> set s then None
      else
        (let i = length s - length (after_last_colon s) - 1 in
         if hd s = CHR ''[''
         then (if CHR '']'' \<notin> set s then None
               else
                 (let e = length (takeWhile (\<lambda>c. c \<noteq> CHR '']'') s) in
                  if Suc e \<noteq> i then None
                  else if CHR ''['' \<in> set (drop 1 s) \<or> CHR '']'' \<in> set (drop (Suc e) s) then None
                  else Some (drop 1 (take e s))))
         else
           (let host = take i s in
            if CHR '':'' \<in> set host then None
            else if CHR ''['' \<in> set s \<or> CHR '']'' \<in> set s then None
            else Some host)))"

subsection \<open>Lemmas: what a CIDR block contains\<close>

text \<open>Bit \<open>j\<close> of an address, the most significant bit of its first byte being bit 0.\<close>

definition addr_bit :: "ip \<Rightarrow> nat \<Rightarrow> bool" where
  "addr_bit a j = bit (a ! (j div 8)) (7 - j mod 8)"

lemma bit_0xFF: "bit (0xFF :: 8 word) k \<longleftrightarrow> k < 8"
proof -
  have "(0xFF :: 8 word) = mask 8" by (simp add: mask_eq_exp_minus_1)
  then have "bit (0xFF :: 8 word) k \<longleftrightarrow> bit (mask 8 :: 8 word) k" by (simp only:)
  also have "\<dots> \<longleftrightarrow> k < 8" unfolding bit_mask_iff by simp
  finally show ?thesis .
qed

lemma length_mask_bytes [simp]: "length (mask_bytes l n) = l"
  by (induction l n rule: mask_bytes.induct) simp_all

lemma mask_bit:
  "i < l \<Longrightarrow> k < 8 \<Longrightarrow> bit (mask_bytes l n ! i) k \<longleftrightarrow> 8 * i + (7 - k) < n"
proof (induction l n arbitrary: i rule: mask_bytes.induct)
  case (1 n)
  then show ?case by simp
next
  case (2 l n)
  show ?case
  proof (cases i)
    case 0
    have "bit (0xFF :: 8 word) k" "bit (0xFF :: 8 word) (n + k) \<longleftrightarrow> n + k < 8"
      using 2 by (simp_all only: bit_0xFF)
    with 0 2 show ?thesis
      by (auto simp: bit_not_iff bit_drop_bit_eq)
  next
    case (Suc i')
    show ?thesis
    proof (cases "n \<ge> 8")
      case True
      with 2 Suc have "bit (mask_bytes l (n - 8) ! i') k \<longleftrightarrow> 8 * i' + (7 - k) < n - 8" by simp
      with True Suc show ?thesis by auto
    next
      case False
      with 2 Suc have "bit (mask_bytes l 0 ! i') k \<longleftrightarrow> 8 * i' + (7 - k) < 0" by simp
      with False Suc show ?thesis by auto
    qed
  qed
qed

lemma length_apply_mask [simp]: "length (apply_mask a m) = min (length a) (length m)"
  by (simp add: apply_mask_def)

lemma nth_apply_mask: "i < length a \<Longrightarrow> i < length m \<Longrightarrow> apply_mask a m ! i = a ! i AND m ! i"
  by (simp add: apply_mask_def)

lemma apply_mask_idem: "apply_mask (apply_mask a m) m = apply_mask a m"
  by (rule nth_equalityI) (simp_all add: nth_apply_mask ac_simps)

lemma masked_byte_eq:
  fixes x y m :: "8 word"
  shows "x AND m = y AND m \<longleftrightarrow> (\<forall>k < 8. bit m k \<longrightarrow> bit x k = bit y k)"
  by (auto simp: bit_eq_iff bit_and_iff)

lemma masked_eq_bits:
  assumes "length a = l" and "length x = l"
  shows "apply_mask a (mask_bytes l n) = apply_mask x (mask_bytes l n)
     \<longleftrightarrow> (\<forall>j < 8 * l. j < n \<longrightarrow> addr_bit a j = addr_bit x j)"
proof
  assume eq: "apply_mask a (mask_bytes l n) = apply_mask x (mask_bytes l n)"
  show "\<forall>j < 8 * l. j < n \<longrightarrow> addr_bit a j = addr_bit x j"
  proof (intro allI impI)
    fix j
    assume j: "j < 8 * l" "j < n"
    let ?i = "j div 8" and ?k = "7 - j mod 8"
    have i: "?i < l" using j(1) by (simp add: less_mult_imp_div_less mult.commute)
    have jj: "8 * ?i + (7 - ?k) = j" by simp
    have "a ! ?i AND mask_bytes l n ! ?i = x ! ?i AND mask_bytes l n ! ?i"
      using arg_cong [OF eq, of "\<lambda>l. l ! ?i"] i assms by (simp add: nth_apply_mask)
    moreover have "bit (mask_bytes l n ! ?i) ?k" using mask_bit [OF i, of ?k n] j(2) jj by simp
    ultimately show "addr_bit a j = addr_bit x j"
      by (auto simp: addr_bit_def masked_byte_eq)
  qed
next
  assume bits: "\<forall>j < 8 * l. j < n \<longrightarrow> addr_bit a j = addr_bit x j"
  show "apply_mask a (mask_bytes l n) = apply_mask x (mask_bytes l n)"
  proof (rule nth_equalityI)
    show "length (apply_mask a (mask_bytes l n)) = length (apply_mask x (mask_bytes l n))"
      using assms by simp
    fix i
    assume "i < length (apply_mask a (mask_bytes l n))"
    then have i: "i < l" using assms by simp
    have "bit (a ! i) k = bit (x ! i) k" if k: "k < 8" and m: "bit (mask_bytes l n ! i) k" for k
    proof -
      let ?j = "8 * i + (7 - k)"
      have "?j < n" using m mask_bit [OF i k] by simp
      moreover have "?j < 8 * l" using i k by simp
      moreover have "?j div 8 = i" "?j mod 8 = 7 - k"
        using k div_mult_self3 [of 8 i "7 - k"] mod_mult_self3 [of i 8 "7 - k"]
        by (simp_all add: mult.commute)
      moreover have "7 - (7 - k) = k" using k by simp
      ultimately show ?thesis using bits unfolding addr_bit_def by metis
    qed
    then show "apply_mask a (mask_bytes l n) ! i = apply_mask x (mask_bytes l n) ! i"
      using i assms by (simp add: nth_apply_mask masked_byte_eq)
  qed
qed

lemma ipv4_fields_length: "ipv4_fields acc v d s = Some f \<Longrightarrow> length acc \<le> 3 \<Longrightarrow> length f = 4"
  by (induction acc v d s rule: ipv4_fields.induct) (auto simp: Let_def split: if_splits)

lemma ipv6_expand_length: "ipv6_expand acc ell = Some a \<Longrightarrow> length acc \<le> 16 \<Longrightarrow> length a = 16"
  by (auto simp: ipv6_expand_def split: option.splits if_splits)

lemma parseIPv4_length: "parseIPv4 s = Some f \<Longrightarrow> length f = 4"
  by (auto simp: parseIPv4_def dest: ipv4_fields_length)

lemma ipv6_loop_length:
  "ipv6_loop fuel acc ell s = Some (acc', ell', s') \<Longrightarrow> even (length acc) \<Longrightarrow> length acc \<le> 16 \<Longrightarrow>
     length acc' \<le> 16"
proof (induction fuel acc ell s rule: ipv6_loop.induct)
  case (1 acc ell s)
  then show ?case by simp
next
  case (2 fuel acc ell s)
  show ?case
  proof (cases "length acc \<ge> 16")
    case True
    with 2 show ?thesis by simp
  next
    case False
    with 2(4) have "length acc + 2 \<le> 16" by presburger
    with False 2 show ?thesis
      by (auto simp: Let_def dest: parseIPv4_length split: option.splits if_splits list.splits prod.splits)
  qed
qed

lemma parseIPv6_length: "parseIPv6 s = Some a \<Longrightarrow> length a = 16"
  by (auto simp: parseIPv6_def Let_def dest!: ipv6_loop_length ipv6_expand_length
      split: option.splits if_splits prod.splits)

text \<open>The shape of a parsed address.\<close>

lemma ParseAddr_cases:
  assumes "ParseAddr s = Some (a, bits)"
  shows "(bits = 32 \<and> (\<exists>f. length f = 4 \<and> a = v4InV6Prefix @ f)) \<or> (bits = 128 \<and> length a = 16)"
  using assms
  by (auto simp: ParseAddr_def dest: parseIPv4_length parseIPv6_length split: list.splits if_splits)

lemma length_prefix [simp]: "length v4InV6Prefix = 12"
  by (simp add: v4InV6Prefix_def)

text \<open>Masking keeps a genuine IPv6 address from looking like a mapped IPv4 one.\<close>

lemma To4_masked:
  assumes "length a = 16" and "To4 a = None"
  shows "To4 (apply_mask a (mask_bytes 16 n)) = None"
proof (rule ccontr)
  let ?m = "mask_bytes 16 n"
  assume "To4 (apply_mask a ?m) \<noteq> None"
  then have t: "take 12 (apply_mask a ?m) = v4InV6Prefix"
    using assms(1) by (auto simp: To4_def split: if_splits)
  have "apply_mask a ?m ! 11 = take 12 (apply_mask a ?m) ! 11" by simp
  then have "a ! 11 AND ?m ! 11 = 0xFF"
    using t assms(1) by (simp add: nth_apply_mask v4InV6Prefix_def nth_append)
  then have "bit (a ! 11 AND ?m ! 11) 0" by simp
  then have "bit (?m ! 11) 0" by (simp only: bit_and_iff)
  then have n: "95 < n" using mask_bit [of 11 16 0 n] by simp
  have "a ! i AND ?m ! i = a ! i" if "i < 12" for i
  proof -
    have "bit (?m ! i) k" if "k < 8" for k
      using mask_bit [of i 16 k n] \<open>i < 12\<close> that n by simp
    then show ?thesis by (auto simp: bit_eq_iff bit_and_iff)
  qed
  then have "take 12 (apply_mask a ?m) = take 12 a"
    using assms(1) by (intro nth_equalityI) (simp_all add: nth_apply_mask)
  with t assms show False by (simp add: To4_def)
qed

definition family_bytes :: "nat \<Rightarrow> ip \<Rightarrow> ip" where
  "family_bytes bits a = drop (16 - bits div 8) a"

lemma list_all2_eq_iff: "list_all2 (=) xs ys \<longleftrightarrow> xs = ys"
  by (simp add: list.rel_eq)

lemma Contains_v4:
  assumes "length f = 4" and "length x = 16"
  shows "Contains \<lparr> in_IP = apply_mask f (mask_bytes 4 n), in_Mask = mask_bytes 4 n \<rparr> x
    \<longleftrightarrow> To4 x \<noteq> None \<and> (\<forall>j < 32. j < n \<longrightarrow> addr_bit f j = addr_bit (drop 12 x) j)"
proof (cases "To4 x")
  case None
  with assms show ?thesis by (simp add: Contains_def networkNumberAndMask_def To4_def Let_def)
next
  case (Some y)
  then have y: "y = drop 12 x" using assms(2) by (auto simp: To4_def split: if_splits)
  have "Contains \<lparr> in_IP = apply_mask f (mask_bytes 4 n), in_Mask = mask_bytes 4 n \<rparr> x
      \<longleftrightarrow> apply_mask f (mask_bytes 4 n) = apply_mask y (mask_bytes 4 n)"
    using assms Some y
    by (simp add: Contains_def networkNumberAndMask_def To4_def [of "apply_mask f (mask_bytes 4 n)"]
        apply_mask_idem list_all2_eq_iff Let_def)
  with masked_eq_bits [of f 4 y n] assms y Some show ?thesis by simp
qed

lemma Contains_v6:
  assumes "length a = 16" and "length x = 16" and "To4 a = None"
  shows "Contains \<lparr> in_IP = apply_mask a (mask_bytes 16 n), in_Mask = mask_bytes 16 n \<rparr> x
    \<longleftrightarrow> To4 x = None \<and> (\<forall>j < 128. j < n \<longrightarrow> addr_bit a j = addr_bit x j)"
proof (cases "To4 x")
  case None
  have "Contains \<lparr> in_IP = apply_mask a (mask_bytes 16 n), in_Mask = mask_bytes 16 n \<rparr> x
      \<longleftrightarrow> apply_mask a (mask_bytes 16 n) = apply_mask x (mask_bytes 16 n)"
    using assms None To4_masked [OF assms(1,3), of n]
    by (simp add: Contains_def networkNumberAndMask_def apply_mask_idem list_all2_eq_iff Let_def)
  with masked_eq_bits [of a 16 x n] assms None show ?thesis by simp
next
  case (Some y)
  then have "length y = 4" using assms(2) by (auto simp: To4_def split: if_splits)
  with assms Some To4_masked [OF assms(1,3), of n] show ?thesis
    by (simp add: Contains_def networkNumberAndMask_def Let_def)
qed

text \<open>A parsed block contains exactly the addresses of its family that agree on the first bits.\<close>

lemma ParseCIDR_contains:
  assumes "CHR ''/'' \<notin> set addr" and "ParseAddr addr = Some (a, bits)" and "read_ones ones = Some n"
    and "n \<le> bits" and "bits = 128 \<longrightarrow> To4 a = None" and "length x = 16"
  shows "\<exists>net. ParseCIDR (addr @ ''/'' @ ones) = Some net \<and>
     (Contains net x \<longleftrightarrow> (bits = 32 \<longleftrightarrow> To4 x \<noteq> None)
        \<and> (\<forall>j < n. addr_bit (family_bytes bits a) j = addr_bit (family_bytes bits x) j))"
proof -
  let ?m = "CIDRMask n bits"
  have "takeWhile (\<lambda>c. c \<noteq> CHR ''/'') (addr @ ''/'' @ ones) = addr"
    using assms(1) by (subst takeWhile_append2) auto
  moreover have "dropWhile (\<lambda>c. c \<noteq> CHR ''/'') (addr @ ''/'' @ ones) = ''/'' @ ones"
    using assms(1) by (subst dropWhile_append2) auto
  ultimately have p: "ParseCIDR (addr @ ''/'' @ ones) = Some \<lparr> in_IP = ip_Mask a ?m, in_Mask = ?m \<rparr>"
    using assms(2-4) by (simp add: ParseCIDR_def Let_def)
  from ParseAddr_cases [OF assms(2)] show ?thesis
  proof
    assume "bits = 32 \<and> (\<exists>f. length f = 4 \<and> a = v4InV6Prefix @ f)"
    then obtain f where b: "bits = 32" and f: "length f = 4" "a = v4InV6Prefix @ f" by blast
    have "ip_Mask a ?m = apply_mask f (mask_bytes 4 n)" using b f by (simp add: ip_Mask_def CIDRMask_def)
    with Contains_v4 [OF f(1) assms(6), of n] p b f assms(4) show ?thesis
      by (auto simp: CIDRMask_def family_bytes_def)
  next
    assume "bits = 128 \<and> length a = 16"
    with Contains_v6 [of a x n] p assms(4-6) show ?thesis
      by (auto simp: CIDRMask_def family_bytes_def ip_Mask_def)
  qed
qed

end
