(* ===== verification/Utf8.thy ===== *)
theory Utf8
  imports Prelude
begin

text \<open>
  UTF-8 as the Go runtime decodes it, and the rune-level string functions the program calls:
  \<open>utf8.DecodeRune\<close> (also what \<open>range\<close> over a string and the regexp engine do), \<open>strings.ToLower\<close>,
  \<open>strings.TrimSpace\<close> and the quoting verb \<open>%q\<close> (\<open>strconv.Quote\<close>). The Unicode property tables for
  code points beyond ASCII are data of the \<open>unicode\<close> package; they are a parameter, and with them
  \<open>uni_rawError\<close>, the message of \<open>json.Marshal\<close> for a \<open>json.RawMessage\<close> that is not JSON.
\<close>

record unicode =
  uni_lower :: "nat \<Rightarrow> nat"
  uni_digit :: "nat \<Rightarrow> bool"
  uni_print :: "nat \<Rightarrow> bool"
  uni_rawError :: "string \<Rightarrow> string"

text \<open>A rune is its code point and the bytes it was decoded from.\<close>

type_synonym rune = "nat \<times> string"

abbreviation byte_val :: "char \<Rightarrow> nat" where
  "byte_val c \<equiv> of_char c"

definition rune_error :: nat where
  "rune_error = 0xFFFD"

definition cont :: "char \<Rightarrow> bool" where
  "cont c \<longleftrightarrow> 0x80 \<le> byte_val c \<and> byte_val c \<le> 0xBF"

text \<open>Allowed range of the second byte, by the first byte.\<close>

definition second_ok :: "nat \<Rightarrow> nat \<Rightarrow> bool" where
  "second_ok b0 b1 \<longleftrightarrow>
     (if b0 = 0xE0 then 0xA0 \<le> b1 \<and> b1 \<le> 0xBF
      else if b0 = 0xED then 0x80 \<le> b1 \<and> b1 \<le> 0x9F
      else if b0 = 0xF0 then 0x90 \<le> b1 \<and> b1 \<le> 0xBF
      else if b0 = 0xF4 then 0x80 \<le> b1 \<and> b1 \<le> 0x8F
      else 0x80 \<le> b1 \<and> b1 \<le> 0xBF)"

text \<open>Code point and width of the first rune; an invalid encoding is \<open>rune_error\<close>, width 1.\<close>

definition decode_rune :: "string \<Rightarrow> nat \<times> nat" where
  "decode_rune s =
     (case s of
        [] \<Rightarrow> (rune_error, 0)
      | c0 # s1 \<Rightarrow>
          (let b0 = byte_val c0 in
           if b0 < 0x80 then (b0, 1)
           else if 0xC2 \<le> b0 \<and> b0 \<le> 0xDF then
             (case s1 of
                c1 # _ \<Rightarrow> if cont c1 then ((b0 - 0xC0) * 64 + (byte_val c1 - 0x80), 2)
                          else (rune_error, 1)
              | [] \<Rightarrow> (rune_error, 1))
           else if 0xE0 \<le> b0 \<and> b0 \<le> 0xEF then
             (case s1 of
                c1 # c2 # _ \<Rightarrow>
                  if second_ok b0 (byte_val c1) \<and> cont c2
                  then ((b0 - 0xE0) * 4096 + (byte_val c1 - 0x80) * 64 + (byte_val c2 - 0x80), 3)
                  else (rune_error, 1)
              | _ \<Rightarrow> (rune_error, 1))
           else if 0xF0 \<le> b0 \<and> b0 \<le> 0xF4 then
             (case s1 of
                c1 # c2 # c3 # _ \<Rightarrow>
                  if second_ok b0 (byte_val c1) \<and> cont c2 \<and> cont c3
                  then ((b0 - 0xF0) * 262144 + (byte_val c1 - 0x80) * 4096
                          + (byte_val c2 - 0x80) * 64 + (byte_val c3 - 0x80), 4)
                  else (rune_error, 1)
              | _ \<Rightarrow> (rune_error, 1))
           else (rune_error, 1)))"

lemma decode_width:
  assumes "s \<noteq> []"
  shows "0 < snd (decode_rune s)" and "snd (decode_rune s) \<le> length s"
proof -
  obtain c0 s1 where s: "s = c0 # s1" using assms by (cases s) auto
  show "0 < snd (decode_rune s)"
    unfolding s decode_rune_def by (simp add: Let_def split: list.split)
  show "snd (decode_rune s) \<le> length s"
    unfolding s decode_rune_def by (simp add: Let_def split: list.split)
qed

function runes :: "string \<Rightarrow> rune list" where
  "runes s =
     (if s = [] then []
      else let w = snd (decode_rune s)
           in (fst (decode_rune s), take w s) # runes (drop w s))"
  by pat_completeness auto
termination
  by (relation "measure length") (auto simp: Let_def decode_width(1) intro!: diff_less)

declare runes.simps [simp del]

lemma runes_Nil [simp]: "runes [] = []"
  by (simp add: runes.simps)

lemma runes_ne:
  "s \<noteq> [] \<Longrightarrow> runes s = (fst (decode_rune s), take (snd (decode_rune s)) s)
     # runes (drop (snd (decode_rune s)) s)"
  by (subst runes.simps) (simp add: Let_def)

text \<open>The runes of a string cover its bytes, in order.\<close>

lemma concat_runes [simp]: "concat (map snd (runes s)) = s"
proof (induction s rule: runes.induct)
  case (1 s)
  then show ?case by (cases "s = []") (simp_all add: runes_ne Let_def)
qed

lemma rune_width_pos: "(r, b) \<in> set (runes s) \<Longrightarrow> b \<noteq> []"
proof (induction s rule: runes.induct)
  case (1 s)
  then show ?case
    using decode_width(1) [of s]
    by (cases "s = []") (auto simp: runes_ne Let_def)
qed

definition ascii :: "char \<Rightarrow> bool" where
  "ascii c \<longleftrightarrow> byte_val c < 0x80"

lemma runes_ascii: "ascii c \<Longrightarrow> runes (c # s) = (byte_val c, [c]) # runes s"
  by (simp add: runes_ne decode_rune_def ascii_def)

lemma runes_all_ascii: "\<forall>c \<in> set s. ascii c \<Longrightarrow> runes s = map (\<lambda>c. (byte_val c, [c])) s"
  by (induction s) (simp_all add: runes_ascii)

subsection \<open>Encoding\<close>

definition encode_rune :: "nat \<Rightarrow> string" where
  "encode_rune r0 =
     (let r = (if r0 > 0x10FFFF \<or> (0xD800 \<le> r0 \<and> r0 \<le> 0xDFFF) then rune_error else r0) in
      if r < 0x80 then [char_of r]
      else if r < 0x800 then [char_of (0xC0 + r div 64), char_of (0x80 + r mod 64)]
      else if r < 0x10000 then
        [char_of (0xE0 + r div 4096), char_of (0x80 + r div 64 mod 64), char_of (0x80 + r mod 64)]
      else
        [char_of (0xF0 + r div 262144), char_of (0x80 + r div 4096 mod 64),
         char_of (0x80 + r div 64 mod 64), char_of (0x80 + r mod 64)])"

subsection \<open>\<open>strings.ToLower\<close> and \<open>strings.TrimSpace\<close>\<close>

definition lower_rune :: "unicode \<Rightarrow> nat \<Rightarrow> nat" where
  "lower_rune U r =
     (if r < 0x80 then (if 65 \<le> r \<and> r \<le> 90 then r + 32 else r) else uni_lower U r)"

definition lower_char :: "char \<Rightarrow> char" where
  "lower_char c =
     (if 65 \<le> byte_val c \<and> byte_val c \<le> 90 then char_of (byte_val c + 32) else c)"

definition ToLower :: "unicode \<Rightarrow> string \<Rightarrow> string" where
  "ToLower U s =
     (if \<forall>c \<in> set s. ascii c then map lower_char s
      else concat (map (\<lambda>(r, _). encode_rune (lower_rune U r)) (runes s)))"

definition is_space :: "nat \<Rightarrow> bool" where
  "is_space r \<longleftrightarrow>
     (9 \<le> r \<and> r \<le> 13) \<or> r = 0x20 \<or> r = 0x85 \<or> r = 0xA0 \<or> r = 0x1680
     \<or> (0x2000 \<le> r \<and> r \<le> 0x200A) \<or> r = 0x2028 \<or> r = 0x2029 \<or> r = 0x202F
     \<or> r = 0x205F \<or> r = 0x3000"

definition trim_runes :: "(nat \<Rightarrow> bool) \<Rightarrow> rune list \<Rightarrow> rune list" where
  "trim_runes p rs =
     rev (dropWhile (\<lambda>x. p (fst x)) (rev (dropWhile (\<lambda>x. p (fst x)) rs)))"

definition TrimSpace :: "string \<Rightarrow> string" where
  "TrimSpace s = concat (map snd (trim_runes is_space (runes s)))"

text \<open>\<open>strings.Fields\<close>: the maximal runs of non-space runes.\<close>

function fields_runes :: "rune list \<Rightarrow> string list" where
  "fields_runes rs =
     (let rest = dropWhile (\<lambda>x. is_space (fst x)) rs in
      if rest = [] then []
      else concat (map snd (takeWhile (\<lambda>x. \<not> is_space (fst x)) rest))
           # fields_runes (dropWhile (\<lambda>x. \<not> is_space (fst x)) rest))"
  by pat_completeness auto
termination
proof (relation "measure length", simp)
  fix rs rest :: "rune list"
  assume rest: "rest = dropWhile (\<lambda>x. is_space (fst x)) rs" and ne: "rest \<noteq> []"
  then have "\<not> is_space (fst (hd rest))" using hd_dropWhile by metis
  then have "length (dropWhile (\<lambda>x. \<not> is_space (fst x)) rest) < length rest"
    using ne by (cases rest) (auto simp: less_Suc_eq_le length_dropWhile_le)
  also have "\<dots> \<le> length rs" by (simp add: rest length_dropWhile_le)
  finally show "(dropWhile (\<lambda>x. \<not> is_space (fst x)) rest, rs) \<in> measure length" by simp
qed

declare fields_runes.simps [simp del]

definition Fields :: "string \<Rightarrow> string list" where
  "Fields s = fields_runes (runes s)"

subsection \<open>\<open>strconv.Quote\<close>, the verb \<open>%q\<close>\<close>

definition hex_digit :: "nat \<Rightarrow> char" where
  "hex_digit d = (if d < 10 then char_of (48 + d) else char_of (87 + d))"

text \<open>The lower-case hexadecimal digits of \<open>n\<close>, \<open>k\<close> of them.\<close>

fun hex_fixed :: "nat \<Rightarrow> nat \<Rightarrow> string" where
  "hex_fixed 0 n = []"
| "hex_fixed (Suc k) n = hex_fixed k (n div 16) @ [hex_digit (n mod 16)]"

definition backslash :: char where "backslash = CHR 0x5C"
definition dquote :: char where "dquote = CHR 0x22"

definition quote_rune :: "unicode \<Rightarrow> rune \<Rightarrow> string" where
  "quote_rune U x =
     (let r = fst x; b = snd x in
      if r = rune_error \<and> length b = 1 then [backslash, CHR ''x''] @ hex_fixed 2 (byte_val (hd b))
      else if r = 0x22 \<or> r = 0x5C then [backslash, char_of r]
      else if r < 0x80 \<and> 0x20 \<le> r \<and> r \<noteq> 0x7F then b
      else if 0x80 \<le> r \<and> uni_print U r then b
      else if r = 7 then [backslash, CHR ''a'']
      else if r = 8 then [backslash, CHR ''b'']
      else if r = 12 then [backslash, CHR ''f'']
      else if r = 10 then [backslash, CHR ''n'']
      else if r = 13 then [backslash, CHR ''r'']
      else if r = 9 then [backslash, CHR ''t'']
      else if r = 11 then [backslash, CHR ''v'']
      else if r < 0x20 \<or> r = 0x7F then [backslash, CHR ''x''] @ hex_fixed 2 r
      else if r < 0x10000 then [backslash, CHR ''u''] @ hex_fixed 4 r
      else [backslash, CHR ''U''] @ hex_fixed 8 r)"

definition go_quote :: "unicode \<Rightarrow> string \<Rightarrow> string" where
  "go_quote U s = [dquote] @ concat (map (quote_rune U) (runes s)) @ [dquote]"

lemma go_quote_ascii:
  "\<forall>c \<in> set s. ascii c \<Longrightarrow>
     go_quote U s = [dquote] @ concat (map (\<lambda>c. quote_rune U (byte_val c, [c])) s) @ [dquote]"
  by (simp add: go_quote_def runes_all_ascii comp_def)

subsection \<open>Splitting at the first separator\<close>

text \<open>\<open>strings.SplitN(s, sep, 2)\<close> for a one-byte separator.\<close>

definition split2 :: "char \<Rightarrow> string \<Rightarrow> string list" where
  "split2 sep s =
     (if sep \<in> set s
      then [takeWhile (\<lambda>c. c \<noteq> sep) s, tl (dropWhile (\<lambda>c. c \<noteq> sep) s)]
      else [s])"

lemma split2_two: "sep \<in> set s \<Longrightarrow> length (split2 sep s) = 2"
  by (simp add: split2_def)

lemma split2_join:
  assumes "split2 sep s = [a, b]"
  shows "s = a @ sep # b" and "sep \<notin> set a"
proof -
  have "sep \<in> set s" using assms by (auto simp: split2_def split: if_splits)
  then have "dropWhile (\<lambda>c. c \<noteq> sep) s = sep # tl (dropWhile (\<lambda>c. c \<noteq> sep) s)"
    by (metis (mono_tags, lifting) dropWhile_eq_Nil_conv hd_dropWhile list.collapse)
  moreover have "a = takeWhile (\<lambda>c. c \<noteq> sep) s" "b = tl (dropWhile (\<lambda>c. c \<noteq> sep) s)"
    using assms by (auto simp: split2_def split: if_splits)
  ultimately show "s = a @ sep # b" by (metis takeWhile_dropWhile_id)
  show "sep \<notin> set a"
    using \<open>a = _\<close> by (auto dest: set_takeWhileD)
qed

end
