(* ===== verification/Kernel.thy ===== *)
theory Kernel
  imports Netaddr Utf8 "HOL-Library.Multiset"
begin

text \<open>
  \<open>ebpf/controller.go\<close>: the controller of the kernel programs. Its package variables are one record.
  The eBPF library, the tracepoints and the sockets are the environment of each call: which call
  fails, and with what. A kernel map is its contents; the tracepoints attached and the descriptors
  open in the kernel are kept beside the Go variables that refer to them. The ring buffers are the
  list of results the reader's successive \<open>Read\<close> calls return.
\<close>

type_synonym uint32 = "32 word"
type_synonym uint16 = "16 word"

subsection \<open>Records of the kernel\<close>

record SecurityEvent =
  sec_ProcessID :: uint32
  sec_ViolationType :: uint32
  sec_Comm :: bytes

record AntiTamperEvent =
  ate_PID :: uint32
  ate_TGID :: uint32
  ate_BreachType :: uint32
  ate_TargetPID :: uint32
  ate_Comm :: bytes

record LpmTrieKey =
  lpm_PrefixLen :: uint32
  lpm_Name :: bytes

definition htons :: "uint16 \<Rightarrow> uint16" where
  "htons v = push_bit 8 v OR drop_bit 8 v"

text \<open>Four bytes, least significant first, as \<open>binary.LittleEndian\<close> reads them.\<close>

definition le32 :: "bytes \<Rightarrow> uint32" where
  "le32 bs = of_nat (foldr (\<lambda>c acc. byte_val c + 256 * acc) (take 4 bs) 0)"

definition ipToUint32 :: "ip \<Rightarrow> uint32" where
  "ipToUint32 a =
     (case To4 a of
        None \<Rightarrow> 0
      | Some v4 \<Rightarrow> le32 (map (\<lambda>b. char_of (unat b)) v4))"

text \<open>
  \<open>binary.Read\<close> into the two structs: the fields in order, an error when the sample is shorter than
  the struct, bytes beyond it ignored.
\<close>

definition decode_security_event :: "bytes \<Rightarrow> SecurityEvent option" where
  "decode_security_event s =
     (if length s < 24 then None
      else Some \<lparr> sec_ProcessID = le32 s, sec_ViolationType = le32 (drop 4 s),
                  sec_Comm = take 16 (drop 8 s) \<rparr>)"

definition decode_anti_tamper :: "bytes \<Rightarrow> AntiTamperEvent option" where
  "decode_anti_tamper s =
     (if length s < 32 then None
      else Some \<lparr> ate_PID = le32 s, ate_TGID = le32 (drop 4 s), ate_BreachType = le32 (drop 8 s),
                  ate_TargetPID = le32 (drop 12 s), ate_Comm = take 16 (drop 16 s) \<rparr>)"

text \<open>\<open>string(bytes.Trim(comm, "\x00"))\<close>\<close>

definition trim_nul :: "bytes \<Rightarrow> string" where
  "trim_nul s =
     rev (dropWhile (\<lambda>c. c = CHR 0x00) (rev (dropWhile (\<lambda>c. c = CHR 0x00) s)))"

text \<open>The key of a domain: full length, the name copied into 64 zero bytes.\<close>

definition lpm_key :: "string \<Rightarrow> LpmTrieKey" where
  "lpm_key domain =
     \<lparr> lpm_PrefixLen = 512, lpm_Name = take 64 domain @ replicate (64 - length domain) (CHR 0x00) \<rparr>"

subsection \<open>State\<close>

datatype probe = ProbeConnect | ProbeOpenat | ProbePtrace | ProbeMprotect | ProbeExecve

datatype init_error =
    PinDirFailed string
  | LoadSpecFailed string
  | AssignFailed string
  | AttachFailed probe string
  | PrimaryFailed init_error

type_synonym kmap = "(uint32, uint32) gomap"

text \<open>
  \<open>kc_links\<close> are the link variables that are not nil, \<open>kc_attached\<close> the tracepoints attached in the
  kernel; \<open>kc_socketFds\<close> is the Go slice, \<open>kc_openFds\<close> the descriptors open. The callback acts on the
  rest of the process, \<open>'w\<close>.
\<close>

record 'w ebpf =
  kc_lockedMap :: "kmap option"
  kc_allowedIPsMap :: "kmap option"
  kc_dnsWhitelistMap :: "(LpmTrieKey, uint32) gomap option"
  kc_eventsRingMap :: bool
  kc_links :: "probe list"
  kc_attached :: "probe list"
  kc_socketFds :: "int list"
  kc_openFds :: "int list"
  kc_initOnce :: bool
  kc_initErr :: "init_error option"
  kc_antiRingMap :: bool
  kc_antiInitOnce :: bool
  kc_antiInitErr :: "init_error option"
  kc_killSwitchCb :: "(string \<Rightarrow> (string, string) gomap \<Rightarrow> 'w \<Rightarrow> 'w) option"
  kc_BlockedNetworkBreaches :: int64
  kc_BlockedFileBypasses :: int64
  kc_BlockedPtraceAttempts :: int64
  kc_BlockedMprotectWX :: int64
  kc_BlockedShellSpawns :: int64

definition ebpf_start :: "'w ebpf" where
  "ebpf_start =
     \<lparr> kc_lockedMap = None, kc_allowedIPsMap = None, kc_dnsWhitelistMap = None, kc_eventsRingMap = False,
       kc_links = [], kc_attached = [], kc_socketFds = [], kc_openFds = [],
       kc_initOnce = False, kc_initErr = None,
       kc_antiRingMap = False, kc_antiInitOnce = False, kc_antiInitErr = None, kc_killSwitchCb = None,
       kc_BlockedNetworkBreaches = 0, kc_BlockedFileBypasses = 0, kc_BlockedPtraceAttempts = 0,
       kc_BlockedMprotectWX = 0, kc_BlockedShellSpawns = 0 \<rparr>"

subsection \<open>Initialising the native controller\<close>

text \<open>A network interface: name and index.\<close>

type_synonym iface = "string \<times> int"

text \<open>
  The loaded objects are the contents of their maps, which survive from an earlier run when the pin
  directory could not be removed. \<open>None\<close> is success.
\<close>

record bpf_objects =
  ob_locked :: kmap
  ob_allowed :: kmap
  ob_dns :: "(LpmTrieKey, uint32) gomap"

record bpf_env =
  be_mkdir :: "string option"
  be_loadSpec :: "string option"
  be_loadAssign :: "string + bpf_objects"
  be_link :: "probe \<Rightarrow> string option"
  be_dnsPut :: "LpmTrieKey \<Rightarrow> string option"
  be_lookup :: "string \<Rightarrow> ip list"
  be_ipPut :: "uint32 \<Rightarrow> string option"
  be_interfaces :: "iface list option"
  be_socket :: "iface \<Rightarrow> string + int"
  be_bind :: "iface \<Rightarrow> string option"
  be_setsockopt :: "iface \<Rightarrow> string option"

text \<open>Attaching one tracepoint: the variable gets the link, or nil and the error is returned.\<close>

definition attach_probe :: "(probe \<Rightarrow> string option) \<Rightarrow> probe \<Rightarrow> 'w ebpf \<Rightarrow> 'w ebpf \<times> init_error option" where
  "attach_probe link pr c =
     (case link pr of
        Some e \<Rightarrow> (c, Some (AttachFailed pr e))
      | None \<Rightarrow> (c\<lparr>kc_links := kc_links c @ [pr], kc_attached := kc_attached c @ [pr]\<rparr>, None))"

definition whitelistedDomains :: "string list" where
  "whitelistedDomains = [''localhost'', ''github.com'', ''api.github.com'', ''google.com'']"

fun allow_ips :: "(uint32 \<Rightarrow> string option) \<Rightarrow> ip list \<Rightarrow> kmap \<Rightarrow> kmap" where
  "allow_ips put [] m = m"
| "allow_ips put (a # as) m =
     (case To4 a of
        None \<Rightarrow> allow_ips put as m
      | Some ip4 \<Rightarrow>
          (let ipKey = ipToUint32 ip4 in
           allow_ips put as (case put ipKey of Some _ \<Rightarrow> m | None \<Rightarrow> gm_put m ipKey 1)))"

fun whitelist_loop ::
  "bpf_env \<Rightarrow> string list \<Rightarrow> (LpmTrieKey, uint32) gomap \<times> kmap \<Rightarrow> (LpmTrieKey, uint32) gomap \<times> kmap" where
  "whitelist_loop E [] dm = dm"
| "whitelist_loop E (domain # ds) (d, m) =
     (let lpmKey = lpm_key domain;
          d' = (case be_dnsPut E lpmKey of Some _ \<Rightarrow> d | None \<Rightarrow> gm_put d lpmKey 1)
      in whitelist_loop E ds (d', allow_ips (be_ipPut E) (be_lookup E domain) m))"

definition isVeth :: "string \<Rightarrow> bool" where
  "isVeth name \<longleftrightarrow> HasPrefix name ''veth'' \<or> HasPrefix name ''docker'' \<or> HasPrefix name ''eth''"

text \<open>One interface of step 7: the open descriptors and \<open>socketFds\<close>.\<close>

definition attach_socket :: "bpf_env \<Rightarrow> iface \<Rightarrow> int list \<times> int list \<Rightarrow> int list \<times> int list" where
  "attach_socket E iface fds =
     (if \<not> isVeth (fst iface) then fds
      else case be_socket E iface of
        Inl _ \<Rightarrow> fds
      | Inr fd \<Rightarrow>
          (let opened = fst fds @ [fd] in
           if be_bind E iface \<noteq> None then (remove1 fd opened, snd fds)
           else if be_setsockopt E iface \<noteq> None then (remove1 fd opened, snd fds)
           else (opened, snd fds @ [fd])))"

definition init_sockets :: "bpf_env \<Rightarrow> 'w ebpf \<Rightarrow> 'w ebpf" where
  "init_sockets E c =
     (case be_interfaces E of
        None \<Rightarrow> c
      | Some interfaces \<Rightarrow>
          (let (opened, sockets) = fold (attach_socket E) interfaces (kc_openFds c, kc_socketFds c)
           in c\<lparr>kc_openFds := opened, kc_socketFds := sockets\<rparr>))"

text \<open>Steps 1 to 4, then 5 to 7.\<close>

definition init_load :: "bpf_env \<Rightarrow> 'w ebpf \<Rightarrow> 'w ebpf \<times> init_error option" where
  "init_load E c =
     (case be_mkdir E of
        Some e \<Rightarrow> (c, Some (PinDirFailed e))
      | None \<Rightarrow>
     (case be_loadSpec E of
        Some e \<Rightarrow> (c, Some (LoadSpecFailed e))
      | None \<Rightarrow>
     (case be_loadAssign E of
        Inl e \<Rightarrow> (c, Some (AssignFailed e))
      | Inr objects \<Rightarrow>
          (c\<lparr>kc_lockedMap := Some (ob_locked objects), kc_allowedIPsMap := Some (ob_allowed objects),
             kc_dnsWhitelistMap := Some (ob_dns objects), kc_eventsRingMap := True\<rparr>, None))))"

definition init_whitelists :: "bpf_env \<Rightarrow> 'w ebpf \<Rightarrow> 'w ebpf" where
  "init_whitelists E c =
     (case (kc_dnsWhitelistMap c, kc_allowedIPsMap c) of
        (Some d, Some m) \<Rightarrow>
          (let (d', m') = whitelist_loop E whitelistedDomains (d, m)
           in c\<lparr>kc_dnsWhitelistMap := Some d', kc_allowedIPsMap := Some m'\<rparr>)
      | _ \<Rightarrow> c)"

definition init_body :: "bpf_env \<Rightarrow> 'w ebpf \<Rightarrow> 'w ebpf \<times> init_error option" where
  "init_body E c0 =
     (case init_load E c0 of
        (c1, Some e) \<Rightarrow> (c1, Some e)
      | (c1, None) \<Rightarrow>
     (case attach_probe (be_link E) ProbeConnect c1 of
        (c2, Some e) \<Rightarrow> (c2, Some e)
      | (c2, None) \<Rightarrow>
     (case attach_probe (be_link E) ProbeOpenat c2 of
        (c3, Some e) \<Rightarrow> (c3, Some e)
      | (c3, None) \<Rightarrow> (init_sockets E (init_whitelists E c3), None))))"

definition InitNativeController :: "bpf_env \<Rightarrow> 'w ebpf \<Rightarrow> 'w ebpf \<times> init_error option" where
  "InitNativeController E c =
     (if kc_initOnce c then (c, kc_initErr c)
      else (let (c', err) = init_body E c
            in (c'\<lparr>kc_initOnce := True, kc_initErr := err\<rparr>, err)))"

subsection \<open>The sandbox registry\<close>

text \<open>The result of a registry call: nil, an error, or a nil map dereferenced.\<close>

datatype reg_result = RegOK | RegError string | RegPanic

definition RegisterSandboxPID ::
  "bpf_env \<Rightarrow> string option \<Rightarrow> int \<Rightarrow> 'w ebpf \<Rightarrow> 'w ebpf \<times> reg_result" where
  "RegisterSandboxPID E update pid c0 =
     (case InitNativeController E c0 of
        (c, Some _) \<Rightarrow> (c, RegOK)
      | (c, None) \<Rightarrow>
     (case kc_lockedMap c of
        None \<Rightarrow> (c, RegPanic)
      | Some m \<Rightarrow>
     (case update of
        Some e \<Rightarrow> (c, RegError (''failed programmatically updating locked_sandboxes eBPF map: '' @ e))
      | None \<Rightarrow> (c\<lparr>kc_lockedMap := Some (gm_put m (word_of_int pid) 1)\<rparr>, RegOK))))"

text \<open>\<open>delete\<close> is the error of the call other than \<open>ErrKeyNotExist\<close>, which is tolerated.\<close>

definition RemoveSandboxPID ::
  "bpf_env \<Rightarrow> string option \<Rightarrow> int \<Rightarrow> 'w ebpf \<Rightarrow> 'w ebpf \<times> reg_result" where
  "RemoveSandboxPID E delete pid c0 =
     (case InitNativeController E c0 of
        (c, Some _) \<Rightarrow> (c, RegOK)
      | (c, None) \<Rightarrow>
     (case kc_lockedMap c of
        None \<Rightarrow> (c, RegPanic)
      | Some m \<Rightarrow>
     (case delete of
        Some e \<Rightarrow> (c, RegError (''failed programmatically deleting key from locked_sandboxes eBPF map: '' @ e))
      | None \<Rightarrow> (c\<lparr>kc_lockedMap := Some (gm_del m (word_of_int pid))\<rparr>, RegOK))))"

definition IsActive :: "'w ebpf \<Rightarrow> bool" where
  "IsActive c \<longleftrightarrow> kc_lockedMap c \<noteq> None"

subsection \<open>Streaming alerts\<close>

datatype ring_read = RingClosed | RingError string | RingSample bytes

definition count_alert :: "SecurityEvent \<Rightarrow> 'w ebpf \<Rightarrow> 'w ebpf" where
  "count_alert event c =
     (if sec_ViolationType event = 1
      then c\<lparr>kc_BlockedNetworkBreaches := kc_BlockedNetworkBreaches c + 1\<rparr>
      else if sec_ViolationType event = 2
      then c\<lparr>kc_BlockedFileBypasses := kc_BlockedFileBypasses c + 1\<rparr>
      else c)"

fun alert_loop :: "ring_read list \<Rightarrow> 'w ebpf \<Rightarrow> 'w ebpf" where
  "alert_loop [] c = c"
| "alert_loop (RingClosed # rs) c = c"
| "alert_loop (RingError e # rs) c = alert_loop rs c"
| "alert_loop (RingSample s # rs) c =
     (case decode_security_event s of
        None \<Rightarrow> alert_loop rs c
      | Some event \<Rightarrow> alert_loop rs (count_alert event c))"

text \<open>\<open>reader\<close> is the error of \<open>ringbuf.NewReader\<close>, if any.\<close>

definition StreamKernelAlerts ::
  "bpf_env \<Rightarrow> string option \<Rightarrow> ring_read list \<Rightarrow> 'w ebpf \<Rightarrow> 'w ebpf" where
  "StreamKernelAlerts E reader reads c0 =
     (case InitNativeController E c0 of
        (c, Some _) \<Rightarrow> c
      | (c, None) \<Rightarrow>
          if \<not> kc_eventsRingMap c then c
          else if reader \<noteq> None then c
          else alert_loop reads c)"

definition SetKillSwitchCallback ::
  "(string \<Rightarrow> (string, string) gomap \<Rightarrow> 'w \<Rightarrow> 'w) option \<Rightarrow> 'w ebpf \<Rightarrow> 'w ebpf" where
  "SetKillSwitchCallback cb c = c\<lparr>kc_killSwitchCb := cb\<rparr>"

definition invokeKillSwitch ::
  "string \<Rightarrow> (string, string) gomap \<Rightarrow> 'w ebpf \<times> 'w \<Rightarrow> 'w ebpf \<times> 'w" where
  "invokeKillSwitch reason kctx cw =
     (case kc_killSwitchCb (fst cw) of
        Some cb \<Rightarrow> (fst cw, cb reason kctx (snd cw))
      | None \<Rightarrow> cw)"

subsection \<open>The anti-tamper probes\<close>

record anti_env =
  ae_native :: bpf_env
  ae_mkdir :: "string option"
  ae_loadSpec :: "string option"
  ae_loadAssign :: "string option"
  ae_link :: "probe \<Rightarrow> string option"

fun attach_all :: "(probe \<Rightarrow> string option) \<Rightarrow> probe list \<Rightarrow> 'w ebpf \<Rightarrow> 'w ebpf \<times> init_error option" where
  "attach_all link [] c = (c, None)"
| "attach_all link (pr # prs) c =
     (case attach_probe link pr c of
        (c', Some e) \<Rightarrow> (c', Some e)
      | (c', None) \<Rightarrow> attach_all link prs c')"

definition anti_body :: "anti_env \<Rightarrow> 'w ebpf \<Rightarrow> 'w ebpf \<times> init_error option" where
  "anti_body A c0 =
     (case InitNativeController (ae_native A) c0 of
        (c, Some e) \<Rightarrow> (c, Some (PrimaryFailed e))
      | (c, None) \<Rightarrow>
     (case ae_mkdir A of
        Some e \<Rightarrow> (c, Some (PinDirFailed e))
      | None \<Rightarrow>
     (case ae_loadSpec A of
        Some e \<Rightarrow> (c, Some (LoadSpecFailed e))
      | None \<Rightarrow>
     (case ae_loadAssign A of
        Some e \<Rightarrow> (c, Some (AssignFailed e))
      | None \<Rightarrow>
          attach_all (ae_link A) [ProbePtrace, ProbeMprotect, ProbeExecve]
            (c\<lparr>kc_antiRingMap := True\<rparr>)))))"

definition InitAntiTamperProbes :: "anti_env \<Rightarrow> 'w ebpf \<Rightarrow> 'w ebpf \<times> init_error option" where
  "InitAntiTamperProbes A c =
     (if kc_antiInitOnce c then (c, kc_antiInitErr c)
      else (let (c', err) = anti_body A c
            in (c'\<lparr>kc_antiInitOnce := True, kc_antiInitErr := err\<rparr>, err)))"

definition breach_context :: "AntiTamperEvent \<Rightarrow> (string, string) gomap" where
  "breach_context event =
     gm_put (gm_put (gm_put [] ''pid'' (dec_nat (unat (ate_PID event))))
       ''tgid'' (dec_nat (unat (ate_TGID event)))) ''comm'' (trim_nul (ate_Comm event))"

definition dispatch_breach :: "AntiTamperEvent \<Rightarrow> 'w ebpf \<times> 'w \<Rightarrow> 'w ebpf \<times> 'w" where
  "dispatch_breach event cw =
     (let c = fst cw; kctx = breach_context event in
      if ate_BreachType event = 3
      then invokeKillSwitch ''ptrace_attach_detected''
             (gm_put kctx ''target_pid'' (dec_nat (unat (ate_TargetPID event))))
             (c\<lparr>kc_BlockedPtraceAttempts := kc_BlockedPtraceAttempts c + 1\<rparr>, snd cw)
      else if ate_BreachType event = 4
      then invokeKillSwitch ''mprotect_wx_detected'' kctx
             (c\<lparr>kc_BlockedMprotectWX := kc_BlockedMprotectWX c + 1\<rparr>, snd cw)
      else if ate_BreachType event = 5
      then invokeKillSwitch ''shell_spawn_detected'' kctx
             (c\<lparr>kc_BlockedShellSpawns := kc_BlockedShellSpawns c + 1\<rparr>, snd cw)
      else cw)"

text \<open>The loop ends with the process: \<open>dead\<close> says whether the callback has ended it.\<close>

fun breach_loop :: "('w \<Rightarrow> bool) \<Rightarrow> ring_read list \<Rightarrow> 'w ebpf \<times> 'w \<Rightarrow> 'w ebpf \<times> 'w" where
  "breach_loop dead [] cw = cw"
| "breach_loop dead (RingClosed # rs) cw = cw"
| "breach_loop dead (RingError e # rs) cw = breach_loop dead rs cw"
| "breach_loop dead (RingSample s # rs) cw =
     (case decode_anti_tamper s of
        None \<Rightarrow> breach_loop dead rs cw
      | Some event \<Rightarrow>
          (let cw' = dispatch_breach event cw in
           if dead (snd cw') then cw' else breach_loop dead rs cw'))"

definition StreamAntiTamperAlerts ::
  "('w \<Rightarrow> bool) \<Rightarrow> anti_env \<Rightarrow> string option \<Rightarrow> ring_read list \<Rightarrow> 'w ebpf \<times> 'w \<Rightarrow> 'w ebpf \<times> 'w" where
  "StreamAntiTamperAlerts dead A reader reads cw =
     (case InitAntiTamperProbes A (fst cw) of
        (c, Some _) \<Rightarrow> (c, snd cw)
      | (c, None) \<Rightarrow>
          if \<not> kc_antiRingMap c then (c, snd cw)
          else if reader \<noteq> None then (c, snd cw)
          else breach_loop dead reads (c, snd cw))"

subsection \<open>Closing\<close>

text \<open>Every link that is not nil is closed, then every socket; the variables keep their values.\<close>

definition CloseNativeController :: "'w ebpf \<Rightarrow> 'w ebpf" where
  "CloseNativeController c =
     c\<lparr>kc_attached := filter (\<lambda>pr. pr \<notin> set (kc_links c)) (kc_attached c),
       kc_openFds := fold remove1 (kc_socketFds c) (kc_openFds c)\<rparr>"

subsection \<open>Lemmas: byte order\<close>

text \<open>The layout of the C structs: the encoder the kernel side is.\<close>

definition le_bytes :: "uint32 \<Rightarrow> bytes" where
  "le_bytes w = map (\<lambda>i. char_of (unat w div 256 ^ i mod 256)) [0, 1, 2, 3]"

definition encode_security_event :: "SecurityEvent \<Rightarrow> bytes" where
  "encode_security_event e =
     le_bytes (sec_ProcessID e) @ le_bytes (sec_ViolationType e) @ sec_Comm e"

definition encode_anti_tamper :: "AntiTamperEvent \<Rightarrow> bytes" where
  "encode_anti_tamper e =
     le_bytes (ate_PID e) @ le_bytes (ate_TGID e) @ le_bytes (ate_BreachType e)
     @ le_bytes (ate_TargetPID e) @ ate_Comm e"

lemma length_le_bytes [simp]: "length (le_bytes w) = 4"
  by (simp add: le_bytes_def)

lemma le32_le_bytes [simp]: "le32 (le_bytes w @ rest) = w"
proof -
  have w: "unat w < 256 ^ 4" using unsigned_less [of w, where ?'a = nat] by simp
  have "foldr (\<lambda>c acc. byte_val c + 256 * acc) (le_bytes w) 0 =
      unat w mod 256 + 256 * (unat w div 256 mod 256 + 256 * (unat w div 256 ^ 2 mod 256
        + 256 * (unat w div 256 ^ 3 mod 256)))"
    by (simp add: le_bytes_def)
  also have "unat w div 256 ^ 3 mod 256 = unat w div 256 ^ 3"
    using w by (intro mod_less) (simp add: div_less_iff_less_mult)
  also have "unat w mod 256 + 256 * (unat w div 256 mod 256 + 256 * (unat w div 256 ^ 2 mod 256
        + 256 * (unat w div 256 ^ 3))) = unat w"
  proof -
    have "unat w div 256 ^ 2 = unat w div 256 div 256" "unat w div 256 ^ 3 = unat w div 256 div 256 div 256"
      by (simp_all flip: div_mult2_eq)
    then show ?thesis by (simp only: mod_mult_div_eq)
  qed
  finally have f: "foldr (\<lambda>c acc. byte_val c + 256 * acc) (le_bytes w) 0 = unat w" .
  have "take 4 (le_bytes w @ rest) = le_bytes w" by simp
  with f show ?thesis by (simp only: le32_def of_nat_unat ucast_id)
qed

lemma htons_involution: "htons (htons v) = v"
  by (rule bit_eqI)
     (auto simp: htons_def bit_simps)

subsection \<open>Lemmas: the registry as a set of process ids\<close>

text \<open>The pids the kernel sees as locked.\<close>

definition locked_pids :: "'w ebpf \<Rightarrow> uint32 set" where
  "locked_pids c = (case kc_lockedMap c of None \<Rightarrow> {} | Some m \<Rightarrow> dom (gm_get m))"

definition ebpf_up :: "'w ebpf \<Rightarrow> bool" where
  "ebpf_up c \<longleftrightarrow> kc_initOnce c \<and> kc_initErr c = None
     \<and> (case kc_lockedMap c of None \<Rightarrow> False | Some m \<Rightarrow> gm_wf m)"

text \<open>A registration or removal with the error of its system call.\<close>

datatype reg_op = Reg int "string option" | Rem int "string option"

fun reg_exec :: "bpf_env \<Rightarrow> reg_op \<Rightarrow> 'w ebpf \<Rightarrow> 'w ebpf \<times> reg_result" where
  "reg_exec E (Reg pid e) c = RegisterSandboxPID E e pid c"
| "reg_exec E (Rem pid e) c = RemoveSandboxPID E e pid c"

fun reg_spec :: "reg_op \<Rightarrow> uint32 set \<Rightarrow> uint32 set" where
  "reg_spec (Reg pid e) S = (if e = None then insert (word_of_int pid) S else S)"
| "reg_spec (Rem pid e) S = (if e = None then S - {word_of_int pid} else S)"

lemma init_up: "ebpf_up c \<Longrightarrow> InitNativeController E c = (c, None)"
  by (simp add: ebpf_up_def InitNativeController_def)

lemma reg_exec_spec:
  assumes "ebpf_up c"
  shows "ebpf_up (fst (reg_exec E r c)) \<and> locked_pids (fst (reg_exec E r c)) = reg_spec r (locked_pids c)
     \<and> snd (reg_exec E r c) \<noteq> RegPanic"
proof -
  obtain m where m: "kc_lockedMap c = Some m" "gm_wf m" "kc_initOnce c" "kc_initErr c = None"
    using assms by (auto simp: ebpf_up_def split: option.splits)
  show ?thesis
  proof (cases r)
    case (Reg pid e)
    then show ?thesis
      by (cases e)
         (auto simp: RegisterSandboxPID_def init_up [OF assms] ebpf_up_def m locked_pids_def gomap_simps)
  next
    case (Rem pid e)
    then show ?thesis
      by (cases e)
         (auto simp: RemoveSandboxPID_def init_up [OF assms] ebpf_up_def m locked_pids_def gomap_simps)
  qed
qed

subsection \<open>Lemmas: what the controller holds in the kernel\<close>

definition released :: "'w ebpf \<Rightarrow> bool" where
  "released c \<longleftrightarrow> kc_attached c = [] \<and> kc_openFds c = []"

definition ebpf_inv :: "'w ebpf \<Rightarrow> bool" where
  "ebpf_inv c \<longleftrightarrow>
     kc_attached c = kc_links c \<and> mset (kc_openFds c) = mset (kc_socketFds c)
     \<and> (kc_initOnce c \<and> kc_initErr c = None \<longrightarrow>
          kc_lockedMap c \<noteq> None \<and> kc_eventsRingMap c \<and> {ProbeConnect, ProbeOpenat} \<subseteq> set (kc_attached c))
     \<and> (kc_antiInitOnce c \<and> kc_antiInitErr c = None \<longrightarrow>
          kc_initOnce c \<and> kc_initErr c = None \<and> kc_antiRingMap c
          \<and> {ProbePtrace, ProbeMprotect, ProbeExecve} \<subseteq> set (kc_attached c))"

lemma attach_socket_mset:
  "mset (fst fds) = mset (snd fds) \<Longrightarrow>
     mset (fst (attach_socket E iface fds)) = mset (snd (attach_socket E iface fds))"
  by (auto simp: attach_socket_def Let_def split: sum.split)

lemma fold_attach_socket_mset:
  "mset (fst fds) = mset (snd fds) \<Longrightarrow>
     mset (fst (fold (attach_socket E) ifs fds)) = mset (snd (fold (attach_socket E) ifs fds))"
  by (induction ifs arbitrary: fds) (simp_all add: attach_socket_mset)

lemma fold_remove1_mset: "mset (fold remove1 xs ys) = mset ys - mset xs"
  by (induction xs arbitrary: ys) (simp_all add: diff_union_swap2 diff_diff_add)

lemma close_releases: "ebpf_inv c \<Longrightarrow> released (CloseNativeController c)"
proof -
  assume i: "ebpf_inv c"
  then have "mset (fold remove1 (kc_socketFds c) (kc_openFds c)) = {#}"
    by (simp add: fold_remove1_mset ebpf_inv_def)
  with i show ?thesis by (simp add: released_def CloseNativeController_def ebpf_inv_def)
qed

lemma init_load_cases:
  "init_load E c = (c', err) \<Longrightarrow>
     kc_attached c' = kc_attached c \<and> kc_links c' = kc_links c \<and> kc_openFds c' = kc_openFds c
     \<and> kc_socketFds c' = kc_socketFds c \<and> kc_antiInitOnce c' = kc_antiInitOnce c
     \<and> kc_antiInitErr c' = kc_antiInitErr c
     \<and> (err = None \<longrightarrow> kc_lockedMap c' \<noteq> None \<and> kc_eventsRingMap c')"
  by (auto simp: init_load_def split: option.splits sum.splits)

lemma attach_probe_cases:
  "attach_probe link pr c = (c', err) \<Longrightarrow>
     if err = None
     then c' = c\<lparr>kc_links := kc_links c @ [pr], kc_attached := kc_attached c @ [pr]\<rparr> else c' = c"
  by (auto simp: attach_probe_def split: option.splits)

lemma init_tail_frame:
  fixes E :: bpf_env and c c' :: "'w ebpf"
  defines "c' \<equiv> init_sockets E (init_whitelists E c)"
  shows "kc_attached c' = kc_attached c" and "kc_links c' = kc_links c"
    and "kc_lockedMap c' = kc_lockedMap c" and "kc_eventsRingMap c' = kc_eventsRingMap c"
    and "kc_antiInitOnce c' = kc_antiInitOnce c" and "kc_antiInitErr c' = kc_antiInitErr c"
    and "mset (kc_openFds c) = mset (kc_socketFds c) \<Longrightarrow> mset (kc_openFds c') = mset (kc_socketFds c')"
proof -
  have w: "kc_attached (init_whitelists E c) = kc_attached c" "kc_links (init_whitelists E c) = kc_links c"
    "kc_lockedMap (init_whitelists E c) = kc_lockedMap c"
    "kc_eventsRingMap (init_whitelists E c) = kc_eventsRingMap c"
    "kc_antiInitOnce (init_whitelists E c) = kc_antiInitOnce c"
    "kc_antiInitErr (init_whitelists E c) = kc_antiInitErr c"
    "kc_openFds (init_whitelists E c) = kc_openFds c" "kc_socketFds (init_whitelists E c) = kc_socketFds c"
    by (simp_all add: init_whitelists_def case_prod_beta split: option.split)
  show "kc_attached c' = kc_attached c" "kc_links c' = kc_links c"
    "kc_lockedMap c' = kc_lockedMap c" "kc_eventsRingMap c' = kc_eventsRingMap c"
    "kc_antiInitOnce c' = kc_antiInitOnce c" "kc_antiInitErr c' = kc_antiInitErr c"
    by (simp_all add: c'_def init_sockets_def w case_prod_beta Let_def split: option.split)
  show "mset (kc_openFds c') = mset (kc_socketFds c')" if "mset (kc_openFds c) = mset (kc_socketFds c)"
    using that fold_attach_socket_mset [of "(kc_openFds c, kc_socketFds c)" E]
    by (simp add: c'_def init_sockets_def w case_prod_beta Let_def split: option.split)
qed

text \<open>What a run of the once body leaves, from a state in which it has not run.\<close>

lemma init_body_inv:
  assumes "init_body E c = (c', err)" and "kc_attached c = kc_links c"
    and "mset (kc_openFds c) = mset (kc_socketFds c)"
  shows "kc_attached c' = kc_links c' \<and> mset (kc_openFds c') = mset (kc_socketFds c')
     \<and> kc_antiInitOnce c' = kc_antiInitOnce c \<and> kc_antiInitErr c' = kc_antiInitErr c
     \<and> (err = None \<longrightarrow> kc_lockedMap c' \<noteq> None \<and> kc_eventsRingMap c'
          \<and> {ProbeConnect, ProbeOpenat} \<subseteq> set (kc_attached c'))"
proof -
  obtain c1 e1 where 1: "init_load E c = (c1, e1)" by (cases "init_load E c")
  note i1 = init_load_cases [OF 1]
  obtain c2 e2 where 2: "attach_probe (be_link E) ProbeConnect c1 = (c2, e2)"
    by (cases "attach_probe (be_link E) ProbeConnect c1")
  note i2 = attach_probe_cases [OF 2]
  obtain c3 e3 where 3: "attach_probe (be_link E) ProbeOpenat c2 = (c3, e3)"
    by (cases "attach_probe (be_link E) ProbeOpenat c2")
  note i3 = attach_probe_cases [OF 3]
  show ?thesis
  proof (cases "e1 = None \<and> e2 = None \<and> e3 = None")
    case True
    then have c': "c' = init_sockets E (init_whitelists E c3)" "err = None"
      using assms(1) 1 2 3 by (simp_all add: init_body_def)
    have "mset (kc_openFds c3) = mset (kc_socketFds c3)" "kc_attached c3 = kc_links c3"
      "kc_lockedMap c3 \<noteq> None \<and> kc_eventsRingMap c3" "{ProbeConnect, ProbeOpenat} \<subseteq> set (kc_attached c3)"
      "kc_antiInitOnce c3 = kc_antiInitOnce c \<and> kc_antiInitErr c3 = kc_antiInitErr c"
      using True i1 i2 i3 assms(2,3) by simp_all
    then show ?thesis by (simp add: c' init_tail_frame)
  next
    case False
    then show ?thesis
      using assms i1 i2 i3 1 2 3 by (auto simp: init_body_def split: option.splits if_splits)
  qed
qed

lemma init_inv:
  assumes "ebpf_inv c"
  shows "ebpf_inv (fst (InitNativeController E c))"
proof (cases "kc_initOnce c")
  case True
  with assms show ?thesis by (simp add: InitNativeController_def)
next
  case False
  obtain c' err where b: "init_body E c = (c', err)" by (cases "init_body E c")
  from init_body_inv [OF b] assms False show ?thesis
    by (auto simp: InitNativeController_def b ebpf_inv_def)
qed

lemma init_ran: "kc_initOnce (fst (InitNativeController E c))"
  "kc_initErr (fst (InitNativeController E c)) = snd (InitNativeController E c)"
  by (simp_all add: InitNativeController_def case_prod_beta)

interpretation native_once: once_cell "\<lambda>E c. fst (InitNativeController E c)" kc_initOnce
  by unfold_locales (simp_all add: init_ran(1), simp add: InitNativeController_def)

lemma registry_inv:
  assumes "ebpf_inv c"
  shows "ebpf_inv (fst (RegisterSandboxPID E e pid c))" and "ebpf_inv (fst (RemoveSandboxPID E e pid c))"
proof -
  obtain c' err where i: "InitNativeController E c = (c', err)" by (cases "InitNativeController E c")
  have "ebpf_inv c'" using init_inv [OF assms, of E] i by simp
  then show "ebpf_inv (fst (RegisterSandboxPID E e pid c))" "ebpf_inv (fst (RemoveSandboxPID E e pid c))"
    by (auto simp: RegisterSandboxPID_def RemoveSandboxPID_def i ebpf_inv_def split: option.split)
qed

text \<open>No call on the registry dereferences a nil map.\<close>

lemma registry_no_panic:
  assumes "ebpf_inv c"
  shows "snd (RegisterSandboxPID E e pid c) \<noteq> RegPanic" and "snd (RemoveSandboxPID E e pid c) \<noteq> RegPanic"
proof -
  obtain c' err where i: "InitNativeController E c = (c', err)" by (cases "InitNativeController E c")
  have "err = None \<Longrightarrow> kc_lockedMap c' \<noteq> None"
    using init_inv [OF assms, of E] init_ran [of E c] i by (simp add: ebpf_inv_def)
  then show "snd (RegisterSandboxPID E e pid c) \<noteq> RegPanic" "snd (RemoveSandboxPID E e pid c) \<noteq> RegPanic"
    by (cases err; auto simp: RegisterSandboxPID_def RemoveSandboxPID_def i split: option.split)+
qed

lemma attach_all_cases:
  "attach_all link prs c = (c', err) \<Longrightarrow>
     \<exists>new. c' = c\<lparr>kc_links := kc_links c @ new, kc_attached := kc_attached c @ new\<rparr>
       \<and> (err = None \<longrightarrow> new = prs)"
proof (induction prs arbitrary: c)
  case Nil
  then show ?case by simp
next
  case (Cons pr prs)
  obtain c1 e1 where 1: "attach_probe link pr c = (c1, e1)" by (cases "attach_probe link pr c")
  show ?case
  proof (cases e1)
    case None
    with Cons.prems 1 have "attach_all link prs c1 = (c', err)" by simp
    from Cons.IH [OF this] obtain new where
      d: "c' = c1\<lparr>kc_links := kc_links c1 @ new, kc_attached := kc_attached c1 @ new\<rparr>"
      "err = None \<longrightarrow> new = prs" by blast
    then show ?thesis using attach_probe_cases [OF 1] None by (intro exI [of _ "pr # new"]) simp
  next
    case (Some e)
    then show ?thesis
      using Cons.prems 1 attach_probe_cases [OF 1] by (intro exI [of _ "[]"]) auto
  qed
qed

lemma anti_inv:
  assumes "ebpf_inv c"
  shows "ebpf_inv (fst (InitAntiTamperProbes A c))"
proof (cases "kc_antiInitOnce c")
  case True
  with assms show ?thesis by (simp add: InitAntiTamperProbes_def)
next
  case False
  obtain c1 e1 where 1: "InitNativeController (ae_native A) c = (c1, e1)"
    by (cases "InitNativeController (ae_native A) c")
  have i1: "ebpf_inv c1" using init_inv [OF assms, of "ae_native A"] 1 by simp
  have r1: "kc_initOnce c1" "kc_initErr c1 = e1" using init_ran [of "ae_native A" c] 1 by simp_all
  obtain c2 e2 where 2: "attach_all (ae_link A) [ProbePtrace, ProbeMprotect, ProbeExecve]
      (c1\<lparr>kc_antiRingMap := True\<rparr>) = (c2, e2)" by (metis surj_pair)
  obtain new where c2: "c2 = c1\<lparr>kc_antiRingMap := True, kc_links := kc_links c1 @ new,
      kc_attached := kc_attached c1 @ new\<rparr>" and all: "e2 = None \<longrightarrow> new = [ProbePtrace, ProbeMprotect, ProbeExecve]"
    using attach_all_cases [OF 2] by auto
  obtain c' err where b: "anti_body A c = (c', err)" by (cases "anti_body A c")
  have "c' = c1 \<and> err \<noteq> None \<or> c' = c2 \<and> err = e2 \<and> e1 = None"
    using b 1 2 by (auto simp: anti_body_def split: option.splits)
  then show ?thesis
    using False b i1 r1 c2 all by (auto simp: InitAntiTamperProbes_def ebpf_inv_def)
qed

lemma count_alert_inv: "ebpf_inv (count_alert ev c) = ebpf_inv c"
  by (simp add: count_alert_def ebpf_inv_def)

lemma alert_loop_inv: "ebpf_inv (alert_loop rs c) = ebpf_inv c"
  by (induction rs c rule: alert_loop.induct) (simp_all add: count_alert_inv split: option.split)

lemma dispatch_inv: "ebpf_inv (fst (dispatch_breach ev cw)) = ebpf_inv (fst cw)"
  by (simp add: dispatch_breach_def invokeKillSwitch_def ebpf_inv_def Let_def split: option.split)

lemma breach_loop_inv: "ebpf_inv (fst (breach_loop dead rs cw)) = ebpf_inv (fst cw)"
  by (induction dead rs cw rule: breach_loop.induct)
     (simp_all add: dispatch_inv Let_def split: option.split)

lemma stream_inv:
  "ebpf_inv c \<Longrightarrow> ebpf_inv (StreamKernelAlerts E reader rs c)"
  "ebpf_inv (fst cw) \<Longrightarrow> ebpf_inv (fst (StreamAntiTamperAlerts dead A reader rs cw))"
  using init_inv [of c E] anti_inv [of "fst cw" A]
  by (auto simp: StreamKernelAlerts_def StreamAntiTamperAlerts_def alert_loop_inv breach_loop_inv
      split: prod.split option.split)

text \<open>Every history of the controller's operations.\<close>

inductive ebpf_reach :: "'w ebpf \<Rightarrow> bool" where
  start: "ebpf_reach ebpf_start"
| native: "ebpf_reach c \<Longrightarrow> ebpf_reach (fst (InitNativeController E c))"
| anti: "ebpf_reach c \<Longrightarrow> ebpf_reach (fst (InitAntiTamperProbes A c))"
| register: "ebpf_reach c \<Longrightarrow> ebpf_reach (fst (RegisterSandboxPID E e pid c))"
| remove: "ebpf_reach c \<Longrightarrow> ebpf_reach (fst (RemoveSandboxPID E e pid c))"
| alerts: "ebpf_reach c \<Longrightarrow> ebpf_reach (StreamKernelAlerts E reader reads c)"
| callback: "ebpf_reach c \<Longrightarrow> ebpf_reach (SetKillSwitchCallback cb c)"
| breaches: "ebpf_reach (fst cw) \<Longrightarrow> ebpf_reach (fst (StreamAntiTamperAlerts dead A reader reads cw))"

lemma ebpf_reach_inv: "ebpf_reach c \<Longrightarrow> ebpf_inv c"
proof (induction rule: ebpf_reach.induct)
  case start
  show ?case by (simp add: ebpf_inv_def ebpf_start_def)
next
  case (callback c cb)
  then show ?case by (auto simp: ebpf_inv_def SetKillSwitchCallback_def)
qed (simp_all add: init_inv anti_inv registry_inv stream_inv)

subsection \<open>Lemmas: streams\<close>

text \<open>The samples a reader delivers before it is closed, and the breaches among them.\<close>

fun samples :: "ring_read list \<Rightarrow> bytes list" where
  "samples [] = []"
| "samples (RingClosed # rs) = []"
| "samples (RingError e # rs) = samples rs"
| "samples (RingSample s # rs) = s # samples rs"

definition alerts_of :: "uint32 \<Rightarrow> ring_read list \<Rightarrow> SecurityEvent list" where
  "alerts_of ty rs = filter (\<lambda>e. sec_ViolationType e = ty) (List.map_filter decode_security_event (samples rs))"

definition breaches_of :: "ring_read list \<Rightarrow> AntiTamperEvent list" where
  "breaches_of rs =
     filter (\<lambda>e. ate_BreachType e \<in> {3, 4, 5}) (List.map_filter decode_anti_tamper (samples rs))"

lemma map_filter_Cons: "List.map_filter f (x # xs) = (case f x of None \<Rightarrow> [] | Some y \<Rightarrow> [y]) @ List.map_filter f xs"
  by (simp split: option.split)

lemma alert_loop_counts:
  "alert_loop rs c =
     c\<lparr>kc_BlockedNetworkBreaches := kc_BlockedNetworkBreaches c + of_nat (length (alerts_of 1 rs)),
       kc_BlockedFileBypasses := kc_BlockedFileBypasses c + of_nat (length (alerts_of 2 rs))\<rparr>"
  by (induction rs c rule: alert_loop.induct)
     (simp_all add: alerts_of_def map_filter_Cons count_alert_def split: option.split)

lemma dispatch_other: "ate_BreachType e \<notin> {3, 4, 5} \<Longrightarrow> dispatch_breach e cw = cw"
  by (simp add: dispatch_breach_def Let_def)

lemma breaches_of_sample:
  "breaches_of (RingSample s # rs) =
     (case decode_anti_tamper s of
        None \<Rightarrow> breaches_of rs
      | Some e \<Rightarrow> (if ate_BreachType e \<in> {3, 4, 5} then [e] else []) @ breaches_of rs)"
  by (simp add: breaches_of_def map_filter_Cons split: option.split)

lemma breach_loop_none:
  "breaches_of rs = [] \<Longrightarrow> breach_loop dead rs cw = cw"
proof (induction dead rs cw rule: breach_loop.induct)
  case (3 dead e rs cw)
  then show ?case by (simp add: breaches_of_def)
next
  case (4 dead s rs cw)
  show ?case
  proof (cases "decode_anti_tamper s")
    case None
    with 4 show ?thesis by (simp add: breaches_of_sample)
  next
    case (Some e)
    with 4(3) have e: "ate_BreachType e \<notin> {3, 4, 5}" and r: "breaches_of rs = []"
      unfolding breaches_of_sample by (simp_all split: if_splits)
    show ?thesis
      using 4(2) [OF Some HOL.refl] r Some by (simp add: dispatch_other [OF e])
  qed
qed simp_all

lemma breach_loop_first:
  "breaches_of rs = ev # rest \<Longrightarrow> dead (snd (dispatch_breach ev cw)) \<Longrightarrow> \<not> dead (snd cw) \<Longrightarrow>
     breach_loop dead rs cw = dispatch_breach ev cw"
proof (induction dead rs cw rule: breach_loop.induct)
  case (4 dead s rs cw)
  show ?case
  proof (cases "decode_anti_tamper s")
    case None
    with 4 show ?thesis by (simp add: breaches_of_sample)
  next
    case (Some e)
    show ?thesis
    proof (cases "ate_BreachType e \<in> {3, 4, 5}")
      case True
      with 4(3) Some have "e = ev" unfolding breaches_of_sample by simp
      with 4(4) Some show ?thesis by (simp add: Let_def)
    next
      case False
      with 4(3) Some have "breaches_of rs = ev # rest" unfolding breaches_of_sample by simp
      with 4(2) [OF Some HOL.refl] 4(4,5) Some show ?thesis by (simp add: dispatch_other [OF False])
    qed
  qed
qed (simp_all add: breaches_of_def)

fun reg_run :: "bpf_env \<Rightarrow> reg_op list \<Rightarrow> 'w ebpf \<Rightarrow> 'w ebpf \<times> reg_result list" where
  "reg_run E [] c = (c, [])"
| "reg_run E (r # rs) c =
     (let (c', res) = reg_exec E r c; (c'', ress) = reg_run E rs c' in (c'', res # ress))"

fun op_error :: "reg_op \<Rightarrow> string option" where
  "op_error (Reg pid e) = e"
| "op_error (Rem pid e) = e"

lemma reg_exec_result:
  assumes "ebpf_up c"
  shows "snd (reg_exec E r c) = RegOK \<longleftrightarrow> op_error r = None"
proof -
  obtain m where m: "kc_lockedMap c = Some m" using assms by (auto simp: ebpf_up_def split: option.splits)
  then show ?thesis
    by (cases r) (auto simp: RegisterSandboxPID_def RemoveSandboxPID_def init_up [OF assms] split: option.split)
qed

lemma reg_run_spec:
  "ebpf_up c \<Longrightarrow> reg_run E rs c = (c', ress) \<Longrightarrow>
     ebpf_up c' \<and> locked_pids c' = fold reg_spec rs (locked_pids c)
     \<and> map (\<lambda>x. x = RegOK) ress = map (\<lambda>r. op_error r = None) rs"
proof (induction E rs c arbitrary: c' ress rule: reg_run.induct)
  case (1 E c)
  then show ?case by simp
next
  case (2 E r rs c)
  obtain c1 res where x: "reg_exec E r c = (c1, res)" by (cases "reg_exec E r c")
  obtain c2 ress' where y: "reg_run E rs c1 = (c2, ress')" by (cases "reg_run E rs c1")
  have "c' = c2" "ress = res # ress'" using 2(3) x y by simp_all
  moreover have "ebpf_up c1" "locked_pids c1 = reg_spec r (locked_pids c)" "res = RegOK \<longleftrightarrow> op_error r = None"
    using reg_exec_spec [OF 2(2), of E r] reg_exec_result [OF 2(2), of E r] x by simp_all
  ultimately show ?case using 2(1) [OF x [symmetric] HOL.refl _ y] by simp
qed

subsection \<open>Properties\<close>

text \<open>
  The Go structs read what the kernel writes. The bytes of an event laid out as the C struct
  decode to that event, whatever follows them in the sample, and no shorter sample decodes at all.
\<close>

theorem kernel_event_roundtrip:
  assumes "length (sec_Comm s) = 16" and "length (ate_Comm a) = 16"
  shows "decode_security_event (encode_security_event s @ rest) = Some s
     \<and> decode_security_event (take 23 (encode_security_event s)) = None
     \<and> decode_anti_tamper (encode_anti_tamper a @ rest) = Some a
     \<and> decode_anti_tamper (take 31 (encode_anti_tamper a)) = None"
proof -
  have d: "drop 4 (le_bytes w @ xs) = xs" "drop 8 (le_bytes w @ le_bytes v @ xs) = xs"
    "drop 12 (le_bytes w @ le_bytes v @ le_bytes u @ xs) = xs"
    "drop 16 (le_bytes w @ le_bytes v @ le_bytes u @ le_bytes t @ xs) = xs" for w v u t xs
    by simp_all
  show ?thesis
    using assms
    by (simp add: decode_security_event_def encode_security_event_def decode_anti_tamper_def
        encode_anti_tamper_def d)
qed

theorem kernel_event_roundtrip_witness:
  "decode_anti_tamper (encode_anti_tamper
     \<lparr> ate_PID = 70000, ate_TGID = 70000, ate_BreachType = 3, ate_TargetPID = 1,
       ate_Comm = ''gdb'' @ replicate 13 (CHR 0x00) \<rparr> @ ''x'') =
     Some \<lparr> ate_PID = 70000, ate_TGID = 70000, ate_BreachType = 3, ate_TargetPID = 1,
       ate_Comm = ''gdb'' @ replicate 13 (CHR 0x00) \<rparr>"
proof -
  let ?s = "\<lparr> sec_ProcessID = 1, sec_ViolationType = 1, sec_Comm = replicate 16 (CHR 0x00) \<rparr>"
  let ?a = "\<lparr> ate_PID = 70000, ate_TGID = 70000, ate_BreachType = 3, ate_TargetPID = 1,
       ate_Comm = ''gdb'' @ replicate 13 (CHR 0x00) \<rparr>"
  have "length (sec_Comm ?s) = 16" "length (ate_Comm ?a) = 16" by simp_all
  from kernel_event_roundtrip [OF this, of "''x''"] show ?thesis by blast
qed

text \<open>
  The sandbox registry is a set of 32-bit process ids. Once the controller is up, any sequence of
  registrations and removals leaves in the kernel's map exactly the ids a set would hold, ids being
  taken modulo \<open>2 ^ 32\<close>; each call reports an error exactly when its system call failed, and an id
  that is absent is removed without one.
\<close>

theorem locked_pids_refine:
  assumes "ebpf_up c" and "reg_run E ops c = (c', results)"
  shows "locked_pids c' = fold reg_spec ops (locked_pids c)
     \<and> map (\<lambda>x. x = RegOK) results = map (\<lambda>r. op_error r = None) ops"
  using reg_run_spec [OF assms] by blast

theorem locked_pids_refine_witness:
  "\<forall>E :: bpf_env. locked_pids (fst (reg_run E [Reg 41 None, Reg 42 None, Rem 41 None, Rem 7 None, Reg 8 (Some ''E2BIG'')]
     ((ebpf_start :: unit ebpf)\<lparr>kc_initOnce := True, kc_lockedMap := Some []\<rparr>))) = {42}"
proof
  fix E
  let ?c = "(ebpf_start :: unit ebpf)\<lparr>kc_initOnce := True, kc_lockedMap := Some []\<rparr>"
  let ?ops = "[Reg 41 None, Reg 42 None, Rem 41 None, Rem 7 None, Reg 8 (Some ''E2BIG'')]"
  have up: "ebpf_up ?c" by (simp add: ebpf_up_def ebpf_start_def gomap_simps)
  obtain c' results where r: "reg_run E ?ops ?c = (c', results)" by (cases "reg_run E ?ops ?c")
  have "locked_pids ?c = {}" by (auto simp: locked_pids_def gm_get_def)
  then show "locked_pids (fst (reg_run E ?ops ?c)) = {42}"
    using locked_pids_refine [OF up r] unfolding r by auto
qed


text \<open>A failed attachment of the second tracepoint: closing still detaches the first.\<close>

definition demo_bpf :: bpf_env where
  "demo_bpf =
     \<lparr> be_mkdir = None, be_loadSpec = None,
       be_loadAssign = Inr \<lparr> ob_locked = [], ob_allowed = [], ob_dns = [] \<rparr>,
       be_link = (\<lambda>pr. if pr = ProbeOpenat then Some ''EPERM'' else None),
       be_dnsPut = (\<lambda>k. None), be_lookup = (\<lambda>d. []), be_ipPut = (\<lambda>k. None), be_interfaces = None,
       be_socket = (\<lambda>i. Inl ''EPERM''), be_bind = (\<lambda>i. None), be_setsockopt = (\<lambda>i. None) \<rparr>"

lemma demo_bpf_init:
  "InitNativeController demo_bpf ebpf_start =
     (ebpf_start\<lparr>kc_lockedMap := Some [], kc_allowedIPsMap := Some [], kc_dnsWhitelistMap := Some [],
        kc_eventsRingMap := True, kc_links := [ProbeConnect], kc_attached := [ProbeConnect],
        kc_initOnce := True, kc_initErr := Some (AttachFailed ProbeOpenat ''EPERM'')\<rparr>,
      Some (AttachFailed ProbeOpenat ''EPERM''))"
  by (simp add: demo_bpf_def InitNativeController_def init_body_def init_load_def attach_probe_def ebpf_start_def)


end
