(* ===== verification/Sandbox.thy ===== *)
theory Sandbox
  imports Kernel
begin

text \<open>
  \<open>sandbox/sandbox.go\<close>: running one untrusted script in a container. The file system and the Docker
  client are the environment of the call, \<open>sandbox_env\<close>. Everything the function does outside the
  process is an entry of its trace, the deferred calls at the end in the order Go runs them. The
  callback \<open>onPIDAcquired\<close> acts on the state \<open>'s\<close> of the caller, where \<open>ebpf.IsActive\<close> reads too.
\<close>

record Result =
  res_Stdout :: string
  res_Stderr :: string
  res_ExitCode :: int
  res_TimeTaken :: time

record SandboxManager =
  sm_imageName :: string

definition NewSandboxManager :: "string \<Rightarrow> SandboxManager" where
  "NewSandboxManager imageName =
     \<lparr> sm_imageName = (if imageName = [] then ''python:3.10-slim'' else imageName) \<rparr>"

subsection \<open>The environment\<close>

text \<open>
  A command is what it writes to its two streams and its error. \<open>sx_deadline\<close>: the context's five
  seconds were over when \<open>docker wait\<close> failed.
\<close>

record cmd_result =
  cr_stdout :: bytes
  cr_stderr :: bytes
  cr_err :: "string option"

record sandbox_env =
  sx_mkdirTemp :: "string + string"
  sx_chmodWritable :: "string option"
  sx_writeFile :: "string option"
  sx_chmodScript :: "string option"
  sx_chmodDir :: "string option"
  sx_unixNano :: int
  sx_info :: cmd_result
  sx_lookPath :: bool
  sx_run :: "string list \<Rightarrow> cmd_result"
  sx_inspect :: "string \<Rightarrow> cmd_result"
  sx_wait :: "string \<Rightarrow> cmd_result"
  sx_deadline :: bool
  sx_logs :: "string \<Rightarrow> cmd_result"
  sx_timeTaken :: time

datatype effect =
    MkScratch string
  | Chmod string nat
  | WriteScript string string nat
  | DockerRun "string list"
  | DockerInspect string
  | PIDHook int
  | DockerWait string
  | DockerLogs string
  | DockerRm string
  | RemoveScratch string

datatype sandbox_error =
    ScratchFailed string
  | ScratchModeFailed string
  | ScriptWriteFailed string
  | ScriptModeFailed string
  | DirModeFailed string
  | SpawnFailed string string
  | EmptyContainerID
  | InspectFailed string string
  | InvalidPID string "string option"
  | HookFailed string

text \<open>A nil error prints as \<open><nil>\<close> under \<open>%v\<close>.\<close>

fun sandbox_error_text :: "sandbox_error \<Rightarrow> string" where
  "sandbox_error_text (ScratchFailed e) = ''failed to create scratch space directory: '' @ e"
| "sandbox_error_text (ScratchModeFailed e) = ''failed to set 0700 permissions on scratch space: '' @ e"
| "sandbox_error_text (ScriptWriteFailed e) = ''failed to write untrusted script: '' @ e"
| "sandbox_error_text (ScriptModeFailed e) = ''failed to make script read-only: '' @ e"
| "sandbox_error_text (DirModeFailed e) = ''failed to make scratch directory read-only: '' @ e"
| "sandbox_error_text (SpawnFailed e s) = ''failed to spawn docker container: '' @ e @ '' (stderr: '' @ s @ '')''"
| "sandbox_error_text EmptyContainerID = ''container spawned successfully but container ID is empty''"
| "sandbox_error_text (InspectFailed e s) = ''failed to inspect container PID: '' @ e @ '' (stderr: '' @ s @ '')''"
| "sandbox_error_text (InvalidPID s e) =
     ''invalid container host PID captured: '' @ s @ '' (err: ''
       @ (case e of None \<Rightarrow> ''<nil>'' | Some t \<Rightarrow> t) @ '')''"
| "sandbox_error_text (HookFailed e) = ''failed during PID acquisition hook: '' @ e"

subsection \<open>Detecting the runtime\<close>

record runsc_check =
  rc_once :: bool
  rc_available :: bool

definition runsc_start :: runsc_check where
  "runsc_start = \<lparr> rc_once = False, rc_available = False \<rparr>"

definition detectRunsc :: "sandbox_env \<Rightarrow> runsc_check \<Rightarrow> runsc_check \<times> bool" where
  "detectRunsc X rc =
     (if rc_once rc then (rc, rc_available rc)
      else (let found = (if cr_err (sx_info X) = None \<and> str_contains (cr_stdout (sx_info X)) ''runsc''
                         then True else sx_lookPath X)
            in (\<lparr> rc_once = True, rc_available = found \<rparr>, found)))"

subsection \<open>Execution\<close>

record 's sandbox_outcome =
  so_result :: "sandbox_error + Result"
  so_state :: 's
  so_runsc :: runsc_check
  so_trace :: "effect list"

definition container_name :: "sandbox_env \<Rightarrow> string" where
  "container_name X = ''nexiscore-sandbox-'' @ dec_int (sx_unixNano X)"

definition run_args :: "sandbox_env \<Rightarrow> SandboxManager \<Rightarrow> string \<Rightarrow> bool \<Rightarrow> bool \<Rightarrow> string list" where
  "run_args X sm scratchDir runsc active =
     (let networkMode = (if \<not> active then ''none'' else ''bridge'') in
      [''run'', ''-d'', ''--name'', container_name X]
      @ (if runsc then [''--runtime=runsc''] else [])
      @ [''--network='' @ networkMode, ''--memory=512m'', ''-v'', scratchDir @ '':/app:ro'',
         sm_imageName sm, ''python'', ''/app/script.py''])"

text \<open>The error of \<open>strconv.Atoi\<close>, printed.\<close>

definition Atoi_error :: "unicode \<Rightarrow> string \<Rightarrow> string option" where
  "Atoi_error U s =
     (if Atoi s \<noteq> None then None
      else
        (let body = (if s \<noteq> [] \<and> (hd s = CHR ''-'' \<or> hd s = CHR ''+'') then tl s else s) in
         Some (''strconv.Atoi: parsing '' @ go_quote U s @ '': ''
           @ (if body \<noteq> [] \<and> dec_read 0 body \<noteq> None then ''value out of range'' else ''invalid syntax''))))"

text \<open>Steps 5 to 7 on a running container: the effects, the caller's state and the result.\<close>

definition wait_container :: "sandbox_env \<Rightarrow> string \<Rightarrow> effect list \<times> Result" where
  "wait_container X containerID =
     (let w = sx_wait X containerID in
      if cr_err w \<noteq> None \<and> sx_deadline X
      then ([DockerWait containerID],
            \<lparr> res_Stdout = [], res_Stderr = ''Execution timed out (5s deadline exceeded)'',
              res_ExitCode = - 1, res_TimeTaken = sx_timeTaken X \<rparr>)
      else
        (let exitCode = (if cr_err w \<noteq> None then - 2
                         else case Atoi (TrimSpace (cr_stdout w)) of Some code \<Rightarrow> code | None \<Rightarrow> 0);
             logs = sx_logs X containerID
         in ([DockerWait containerID, DockerLogs containerID],
             \<lparr> res_Stdout = cr_stdout logs, res_Stderr = cr_stderr logs, res_ExitCode = exitCode,
               res_TimeTaken = sx_timeTaken X \<rparr>)))"

definition supervise ::
  "sandbox_env \<Rightarrow> unicode \<Rightarrow> (int \<Rightarrow> 's \<Rightarrow> 's \<times> string option) option \<Rightarrow> string \<Rightarrow> 's
     \<Rightarrow> effect list \<times> 's \<times> (sandbox_error + Result)" where
  "supervise X U hook containerID s =
     (let i = sx_inspect X containerID in
      case cr_err i of
        Some e \<Rightarrow> ([DockerInspect containerID], s, Inl (InspectFailed e (cr_stderr i)))
      | None \<Rightarrow>
     (let pidStr = TrimSpace (cr_stdout i) in
      case Atoi pidStr of
        None \<Rightarrow> ([DockerInspect containerID], s, Inl (InvalidPID pidStr (Atoi_error U pidStr)))
      | Some pid \<Rightarrow>
          if pid \<le> 0 then ([DockerInspect containerID], s, Inl (InvalidPID pidStr None))
          else
            (case hook of
               None \<Rightarrow>
                 (let (w, res) = wait_container X containerID
                  in (DockerInspect containerID # w, s, Inr res))
             | Some onPID \<Rightarrow>
                 (case onPID pid s of
                    (s', Some e) \<Rightarrow> ([DockerInspect containerID, PIDHook pid], s', Inl (HookFailed e))
                  | (s', None) \<Rightarrow>
                      (let (w, res) = wait_container X containerID
                       in (DockerInspect containerID # PIDHook pid # w, s', Inr res))))))"

definition fails ::
  "'s \<Rightarrow> runsc_check \<Rightarrow> effect list \<Rightarrow> sandbox_error \<Rightarrow> 's sandbox_outcome" where
  "fails s rc tr e = \<lparr> so_result = Inl e, so_state = s, so_runsc = rc, so_trace = tr \<rparr>"

text \<open>Steps 1 and 2: the scratch directory with the script; the effects and the error if any.\<close>

definition prepare_scratch :: "sandbox_env \<Rightarrow> string \<Rightarrow> string \<Rightarrow> effect list \<times> sandbox_error option" where
  "prepare_scratch X dir scriptCode =
     (let scriptPath = dir @ ''/script.py'' in
      case sx_chmodWritable X of
        Some e \<Rightarrow> ([], Some (ScratchModeFailed e))
      | None \<Rightarrow>
     (case sx_writeFile X of
        Some e \<Rightarrow> ([Chmod dir (7 * 64)], Some (ScriptWriteFailed e))
      | None \<Rightarrow>
     (case sx_chmodScript X of
        Some e \<Rightarrow> ([Chmod dir (7 * 64), WriteScript scriptPath scriptCode (6 * 64)], Some (ScriptModeFailed e))
      | None \<Rightarrow>
     (case sx_chmodDir X of
        Some e \<Rightarrow> ([Chmod dir (7 * 64), WriteScript scriptPath scriptCode (6 * 64), Chmod scriptPath (4 * 64)],
                   Some (DirModeFailed e))
      | None \<Rightarrow> ([Chmod dir (7 * 64), WriteScript scriptPath scriptCode (6 * 64), Chmod scriptPath (4 * 64),
                   Chmod dir (5 * 64)], None)))))"

definition Execute ::
  "sandbox_env \<Rightarrow> unicode \<Rightarrow> ('s \<Rightarrow> bool) \<Rightarrow> SandboxManager \<Rightarrow> string
     \<Rightarrow> (int \<Rightarrow> 's \<Rightarrow> 's \<times> string option) option \<Rightarrow> runsc_check \<Rightarrow> 's \<Rightarrow> 's sandbox_outcome" where
  "Execute X U active sm scriptCode hook rc s =
     (case sx_mkdirTemp X of
        Inl e \<Rightarrow> fails s rc [] (ScratchFailed e)
      | Inr dir \<Rightarrow>
     (case prepare_scratch X dir scriptCode of
        (prep, Some e) \<Rightarrow> fails s rc (MkScratch dir # prep @ [RemoveScratch dir]) e
      | (prep, None) \<Rightarrow>
          (let (rc', runsc) = detectRunsc X rc;
               args = run_args X sm dir runsc (active s);
               r = sx_run X args;
               pre = MkScratch dir # prep @ [DockerRun args]
           in case cr_err r of
                Some e \<Rightarrow> fails s rc' (pre @ [RemoveScratch dir]) (SpawnFailed e (cr_stderr r))
              | None \<Rightarrow>
                  (let containerID = TrimSpace (cr_stdout r) in
                   if containerID = [] then fails s rc' (pre @ [RemoveScratch dir]) EmptyContainerID
                   else
                     (let (mid, s', res) = supervise X U hook containerID s
                      in \<lparr> so_result = res, so_state = s', so_runsc = rc',
                           so_trace = pre @ mid @ [DockerRm (container_name X), RemoveScratch dir] \<rparr>)))))"

subsection \<open>Lemmas\<close>

definition hook_effects :: "effect list \<Rightarrow> int list" where
  "hook_effects tr = List.map_filter (\<lambda>e. case e of PIDHook p \<Rightarrow> Some p | _ \<Rightarrow> None) tr"

definition runs :: "effect list \<Rightarrow> string list list" where
  "runs tr = List.map_filter (\<lambda>e. case e of DockerRun a \<Rightarrow> Some a | _ \<Rightarrow> None) tr"

lemma hook_effects_simps [simp]:
  "hook_effects [] = []" "hook_effects (xs @ ys) = hook_effects xs @ hook_effects ys"
  "hook_effects (e # tr) = (case e of PIDHook p \<Rightarrow> [p] | _ \<Rightarrow> []) @ hook_effects tr"
  by (simp_all add: hook_effects_def List.map_filter_def split: effect.split)

lemma runs_simps [simp]:
  "runs [] = []" "runs (xs @ ys) = runs xs @ runs ys"
  "runs (e # tr) = (case e of DockerRun a \<Rightarrow> [a] | _ \<Rightarrow> []) @ runs tr"
  by (simp_all add: runs_def List.map_filter_def split: effect.split)

lemma wait_container_trace:
  "\<exists>w. fst (wait_container X cid) = DockerWait cid # w \<and> hook_effects w = [] \<and> runs w = []
     \<and> DockerRm n \<notin> set w"
  by (auto simp: wait_container_def Let_def)

lemma prepare_scratch_ok:
  "prepare_scratch X dir code = (prep, None) \<Longrightarrow>
     prep = [Chmod dir (7 * 64), WriteScript (dir @ ''/script.py'') code (6 * 64),
             Chmod (dir @ ''/script.py'') (4 * 64), Chmod dir (5 * 64)]"
  by (auto simp: prepare_scratch_def Let_def split: option.splits)

lemma prepare_scratch_quiet:
  "hook_effects (fst (prepare_scratch X dir code)) = [] \<and> runs (fst (prepare_scratch X dir code)) = []"
  by (auto simp: prepare_scratch_def Let_def split: option.splits)

text \<open>The pid step 5 accepts, and the container step 4 starts: scratch directory, arguments, id.\<close>

definition container_pid :: "sandbox_env \<Rightarrow> string \<Rightarrow> int option" where
  "container_pid X cid =
     (if cr_err (sx_inspect X cid) \<noteq> None then None
      else case Atoi (TrimSpace (cr_stdout (sx_inspect X cid))) of
        None \<Rightarrow> None
      | Some pid \<Rightarrow> if pid \<le> 0 then None else Some pid)"

definition started ::
  "sandbox_env \<Rightarrow> bool \<Rightarrow> SandboxManager \<Rightarrow> string \<Rightarrow> runsc_check \<Rightarrow> (string \<times> string list \<times> string) option" where
  "started X active sm code rc =
     (case sx_mkdirTemp X of
        Inl e \<Rightarrow> None
      | Inr dir \<Rightarrow>
          (let args = run_args X sm dir (snd (detectRunsc X rc)) active;
               r = sx_run X args in
           if snd (prepare_scratch X dir code) = None \<and> cr_err r = None \<and> TrimSpace (cr_stdout r) \<noteq> []
           then Some (dir, args, TrimSpace (cr_stdout r)) else None))"

lemma supervise_no_pid:
  "container_pid X cid = None \<Longrightarrow> \<exists>e. supervise X U hook cid s = ([DockerInspect cid], s, Inl e)"
  by (auto simp: container_pid_def supervise_def Let_def split: option.splits if_splits)

lemma supervise_pid:
  "container_pid X cid = Some pid \<Longrightarrow>
     0 < pid \<and> supervise X U (Some onPID) cid s =
       (case onPID pid s of
          (s', Some e) \<Rightarrow> ([DockerInspect cid, PIDHook pid], s', Inl (HookFailed e))
        | (s', None) \<Rightarrow> (DockerInspect cid # PIDHook pid # fst (wait_container X cid), s',
                        Inr (snd (wait_container X cid))))"
  by (auto simp: container_pid_def supervise_def Let_def case_prod_beta split: option.splits if_splits)

definition script_prep :: "string \<Rightarrow> string \<Rightarrow> effect list" where
  "script_prep dir code =
     [MkScratch dir, Chmod dir (7 * 64), WriteScript (dir @ ''/script.py'') code (6 * 64),
      Chmod (dir @ ''/script.py'') (4 * 64), Chmod dir (5 * 64)]"

lemma Execute_started:
  assumes "started X (active s) sm code rc = Some (dir, args, cid)"
    and "supervise X U hook cid s = (mid, s', res)"
  shows "Execute X U active sm code hook rc s =
     \<lparr> so_result = res, so_state = s', so_runsc = fst (detectRunsc X rc),
       so_trace = script_prep dir code @ DockerRun args # mid
                    @ [DockerRm (container_name X), RemoveScratch dir] \<rparr>"
    and "args = run_args X sm dir (snd (detectRunsc X rc)) (active s)"
proof -
  have d: "sx_mkdirTemp X = Inr dir" and a: "args = run_args X sm dir (snd (detectRunsc X rc)) (active s)"
    and p: "snd (prepare_scratch X dir code) = None" and e: "cr_err (sx_run X args) = None"
    and c: "TrimSpace (cr_stdout (sx_run X args)) = cid" "cid \<noteq> []"
    using assms(1) by (auto simp: started_def Let_def split: sum.splits if_splits)
  obtain prep where prep: "prepare_scratch X dir code = (prep, None)" using p by (metis prod.collapse)
  show "Execute X U active sm code hook rc s =
     \<lparr> so_result = res, so_state = s', so_runsc = fst (detectRunsc X rc),
       so_trace = script_prep dir code @ DockerRun args # mid
                    @ [DockerRm (container_name X), RemoveScratch dir] \<rparr>"
    using assms(2) c e
    by (simp add: Execute_def d prep case_prod_beta Let_def a script_prep_def prepare_scratch_ok [OF prep])
  show "args = run_args X sm dir (snd (detectRunsc X rc)) (active s)" by (rule a)
qed

text \<open>Without a container: an error, the caller's state as it was, at most one failed start.\<close>

lemma Execute_unstarted:
  assumes "started X (active s) sm code rc = None"
  shows "\<exists>e tr rc'. Execute X U active sm code hook rc s = fails s rc' tr e
     \<and> hook_effects tr = [] \<and> DockerRm (container_name X) \<notin> set tr
     \<and> (case sx_mkdirTemp X of
          Inl _ \<Rightarrow> tr = []
        | Inr dir \<Rightarrow> (\<exists>tr'. tr = MkScratch dir # tr' @ [RemoveScratch dir])
            \<and> (runs tr = [] \<or> (\<exists>args. runs tr = [args]
                 \<and> args = run_args X sm dir (snd (detectRunsc X rc)) (active s)
                 \<and> tr = script_prep dir code @ [DockerRun args, RemoveScratch dir])))"
proof (cases "sx_mkdirTemp X")
  case (Inl e)
  then show ?thesis by (auto simp: Execute_def fails_def)
next
  case (Inr dir)
  obtain prep err where prep: "prepare_scratch X dir code = (prep, err)" by (cases "prepare_scratch X dir code")
  have q: "hook_effects prep = []" "runs prep = []" using prepare_scratch_quiet [of X dir code] prep by simp_all
  have n: "DockerRm (container_name X) \<notin> set prep"
    using prep by (auto simp: prepare_scratch_def Let_def split: option.splits)
  show ?thesis
  proof (cases err)
    case (Some e)
    then have "Execute X U active sm code hook rc s = fails s rc (MkScratch dir # prep @ [RemoveScratch dir]) e"
      by (simp add: Execute_def Inr prep)
    moreover have "hook_effects (MkScratch dir # prep @ [RemoveScratch dir]) = []"
      "DockerRm (container_name X) \<notin> set (MkScratch dir # prep @ [RemoveScratch dir])"
      "runs (MkScratch dir # prep @ [RemoveScratch dir]) = []"
      using q n by simp_all
    ultimately show ?thesis unfolding Inr sum.case by blast
  next
    case None
    let ?args = "run_args X sm dir (snd (detectRunsc X rc)) (active s)"
    have p: "MkScratch dir # prep = script_prep dir code"
      using prepare_scratch_ok [of X dir code prep] prep None by (simp add: script_prep_def)
    let ?tr = "script_prep dir code @ [DockerRun ?args, RemoveScratch dir]"
    have "\<exists>e. Execute X U active sm code hook rc s = fails s (fst (detectRunsc X rc)) ?tr e"
      using assms None prep Inr p [symmetric]
      by (auto simp: started_def Execute_def case_prod_beta Let_def split: if_splits option.splits)
    moreover have "hook_effects ?tr = []" "DockerRm (container_name X) \<notin> set ?tr" "runs ?tr = [?args]"
      "\<exists>tr'. ?tr = MkScratch dir # tr' @ [RemoveScratch dir]"
      by (auto simp: script_prep_def)
    ultimately show ?thesis using Inr by fastforce
  qed
qed

lemma supervise_quiet:
  "supervise X U hook cid s = (mid, s', res) \<Longrightarrow>
     runs mid = [] \<and> (\<forall>n. DockerRm n \<notin> set mid) \<and> (\<forall>d. MkScratch d \<notin> set mid)"
  by (auto simp: supervise_def wait_container_def Let_def split: option.splits if_splits prod.splits)

subsection \<open>Properties\<close>


text \<open>
  C12: how a script is confined. Whatever container \<open>Execute\<close> starts with the gateway's manager, the
  script was written, made read-only and its directory read-only before; the container has the memory
  limit, the directory mounted read-only, and gVisor exactly when it was detected. Its network is
  \<open>none\<close> only while \<open>ebpf.IsActive\<close> says no; otherwise it is the bridge.
\<close>

theorem sandbox_confined:
  assumes "DockerRun args \<in> set (so_trace (Execute X U active (NewSandboxManager ''python:3.10-slim'') code hook rc s))"
  shows "\<exists>dir rest. so_trace (Execute X U active (NewSandboxManager ''python:3.10-slim'') code hook rc s)
         = script_prep dir code @ DockerRun args # rest
     \<and> runs rest = []
     \<and> ''--memory=512m'' \<in> set args \<and> (dir @ '':/app:ro'') \<in> set args
     \<and> (''--runtime=runsc'' \<in> set args \<longleftrightarrow> snd (detectRunsc X rc))
     \<and> (''--network=none'' \<in> set args \<longleftrightarrow> \<not> active s)
     \<and> (''--network=bridge'' \<in> set args \<longleftrightarrow> active s)"
proof -
  let ?sm = "NewSandboxManager ''python:3.10-slim''"
  let ?a = "\<lambda>dir. run_args X ?sm dir (snd (detectRunsc X rc)) (active s)"
  have name: "container_name X \<noteq> ''--memory=512m''" "container_name X \<noteq> ''--runtime=runsc''"
    "container_name X \<noteq> ''--network=none''" "container_name X \<noteq> ''--network=bridge''"
    by (simp_all add: container_name_def)
  have vol: "dir @ '':/app:ro'' \<noteq> ''--runtime=runsc''" "dir @ '':/app:ro'' \<noteq> ''--network=none''"
    "dir @ '':/app:ro'' \<noteq> ''--network=bridge''" for dir :: string
    using arg_cong [where f = last] by fastforce+
  have conf: "''--memory=512m'' \<in> set (?a dir) \<and> (dir @ '':/app:ro'') \<in> set (?a dir)
     \<and> (''--runtime=runsc'' \<in> set (?a dir) \<longleftrightarrow> snd (detectRunsc X rc))
     \<and> (''--network=none'' \<in> set (?a dir) \<longleftrightarrow> \<not> active s)
     \<and> (''--network=bridge'' \<in> set (?a dir) \<longleftrightarrow> active s)" for dir
    using name vol [of dir] vol [of dir, symmetric] name [symmetric]
    by (auto simp: run_args_def NewSandboxManager_def)
  show ?thesis
  proof (cases "started X (active s) ?sm code rc")
    case None
    from Execute_unstarted [where active = active and s = s and U = U and hook = hook, OF None] obtain e tr rc' where
      x: "Execute X U active ?sm code hook rc s = fails s rc' tr e"
      and c: "case sx_mkdirTemp X of
          Inl _ \<Rightarrow> tr = []
        | Inr dir \<Rightarrow> (\<exists>tr'. tr = MkScratch dir # tr' @ [RemoveScratch dir])
            \<and> (runs tr = [] \<or> (\<exists>args. runs tr = [args] \<and> args = ?a dir
                 \<and> tr = script_prep dir code @ [DockerRun args, RemoveScratch dir]))"
      by blast
    have "DockerRun args \<in> set tr" using assms by (simp add: x fails_def)
    moreover have "DockerRun b \<in> set xs \<Longrightarrow> b \<in> set (runs xs)" for b xs
      by (induction xs) auto
    ultimately have "args \<in> set (runs tr)" by blast
    with c obtain dir where "args = ?a dir" "tr = script_prep dir code @ [DockerRun args, RemoveScratch dir]"
      by (auto split: sum.splits)
    then show ?thesis using conf [of dir]
      by (intro exI [of _ dir] exI [of _ "[RemoveScratch dir]"]) (simp add: x fails_def)
  next
    case (Some t)
    obtain dir args' cid where t: "t = (dir, args', cid)" by (cases t)
    obtain mid s' res where m: "supervise X U hook cid s = (mid, s', res)" by (cases "supervise X U hook cid s")
    note e = Execute_started [where active = active, OF Some [unfolded t] m]
    have "DockerRun b \<in> set xs \<Longrightarrow> b \<in> set (runs xs)" for b xs
      by (induction xs) auto
    then have "args \<in> set (runs (so_trace (Execute X U active ?sm code hook rc s)))" using assms by blast
    then have "args = args'" using supervise_quiet [OF m] by (simp add: e(1) script_prep_def)
    then show ?thesis using conf [of dir] supervise_quiet [OF m]
      by (intro exI [of _ dir] exI [of _ "mid @ [DockerRm (container_name X), RemoveScratch dir]"])
         (simp add: e)
  qed
qed

text \<open>A container that starts, has pid 4242 and exits with status 3.\<close>

definition demo_sandbox :: sandbox_env where
  "demo_sandbox =
     \<lparr> sx_mkdirTemp = Inr ''/tmp/s'', sx_chmodWritable = None, sx_writeFile = None, sx_chmodScript = None,
       sx_chmodDir = None, sx_unixNano = 7,
       sx_info = \<lparr> cr_stdout = ''Runtimes: runc runsc'', cr_stderr = [], cr_err = None \<rparr>, sx_lookPath = False,
       sx_run = (\<lambda>a. \<lparr> cr_stdout = ''c0ffee'', cr_stderr = [], cr_err = None \<rparr>),
       sx_inspect = (\<lambda>c. \<lparr> cr_stdout = ''4242'', cr_stderr = [], cr_err = None \<rparr>),
       sx_wait = (\<lambda>c. \<lparr> cr_stdout = ''3'', cr_stderr = [], cr_err = None \<rparr>), sx_deadline = False,
       sx_logs = (\<lambda>c. \<lparr> cr_stdout = ''out'', cr_stderr = [], cr_err = None \<rparr>), sx_timeTaken = 5 \<rparr>"

lemma demo_sandbox_trims: "TrimSpace ''c0ffee'' = ''c0ffee''" "TrimSpace ''4242'' = ''4242''" "TrimSpace ''3'' = ''3''"
  by code_simp+

lemma demo_sandbox_facts:
  "started demo_sandbox active sm code runsc_start =
     Some (''/tmp/s'', run_args demo_sandbox sm ''/tmp/s'' True active, ''c0ffee'')"
  "container_pid demo_sandbox cid = Some 4242"
  "snd (wait_container demo_sandbox cid) =
     \<lparr> res_Stdout = ''out'', res_Stderr = [], res_ExitCode = 3, res_TimeTaken = 5 \<rparr>"
proof -
  have f: "snd (detectRunsc demo_sandbox runsc_start)" by code_simp
  show "started demo_sandbox active sm code runsc_start =
     Some (''/tmp/s'', run_args demo_sandbox sm ''/tmp/s'' True active, ''c0ffee'')"
    using f by (simp add: started_def Let_def demo_sandbox_def prepare_scratch_def demo_sandbox_trims)
  have "Atoi ''4242'' = Some 4242" by code_simp
  then show "container_pid demo_sandbox cid = Some 4242"
    by (simp add: container_pid_def demo_sandbox_def demo_sandbox_trims)
  have "Atoi ''3'' = Some 3" by code_simp
  then show "snd (wait_container demo_sandbox cid) =
     \<lparr> res_Stdout = ''out'', res_Stderr = [], res_ExitCode = 3, res_TimeTaken = 5 \<rparr>"
    by (simp add: wait_container_def demo_sandbox_def demo_sandbox_trims Let_def)
qed

theorem sandbox_confined_witness:
  "\<forall>U. \<exists>args. DockerRun args \<in> set (so_trace (Execute demo_sandbox U (\<lambda>s. s)
        (NewSandboxManager ''python:3.10-slim'') ''print(1)'' None runsc_start False))
     \<and> ''--network=none'' \<in> set args \<and> ''--runtime=runsc'' \<in> set args"
proof
  fix U
  let ?sm = "NewSandboxManager ''python:3.10-slim''"
  let ?a = "run_args demo_sandbox ?sm ''/tmp/s'' True False"
  let ?o = "Execute demo_sandbox U (\<lambda>s. s) ?sm ''print(1)'' None runsc_start False"
  obtain mid s' res where m: "supervise demo_sandbox U None ''c0ffee'' False = (mid, s', res)"
    by (cases "supervise demo_sandbox U None ''c0ffee'' False")
  have st: "started demo_sandbox ((\<lambda>s. s) False) ?sm ''print(1)'' runsc_start = Some (''/tmp/s'', ?a, ''c0ffee'')"
    by (simp add: demo_sandbox_facts)
  have i: "DockerRun ?a \<in> set (so_trace ?o)"
    by (simp add: Execute_started(1) [where active = "\<lambda>s. s", OF st m])
  have "snd (detectRunsc demo_sandbox runsc_start)" by code_simp
  with sandbox_confined [OF i] i show "\<exists>args. DockerRun args \<in> set (so_trace ?o)
     \<and> ''--network=none'' \<in> set args \<and> ''--runtime=runsc'' \<in> set args" by blast
qed

text \<open>The call of \<open>RegisterSandboxPID\<close> the gateway passes as hook; a nil map would panic.\<close>

definition register_hook ::
  "bpf_env \<Rightarrow> string option \<Rightarrow> int \<Rightarrow> 'w ebpf \<Rightarrow> 'w ebpf \<times> string option" where
  "register_hook E update pid c =
     (case RegisterSandboxPID E update pid c of
        (c', RegOK) \<Rightarrow> (c', None)
      | (c', RegError e) \<Rightarrow> (c', Some e)
      | (c', RegPanic) \<Rightarrow> (c', Some ''invalid memory address or nil pointer dereference''))"

text \<open>
  C25: when the kernel enforces, and when it does not. Take a started container and the gateway's hook.
  If the controller came up, the container is on the bridge and its pid is locked before \<open>docker wait\<close>
  is reached, or the run fails and the container is removed. If it failed before loading its maps, the
  container has no network. If it failed after loading them, \<open>IsActive\<close> still holds: the container is
  on the bridge, its pid is not locked, and no error is reported.
\<close>

theorem sandbox_enforcement:
  assumes "kc_initOnce c" and "ebpf_inv c"
    and "started X (IsActive c) sm code rc = Some (dir, args, cid)" and "container_pid X cid = Some pid"
  shows "let o1 = Execute X U IsActive sm code (Some (register_hook E update)) rc c
         in if kc_initErr c = None
            then args = run_args X sm dir (snd (detectRunsc X rc)) True
              \<and> (case update of
                   None \<Rightarrow> word_of_int pid \<in> locked_pids (so_state o1)
                     \<and> so_result o1 = Inr (snd (wait_container X cid))
                 | Some e \<Rightarrow> so_state o1 = c
                     \<and> (\<exists>t. so_result o1 = Inl (HookFailed t))
                     \<and> (\<forall>i. DockerWait i \<notin> set (so_trace o1)))
            else args = run_args X sm dir (snd (detectRunsc X rc)) (kc_lockedMap c \<noteq> None)
              \<and> so_state o1 = c \<and> so_result o1 = Inr (snd (wait_container X cid))"
proof -
  let ?hook = "register_hook E update"
  obtain mid c' res where m: "supervise X U (Some ?hook) cid c = (mid, c', res)"
    by (cases "supervise X U (Some ?hook) cid c")
  note o1 = Execute_started [where active = IsActive, OF assms(3) m]
  note sp = supervise_pid [OF assms(4), of U ?hook c]
  have i: "InitNativeController E c = (c, kc_initErr c)" using assms(1) by (simp add: InitNativeController_def)
  have up: "kc_initErr c = None \<Longrightarrow> kc_lockedMap c \<noteq> None" using assms(1,2) by (simp add: ebpf_inv_def)
  show ?thesis
  proof (cases "kc_initErr c")
    case (Some e)
    then have "?hook pid c = (c, None)" by (simp add: register_hook_def RegisterSandboxPID_def i)
    then have "c' = c" "res = Inr (snd (wait_container X cid))" using sp m by simp_all
    with Some show ?thesis
      unfolding Let_def using o1 by (simp add: IsActive_def)
  next
    case None
    then obtain l where l: "kc_lockedMap c = Some l" using up by blast
    show ?thesis
    proof (cases update)
      case None': None
      have "?hook pid c = (c\<lparr>kc_lockedMap := Some (gm_put l (word_of_int pid) 1)\<rparr>, None)"
        using None None' l by (simp add: register_hook_def RegisterSandboxPID_def i)
      then have "c' = c\<lparr>kc_lockedMap := Some (gm_put l (word_of_int pid) 1)\<rparr>"
        "res = Inr (snd (wait_container X cid))" using sp m by simp_all
      moreover have "word_of_int pid \<in> dom (gm_get (gm_put l (word_of_int pid) 1))"
        by (simp add: gm_get_def gm_put_def update_conv' dom_def)
      ultimately show ?thesis
        unfolding Let_def using o1 None None' l by (simp add: IsActive_def locked_pids_def)
    next
      case (Some e)
      obtain t where "?hook pid c = (c, Some t)"
        using None Some l by (simp add: register_hook_def RegisterSandboxPID_def i)
      then have "c' = c" "res = Inl (HookFailed t)" "mid = [DockerInspect cid, PIDHook pid]" using sp m by simp_all
      then show ?thesis
        unfolding Let_def using o1 None Some l
        by (simp add: IsActive_def script_prep_def)
    qed
  qed
qed

text \<open>The tracepoint could not be attached: bridge network, nothing locked, success.\<close>

theorem sandbox_enforcement_witness:
  "\<forall>U. let c = fst (InitNativeController demo_bpf (ebpf_start :: unit ebpf));
       o1 = Execute demo_sandbox U IsActive (NewSandboxManager []) ''x'' (Some (register_hook demo_bpf None)) runsc_start c
   in IsActive c \<and> locked_pids (so_state o1) = {}
      \<and> so_result o1 = Inr \<lparr> res_Stdout = ''out'', res_Stderr = [], res_ExitCode = 3, res_TimeTaken = 5 \<rparr>"
proof
  fix U
  let ?c = "fst (InitNativeController demo_bpf (ebpf_start :: unit ebpf))"
  have o: "kc_initOnce ?c" by (simp add: demo_bpf_init)
  have inv: "ebpf_inv ?c" by (intro ebpf_reach_inv ebpf_reach.native ebpf_reach.start)
  have a: "IsActive ?c" "kc_initErr ?c \<noteq> None" "locked_pids ?c = {}"
    by (simp_all add: demo_bpf_init IsActive_def locked_pids_def gm_get_def dom_def)
  have st: "started demo_sandbox (IsActive ?c) (NewSandboxManager []) ''x'' runsc_start
     = Some (''/tmp/s'', run_args demo_sandbox (NewSandboxManager []) ''/tmp/s'' True (IsActive ?c), ''c0ffee'')"
    by (simp add: demo_sandbox_facts)
  have pid: "container_pid demo_sandbox ''c0ffee'' = Some 4242" by (simp add: demo_sandbox_facts)
  show "let c = ?c;
       o1 = Execute demo_sandbox U IsActive (NewSandboxManager []) ''x'' (Some (register_hook demo_bpf None)) runsc_start c
   in IsActive c \<and> locked_pids (so_state o1) = {}
      \<and> so_result o1 = Inr \<lparr> res_Stdout = ''out'', res_Stderr = [], res_ExitCode = 3, res_TimeTaken = 5 \<rparr>"
    using sandbox_enforcement [where E = demo_bpf and update = None and U = U, OF o inv st pid] a
    by (simp add: Let_def demo_sandbox_facts)
qed

end
