(* ===== verification/Hex.thy ===== *)
theory Hex
  imports Utf8
begin

text \<open>\<open>encoding/hex\<close> as the validator, the gateway and the integrity monitor use it.\<close>

definition hex_val :: "char \<Rightarrow> nat option" where
  "hex_val c =
     (let n = byte_val c in
      if 48 \<le> n \<and> n \<le> 57 then Some (n - 48)
      else if 97 \<le> n \<and> n \<le> 102 then Some (n - 87)
      else if 65 \<le> n \<and> n \<le> 70 then Some (n - 55)
      else None)"

datatype hex_error = InvalidByte char | OddLength

text \<open>\<open>hex.DecodeString\<close>: pairs from the left; a lone last digit is checked before the length.\<close>

fun DecodeString :: "string \<Rightarrow> hex_error + bytes" where
  "DecodeString [] = Inr []"
| "DecodeString [c] = (case hex_val c of None \<Rightarrow> Inl (InvalidByte c) | Some _ \<Rightarrow> Inl OddLength)"
| "DecodeString (p # q # rest) =
     (case hex_val p of
        None \<Rightarrow> Inl (InvalidByte p)
      | Some a \<Rightarrow>
     (case hex_val q of
        None \<Rightarrow> Inl (InvalidByte q)
      | Some b \<Rightarrow>
     (case DecodeString rest of
        Inl e \<Rightarrow> Inl e
      | Inr bs \<Rightarrow> Inr (char_of (16 * a + b) # bs))))"

definition EncodeToString :: "bytes \<Rightarrow> string" where
  "EncodeToString bs =
     concat (map (\<lambda>c. [hex_digit (byte_val c div 16), hex_digit (byte_val c mod 16)]) bs)"

lemma byte_val_char_of: "n < 256 \<Longrightarrow> byte_val (char_of n) = n"
  by simp

lemma hex_val_digit: "d < 16 \<Longrightarrow> hex_val (hex_digit d) = Some d"
  by (auto simp: hex_val_def hex_digit_def Let_def)

lemma hex_roundtrip: "DecodeString (EncodeToString bs) = Inr bs"
proof (induction bs)
  case Nil
  then show ?case by (simp add: EncodeToString_def)
next
  case (Cons c bs)
  have "byte_val c div 16 < 16" by (simp add: less_mult_imp_div_less)
  then have h: "hex_val (hex_digit (byte_val c div 16)) = Some (byte_val c div 16)"
    by (rule hex_val_digit)
  have l: "hex_val (hex_digit (byte_val c mod 16)) = Some (byte_val c mod 16)"
    by (simp add: hex_val_digit)
  have "16 * (byte_val c div 16) + byte_val c mod 16 = byte_val c" by simp
  with Cons.IH h l show ?case by (simp add: EncodeToString_def)
qed

end
