(* ===== verification/Validator.thy ===== *)
theory Validator
  imports Hex
begin

text \<open>
  \<open>validator/validator.go\<close>: the sliding-window nonce cache and the provenance check. The DER
  reading of an ECDSA signature is modelled as \<open>encoding/asn1\<close> performs it;
  SHA-256, ECDSA and the parsing of the public key are parameters.
\<close>

subsection \<open>The nonce cache\<close>

record NonceCache =
  nc_nonces :: "(string, time) gomap"
  nc_ttl :: time

definition NewNonceCache :: "time \<Rightarrow> NonceCache" where
  "NewNonceCache ttl = \<lparr> nc_nonces = [], nc_ttl = ttl \<rparr>"

definition nonce_Register :: "time \<Rightarrow> string \<Rightarrow> NonceCache \<Rightarrow> bool \<times> NonceCache" where
  "nonce_Register now nonce nc =
     (if nonce = '''' then (False, nc)
      else if (case gm_get (nc_nonces nc) nonce of None \<Rightarrow> False | Some expiry \<Rightarrow> now < expiry)
      then (False, nc)
      else (True, nc\<lparr>nc_nonces := gm_put (nc_nonces nc) nonce (now + nc_ttl nc)\<rparr>))"

text \<open>One tick of \<open>startCleanup\<close>: its loop over the entries \<open>range\<close> visits.\<close>

fun cleanup_loop :: "time \<Rightarrow> (string \<times> time) list \<Rightarrow> NonceCache \<Rightarrow> NonceCache" where
  "cleanup_loop now [] nc = nc"
| "cleanup_loop now ((k, expiry) # rest) nc =
     cleanup_loop now rest
       (if now > expiry then nc\<lparr>nc_nonces := gm_del (nc_nonces nc) k\<rparr> else nc)"

definition cleanup_tick :: "time \<Rightarrow> NonceCache \<Rightarrow> NonceCache" where
  "cleanup_tick now nc = cleanup_loop now (nc_nonces nc) nc"

subsection \<open>DER\<close>

datatype der_error =
    SequenceTruncated
  | HighTag
  | TruncatedTagOrLength
  | IndefiniteLength
  | LengthTooLarge
  | SuperfluousZeros
  | NonMinimalLength
  | TagsDontMatch
  | DataTruncated
  | EmptyInteger
  | NotMinimallyEncoded

text \<open>The long form: \<open>n\<close> length bytes.\<close>

fun der_long_length :: "nat \<Rightarrow> nat \<Rightarrow> bytes \<Rightarrow> der_error + nat \<times> bytes" where
  "der_long_length 0 acc bs = Inr (acc, bs)"
| "der_long_length (Suc n) acc [] = Inl TruncatedTagOrLength"
| "der_long_length (Suc n) acc (b # bs) =
     (if acc \<ge> 2 ^ 23 then Inl LengthTooLarge
      else if acc * 256 + byte_val b = 0 then Inl SuperfluousZeros
      else der_long_length n (acc * 256 + byte_val b) bs)"

definition der_length :: "bytes \<Rightarrow> der_error + nat \<times> bytes" where
  "der_length bs =
     (case bs of
        [] \<Rightarrow> Inl TruncatedTagOrLength
      | b # rest \<Rightarrow>
          if byte_val b < 128 then Inr (byte_val b, rest)
          else
            (let numBytes = byte_val b - 128 in
             if numBytes = 0 then Inl IndefiniteLength
             else (case der_long_length numBytes 0 rest of
                     Inl e \<Rightarrow> Inl e
                   | Inr (n, rest') \<Rightarrow>
                       if n < 128 then Inl NonMinimalLength else Inr (n, rest'))))"

text \<open>
  One element with the expected identifier byte (0x30 for a SEQUENCE, 0x02 for an INTEGER): its
  content and what follows it.
\<close>

definition der_element :: "nat \<Rightarrow> bytes \<Rightarrow> der_error + bytes \<times> bytes" where
  "der_element tag bs =
     (case bs of
        [] \<Rightarrow> Inl SequenceTruncated
      | t # rest \<Rightarrow>
          if byte_val t mod 32 = 31 then Inl HighTag
          else (case der_length rest of
                  Inl e \<Rightarrow> Inl e
                | Inr (n, body) \<Rightarrow>
                    if byte_val t \<noteq> tag then Inl TagsDontMatch
                    else if length body < n then Inl DataTruncated
                    else Inr (take n body, drop n body)))"

definition be_val :: "bytes \<Rightarrow> nat" where
  "be_val bs = foldl (\<lambda>a c. a * 256 + byte_val c) 0 bs"

definition der_int :: "bytes \<Rightarrow> der_error + int" where
  "der_int bs =
     (case bs of
        [] \<Rightarrow> Inl EmptyInteger
      | [b] \<Rightarrow> Inr (if byte_val b < 128 then int (byte_val b) else int (byte_val b) - 256)
      | b # c # rest \<Rightarrow>
          if (byte_val b = 0 \<and> byte_val c < 128) \<or> (byte_val b = 255 \<and> byte_val c \<ge> 128)
          then Inl NotMinimallyEncoded
          else Inr (if byte_val b < 128 then int (be_val bs)
                    else int (be_val bs) - 256 ^ length bs))"

record ECDSASignature =
  es_R :: "int option"
  es_S :: "int option"

text \<open>
  \<open>asn1.Unmarshal\<close> into \<open>ECDSASignature\<close>: the signature and the bytes after the SEQUENCE. Bytes after
  the two INTEGERs inside it are ignored, as the library documents.
\<close>

definition asn1_Unmarshal :: "bytes \<Rightarrow> der_error + ECDSASignature \<times> bytes" where
  "asn1_Unmarshal bs =
     (case der_element 0x30 bs of
        Inl e \<Rightarrow> Inl e
      | Inr (inner, rest) \<Rightarrow>
     (case der_element 0x02 inner of
        Inl e \<Rightarrow> Inl e
      | Inr (rb, inner1) \<Rightarrow>
     (case der_int rb of
        Inl e \<Rightarrow> Inl e
      | Inr r \<Rightarrow>
     (case der_element 0x02 inner1 of
        Inl e \<Rightarrow> Inl e
      | Inr (sb, inner2) \<Rightarrow>
     (case der_int sb of
        Inl e \<Rightarrow> Inl e
      | Inr s \<Rightarrow> Inr (\<lparr> es_R = Some r, es_S = Some s \<rparr>, rest))))))"

subsection \<open>Verification\<close>

datatype verify_failure =
    NonceRejected
  | BadHex hex_error
  | BadASN1 der_error
  | ExtraBytes
  | NilCoordinate
  | BadSignature

record 'pk ProvenanceValidator =
  pv_pubKey :: 'pk
  pv_nonceCache :: NonceCache

text \<open>
  \<open>NewProvenanceValidator\<close>: the file's contents, the PEM decoder, the PKIX parser; a key of another
  kind than ECDSA is \<open>None\<close>.
\<close>

datatype validator_error = KeyRead string | KeyPEM | KeyPKIX string | KeyNotECDSA

definition NewProvenanceValidator ::
  "(string + bytes) \<Rightarrow> (bytes \<Rightarrow> bytes option) \<Rightarrow> (bytes \<Rightarrow> string + 'pk option) \<Rightarrow> time
     \<Rightarrow> validator_error + 'pk ProvenanceValidator" where
  "NewProvenanceValidator file pemDecode parsePKIX nonceTTL =
     (case file of
        Inl e \<Rightarrow> Inl (KeyRead e)
      | Inr pubKeyBytes \<Rightarrow>
     (case pemDecode pubKeyBytes of
        None \<Rightarrow> Inl KeyPEM
      | Some block \<Rightarrow>
     (case parsePKIX block of
        Inl e \<Rightarrow> Inl (KeyPKIX e)
      | Inr None \<Rightarrow> Inl KeyNotECDSA
      | Inr (Some ecdsaPub) \<Rightarrow>
          Inr \<lparr> pv_pubKey = ecdsaPub, pv_nonceCache = NewNonceCache nonceTTL \<rparr>)))"

text \<open>
  Steps 2 to 5 of \<open>Verify\<close>, which depend on the key alone; \<open>None\<close> is the nil error. Then \<open>Verify\<close>.
\<close>

definition check_signature ::
  "(bytes \<Rightarrow> bytes) \<Rightarrow> ('pk \<Rightarrow> bytes \<Rightarrow> int \<Rightarrow> int \<Rightarrow> bool) \<Rightarrow> 'pk \<Rightarrow> bytes \<Rightarrow> string
     \<Rightarrow> verify_failure option" where
  "check_signature sha256 ecdsa pubKey rawManifest hexSignature =
     (case DecodeString hexSignature of
        Inl e \<Rightarrow> Some (BadHex e)
      | Inr sigBytes \<Rightarrow>
     (case asn1_Unmarshal sigBytes of
        Inl e \<Rightarrow> Some (BadASN1 e)
      | Inr (sig, rest) \<Rightarrow>
          if length rest > 0 then Some ExtraBytes
          else (case (es_R sig, es_S sig) of
                  (Some r, Some s) \<Rightarrow>
                    if \<not> ecdsa pubKey (sha256 rawManifest) r s then Some BadSignature else None
                | _ \<Rightarrow> Some NilCoordinate)))"

definition Verify ::
  "(bytes \<Rightarrow> bytes) \<Rightarrow> ('pk \<Rightarrow> bytes \<Rightarrow> int \<Rightarrow> int \<Rightarrow> bool) \<Rightarrow> time \<Rightarrow> bytes \<Rightarrow> string \<Rightarrow> string
     \<Rightarrow> 'pk ProvenanceValidator \<Rightarrow> verify_failure option \<times> 'pk ProvenanceValidator" where
  "Verify sha256 ecdsa now rawManifest hexSignature nonce v =
     (let (fresh, nc) = nonce_Register now nonce (pv_nonceCache v);
          v' = v\<lparr>pv_nonceCache := nc\<rparr>
      in if \<not> fresh then (Some NonceRejected, v')
         else (check_signature sha256 ecdsa (pv_pubKey v) rawManifest hexSignature, v'))"

subsection \<open>Lemmas: DER\<close>

lemma be_val_append: "be_val (xs @ [c]) = be_val xs * 256 + byte_val c"
  by (simp add: be_val_def)

text \<open>The reference encoder: what \<open>ecdsa.SignASN1\<close> emits for non-negative coordinates.\<close>

fun der_nat :: "nat \<Rightarrow> bytes" where
  "der_nat n = (if n < 128 then [char_of n] else der_nat (n div 256) @ [char_of (n mod 256)])"

declare der_nat.simps [simp del]

definition der_len :: "nat \<Rightarrow> bytes" where
  "der_len n = (if n < 128 then [char_of n] else [char_of (129 :: nat), char_of n])"

definition der_tlv :: "nat \<Rightarrow> bytes \<Rightarrow> bytes" where
  "der_tlv t body = char_of t # der_len (length body) @ body"

definition der_signature :: "nat \<Rightarrow> nat \<Rightarrow> bytes \<Rightarrow> bytes" where
  "der_signature r s extra = der_tlv 0x30 (der_tlv 2 (der_nat r) @ der_tlv 2 (der_nat s) @ extra)"

lemma be_val_der_nat: "be_val (der_nat n) = n"
proof (induction n rule: der_nat.induct)
  case (1 n)
  show ?case
    by (cases "n < 128"; subst der_nat.simps) (simp_all add: be_val_append 1, simp_all add: be_val_def)
qed

text \<open>The encoding starts with a byte below 128 and is minimal.\<close>

lemma der_nat_head:
  "\<exists>b bs. der_nat n = b # bs \<and> byte_val b < 128
     \<and> (\<forall>c cs. bs = c # cs \<longrightarrow> byte_val b = 0 \<longrightarrow> 128 \<le> byte_val c)"
proof (induction n rule: der_nat.induct)
  case (1 n)
  show ?case
  proof (cases "n < 128")
    case True
    then show ?thesis by (subst der_nat.simps) simp
  next
    case False
    with 1 obtain b bs where ih: "der_nat (n div 256) = b # bs" "byte_val b < 128"
      "\<forall>c cs. bs = c # cs \<longrightarrow> byte_val b = 0 \<longrightarrow> 128 \<le> byte_val c"
      by blast
    have n: "der_nat n = b # bs @ [char_of (n mod 256)]"
      using False ih(1) by (subst der_nat.simps) simp
    show ?thesis
    proof (cases bs)
      case Nil
      have "byte_val b = 0 \<Longrightarrow> n div 256 = 0"
        using be_val_der_nat [of "n div 256"] ih(1) Nil by (simp add: be_val_def)
      with False have "byte_val b = 0 \<Longrightarrow> 128 \<le> n mod 256" by (simp add: div_eq_0_iff)
      with n ih(2) Nil show ?thesis by simp
    next
      case (Cons c cs)
      with n ih show ?thesis by simp
    qed
  qed
qed

lemma der_int_der_nat: "der_int (der_nat n) = Inr (int n)"
proof -
  obtain b bs where d: "der_nat n = b # bs" and b: "byte_val b < 128"
    and m: "\<forall>c cs. bs = c # cs \<longrightarrow> byte_val b = 0 \<longrightarrow> 128 \<le> byte_val c"
    using der_nat_head by blast
  have v: "be_val (b # bs) = n" using be_val_der_nat [of n] d by simp
  show ?thesis
  proof (cases bs)
    case Nil
    with v have "byte_val b = n" by (simp add: be_val_def)
    with b d Nil show ?thesis by (simp add: der_int_def)
  next
    case (Cons c cs)
    with m have "\<not> (byte_val b = 0 \<and> byte_val c < 128)" by auto
    with Cons b d v show ?thesis by (simp add: der_int_def)
  qed
qed

lemma der_length_der_len: "n < 256 \<Longrightarrow> der_length (der_len n @ rest) = Inr (n, rest)"
proof (cases "n < 128")
  case True
  then show ?thesis by (simp add: der_length_def der_len_def)
next
  case False
  assume n: "n < 256"
  have "der_long_length (Suc 0) 0 (char_of n # rest) = Inr (n, rest)"
    using False n by simp
  with False show ?thesis by (simp add: der_length_def der_len_def Let_def)
qed

lemma der_element_tlv:
  assumes "length body < 256" and "t < 256" and "t mod 32 \<noteq> 31"
  shows "der_element t (der_tlv t body @ rest) = Inr (body, rest)"
  using assms by (simp add: der_element_def der_tlv_def der_length_der_len)

lemma der_tlv_length: "length body < length (der_tlv t body)"
  by (simp add: der_tlv_def)

lemma asn1_der_signature:
  assumes "length (der_tlv 2 (der_nat r) @ der_tlv 2 (der_nat s) @ extra) < 256"
  shows "asn1_Unmarshal (der_signature r s extra @ rest)
     = Inr (\<lparr> es_R = Some (int r), es_S = Some (int s) \<rparr>, rest)"
proof -
  have r: "length (der_nat r) < 256" and s: "length (der_nat s) < 256"
    using assms der_tlv_length [of "der_nat r" 2] der_tlv_length [of "der_nat s" 2] by simp_all
  have "der_element 0x30 (der_signature r s extra @ rest)
      = Inr (der_tlv 2 (der_nat r) @ der_tlv 2 (der_nat s) @ extra, rest)"
    unfolding der_signature_def by (rule der_element_tlv [OF assms]) simp_all
  moreover have "der_element 2 (der_tlv 2 (der_nat r) @ x) = Inr (der_nat r, x)" for x
    by (rule der_element_tlv [OF r]) simp_all
  moreover have "der_element 2 (der_tlv 2 (der_nat s) @ x) = Inr (der_nat s, x)" for x
    by (rule der_element_tlv [OF s]) simp_all
  ultimately show ?thesis by (simp add: asn1_Unmarshal_def der_int_der_nat)
qed

lemma asn1_coordinates:
  "asn1_Unmarshal bs = Inr (sig, rest) \<Longrightarrow> \<exists>r s. sig = \<lparr> es_R = Some r, es_S = Some s \<rparr>"
  by (auto simp: asn1_Unmarshal_def split: sum.splits prod.splits)

subsection \<open>Lemmas: the nonce cache\<close>

definition nonce_live :: "time \<Rightarrow> string \<Rightarrow> NonceCache \<Rightarrow> bool" where
  "nonce_live t nonce nc \<longleftrightarrow>
     (case gm_get (nc_nonces nc) nonce of None \<Rightarrow> False | Some expiry \<Rightarrow> t < expiry)"

definition nonce_wf :: "NonceCache \<Rightarrow> bool" where
  "nonce_wf nc \<longleftrightarrow> gm_wf (nc_nonces nc)"

lemma Register_fresh_iff:
  "fst (nonce_Register now nonce nc) \<longleftrightarrow> nonce \<noteq> [] \<and> \<not> nonce_live now nonce nc"
  by (auto simp: nonce_Register_def nonce_live_def split: option.splits)

lemma Register_rejected: "\<not> fst (nonce_Register now nonce nc) \<Longrightarrow> snd (nonce_Register now nonce nc) = nc"
  by (auto simp: nonce_Register_def split: option.splits if_splits)

lemma Register_get:
  assumes "nonce_wf nc"
  shows "gm_get (nc_nonces (snd (nonce_Register now nonce nc))) n =
    (if fst (nonce_Register now nonce nc) \<and> n = nonce then Some (now + nc_ttl nc)
     else gm_get (nc_nonces nc) n)"
  using assms by (auto simp: nonce_Register_def nonce_wf_def gomap_simps split: option.splits)

lemma Register_wf: "nonce_wf nc \<Longrightarrow> nonce_wf (snd (nonce_Register now nonce nc))"
  by (auto simp: nonce_Register_def nonce_wf_def gomap_simps split: option.splits)

lemma Register_ttl [simp]: "nc_ttl (snd (nonce_Register now nonce nc)) = nc_ttl nc"
  by (auto simp: nonce_Register_def split: option.splits)

text \<open>Cleaning up deletes the keys of the expired entries.\<close>

lemma cleanup_loop_fold:
  "cleanup_loop now es nc = nc\<lparr>nc_nonces :=
     fold (\<lambda>k m. gm_del m k) (map fst (filter (\<lambda>(k, expiry). now > expiry) es)) (nc_nonces nc)\<rparr>"
  by (induction now es nc rule: cleanup_loop.induct) simp_all

lemma cleanup_get:
  assumes "nonce_wf nc"
  shows "gm_get (nc_nonces (cleanup_tick now nc)) n =
    (case gm_get (nc_nonces nc) n of
       None \<Rightarrow> None | Some expiry \<Rightarrow> if now > expiry then None else Some expiry)"
proof -
  let ?ks = "map fst (filter (\<lambda>(k, expiry). now > expiry) (nc_nonces nc))"
  have wf: "gm_wf (nc_nonces nc)" using assms by (simp add: nonce_wf_def)
  have "n \<in> set ?ks \<longleftrightarrow> (\<exists>expiry. gm_get (nc_nonces nc) n = Some expiry \<and> now > expiry)"
    by (force simp: gm_get_in_set [OF wf])
  then show ?thesis
    by (auto simp: cleanup_tick_def cleanup_loop_fold gomap.get_fold_del [OF wf] split: option.splits)
qed

lemma cleanup_wf: "nonce_wf nc \<Longrightarrow> nonce_wf (cleanup_tick now nc)"
  by (simp add: nonce_wf_def cleanup_tick_def cleanup_loop_fold gomap.wf_fold_del)

lemma cleanup_ttl [simp]: "nc_ttl (cleanup_tick now nc) = nc_ttl nc"
  by (simp add: cleanup_tick_def cleanup_loop_fold)

subsection \<open>Histories of a validator\<close>

text \<open>What happens to a validator: a verification at some time, or a tick of the clean-up.\<close>

datatype validator_event = Verified time bytes string string | Cleaned time

fun event_time :: "validator_event \<Rightarrow> time" where
  "event_time (Verified t m s n) = t"
| "event_time (Cleaned t) = t"

fun validator_step ::
  "(bytes \<Rightarrow> bytes) \<Rightarrow> ('pk \<Rightarrow> bytes \<Rightarrow> int \<Rightarrow> int \<Rightarrow> bool) \<Rightarrow> validator_event
     \<Rightarrow> 'pk ProvenanceValidator \<Rightarrow> 'pk ProvenanceValidator" where
  "validator_step h ecdsa (Verified t m s n) v = snd (Verify h ecdsa t m s n v)"
| "validator_step h ecdsa (Cleaned t) v = v\<lparr>pv_nonceCache := cleanup_tick t (pv_nonceCache v)\<rparr>"

lemma Verify_cache:
  "pv_nonceCache (snd (Verify h ecdsa t m s n v)) = snd (nonce_Register t n (pv_nonceCache v))"
  by (simp add: Verify_def Let_def split: prod.split)

lemma Verify_pubKey [simp]: "pv_pubKey (snd (Verify h ecdsa t m s n v)) = pv_pubKey v"
  by (simp add: Verify_def Let_def split: prod.split)

lemma Verify_rejected_iff:
  "fst (Verify h ecdsa t m s n v) = Some NonceRejected \<longleftrightarrow> \<not> fst (nonce_Register t n (pv_nonceCache v))"
  by (auto simp: Verify_def Let_def check_signature_def split: prod.split sum.split option.split)

lemma Verify_fresh:
  "fst (nonce_Register t n (pv_nonceCache v)) \<Longrightarrow>
     fst (Verify h ecdsa t m s n v) = check_signature h ecdsa (pv_pubKey v) m s"
  by (cases "nonce_Register t n (pv_nonceCache v)") (simp add: Verify_def)

text \<open>The frame of a step: the key, the TTL and the cache's well-formedness.\<close>

lemma step_frame:
  "nonce_wf (pv_nonceCache v) \<Longrightarrow>
     pv_pubKey (validator_step h ecdsa e v) = pv_pubKey v
     \<and> nc_ttl (pv_nonceCache (validator_step h ecdsa e v)) = nc_ttl (pv_nonceCache v)
     \<and> nonce_wf (pv_nonceCache (validator_step h ecdsa e v))"
  by (cases e) (simp_all add: Verify_cache Register_wf cleanup_wf)

lemma fold_frame:
  "nonce_wf (pv_nonceCache v) \<Longrightarrow>
     pv_pubKey (fold (validator_step h ecdsa) es v) = pv_pubKey v
     \<and> nc_ttl (pv_nonceCache (fold (validator_step h ecdsa) es v)) = nc_ttl (pv_nonceCache v)
     \<and> nonce_wf (pv_nonceCache (fold (validator_step h ecdsa) es v))"
  by (induction es arbitrary: v) (simp_all add: step_frame)

text \<open>A nonce stays registered as long as every event happens before its expiry.\<close>

lemma registered_stays:
  assumes "nonce_wf (pv_nonceCache v)"
    and "gm_get (nc_nonces (pv_nonceCache v)) n = Some expiry"
    and "\<forall>e \<in> set es. event_time e < expiry"
  shows "gm_get (nc_nonces (pv_nonceCache (fold (validator_step h ecdsa) es v))) n = Some expiry"
  using assms
proof (induction es arbitrary: v)
  case Nil
  then show ?case by simp
next
  case (Cons e es)
  have "gm_get (nc_nonces (pv_nonceCache (validator_step h ecdsa e v))) n = Some expiry"
  proof (cases e)
    case (Verified t m s n')
    with Cons.prems have "n' = n \<Longrightarrow> \<not> fst (nonce_Register t n' (pv_nonceCache v))"
      by (simp add: Register_fresh_iff nonce_live_def)
    with Verified Cons.prems show ?thesis by (auto simp: Verify_cache Register_get)
  next
    case (Cleaned t)
    with Cons.prems show ?thesis by (simp add: cleanup_get)
  qed
  with Cons.IH [of "validator_step h ecdsa e v"] Cons.prems step_frame show ?case by force
qed

text \<open>A nonce nobody submits keeps its entry or loses it.\<close>

lemma unsubmitted_shrinks:
  assumes "nonce_wf (pv_nonceCache v)" and "\<forall>t m s. Verified t m s n \<notin> set es"
  shows "gm_get (nc_nonces (pv_nonceCache (fold (validator_step h ecdsa) es v))) n
     \<in> {None, gm_get (nc_nonces (pv_nonceCache v)) n}"
  using assms
proof (induction es arbitrary: v)
  case Nil
  then show ?case by simp
next
  case (Cons e es)
  have "gm_get (nc_nonces (pv_nonceCache (validator_step h ecdsa e v))) n
      \<in> {None, gm_get (nc_nonces (pv_nonceCache v)) n}"
    using Cons.prems
    by (cases e) (auto simp: Verify_cache Register_get cleanup_get split: option.splits)
  moreover have "gm_get (nc_nonces (pv_nonceCache (fold (validator_step h ecdsa) (e # es) v))) n
      \<in> {None, gm_get (nc_nonces (pv_nonceCache (validator_step h ecdsa e v))) n}"
    using Cons.IH [of "validator_step h ecdsa e v"] Cons.prems step_frame by fastforce
  ultimately show ?case by auto
qed

lemma NewProvenanceValidator_wf:
  "NewProvenanceValidator file pemDecode parsePKIX ttl = Inr v \<Longrightarrow>
     nonce_wf (pv_nonceCache v) \<and> nc_ttl (pv_nonceCache v) = ttl"
  by (auto simp: NewProvenanceValidator_def NewNonceCache_def nonce_wf_def gomap_simps
      split: sum.splits option.splits)

lemma history_frame:
  assumes "NewProvenanceValidator file pemDecode parsePKIX ttl = Inr v0"
  shows "nonce_wf (pv_nonceCache (fold (validator_step h ecdsa) es v0))"
    and "nc_ttl (pv_nonceCache (fold (validator_step h ecdsa) es v0)) = ttl"
  using NewProvenanceValidator_wf [OF assms] fold_frame [of v0 h ecdsa es] by simp_all

lemma Verify_registers:
  assumes "nonce_wf (pv_nonceCache v)" and "fst (Verify h ecdsa t m s n v) \<noteq> Some NonceRejected"
  shows "nonce_wf (pv_nonceCache (snd (Verify h ecdsa t m s n v)))"
    and "gm_get (nc_nonces (pv_nonceCache (snd (Verify h ecdsa t m s n v)))) n
       = Some (t + nc_ttl (pv_nonceCache v))"
  using assms by (simp_all add: Verify_rejected_iff Verify_cache Register_get Register_wf)

lemma check_signature_None_iff:
  "check_signature h ecdsa pk m s = None \<longleftrightarrow>
     (\<exists>bs x y. DecodeString s = Inr bs \<and> asn1_Unmarshal bs = Inr (\<lparr> es_R = Some x, es_S = Some y \<rparr>, [])
        \<and> ecdsa pk (h m) x y)"
  by (auto simp: check_signature_def dest: asn1_coordinates split: sum.splits option.splits prod.splits)

lemma no_nil_coordinate: "check_signature h ecdsa pk m s \<noteq> Some NilCoordinate"
  by (auto simp: check_signature_def dest!: asn1_coordinates split: sum.splits option.splits prod.splits)

subsection \<open>Properties\<close>

text \<open>
  C4: replay protection inside the window. Once a validator, after any history, has let a nonce past
  the cache at time \<open>t0\<close>, whether or not the signature then checked out, every later verification
  with that nonce before \<open>t0\<close> plus the TTL is refused as a replay, whatever manifest and signature
  come with it and whatever other verifications and clean-ups happen in between.
\<close>

theorem replay_rejected_within_ttl:
  assumes "NewProvenanceValidator file pemDecode parsePKIX ttl = Inr v0"
    and "v = fold (validator_step h ecdsa) history v0"
    and "fst (Verify h ecdsa t0 m s n v) \<noteq> Some NonceRejected"
    and "\<forall>e \<in> set between. event_time e < t0 + ttl" and "t < t0 + ttl"
  shows "fst (Verify h ecdsa t m' s' n (fold (validator_step h ecdsa) between
           (snd (Verify h ecdsa t0 m s n v)))) = Some NonceRejected"
proof -
  have wf: "nonce_wf (pv_nonceCache v)" and ttl: "nc_ttl (pv_nonceCache v) = ttl"
    unfolding assms(2) using history_frame [OF assms(1)] by blast+
  note reg = Verify_registers [OF wf assms(3), unfolded ttl]
  let ?v = "fold (validator_step h ecdsa) between (snd (Verify h ecdsa t0 m s n v))"
  have "gm_get (nc_nonces (pv_nonceCache ?v)) n = Some (t0 + ttl)"
    using reg assms(4) by (rule registered_stays)
  then show ?thesis
    using assms(5) by (simp add: Verify_rejected_iff Register_fresh_iff nonce_live_def)
qed

text \<open>A validator whose signature check accepts everything that parses.\<close>

definition demo_validator :: "unit ProvenanceValidator" where
  "demo_validator = \<lparr> pv_pubKey = (), pv_nonceCache = NewNonceCache (5 * minute) \<rparr>"

lemma demo_validator_new:
  "NewProvenanceValidator (Inr ''pem'') Some (\<lambda>_. Inr (Some ())) (5 * minute) = Inr demo_validator"
  by (simp add: NewProvenanceValidator_def demo_validator_def)

lemma demo_verifies:
  "fst (Verify h (\<lambda>pk d r s. True) t m ''3006020101020101'' ''n'' demo_validator) = None"
proof -
  have "DecodeString ''3006020101020101''
      = Inr [CHR 0x30, CHR 0x06, CHR 0x02, CHR 0x01, CHR 0x01, CHR 0x02, CHR 0x01, CHR 0x01]"
    by (simp add: hex_val_def Let_def char_of_eq_iff take_bit_eq_mod)
  moreover have "asn1_Unmarshal [CHR 0x30, CHR 0x06, CHR 0x02, CHR 0x01, CHR 0x01, CHR 0x02, CHR 0x01, CHR 0x01]
      = Inr (\<lparr> es_R = Some 1, es_S = Some 1 \<rparr>, [])"
    by (simp add: asn1_Unmarshal_def der_element_def der_length_def der_int_def)
  ultimately have "check_signature h (\<lambda>pk d r s. True) (pv_pubKey demo_validator) m ''3006020101020101'' = None"
    by (simp add: check_signature_None_iff)
  moreover have "fst (nonce_Register t ''n'' (pv_nonceCache demo_validator))"
    by (simp add: Register_fresh_iff nonce_live_def demo_validator_def NewNonceCache_def gm_get_def)
  ultimately show ?thesis by (simp add: Verify_fresh)
qed

theorem replay_rejected_within_ttl_witness:
  "fst (Verify undefined (\<lambda>pk d r s. True) second ''m'' ''3006020101020101'' ''n''
      (snd (Verify undefined (\<lambda>pk d r s. True) 0 ''m'' ''3006020101020101'' ''n'' demo_validator)))
    = Some NonceRejected"
  using replay_rejected_within_ttl [OF demo_validator_new, of demo_validator undefined "\<lambda>pk d r s. True"
      "[]" 0 "''m''" "''3006020101020101''" "''n''" "[]" second "''m''" "''3006020101020101''"]
  by (simp add: demo_verifies minute_def second_def)

text \<open>
  Replay after the window. The protection ends with the TTL: a request that was accepted at
  \<open>t0\<close> is accepted again, byte for byte, from \<open>t0\<close> plus the TTL on, as long as nobody else used its
  nonce meanwhile. Nothing in the validator bounds the age of a manifest.
\<close>

theorem replay_accepted_after_ttl:
  assumes "NewProvenanceValidator file pemDecode parsePKIX ttl = Inr v0"
    and "v = fold (validator_step h ecdsa) history v0"
    and "fst (Verify h ecdsa t0 m s n v) = None"
    and "\<forall>t m s. Verified t m s n \<notin> set between" and "t0 + ttl \<le> t"
  shows "fst (Verify h ecdsa t m s n (fold (validator_step h ecdsa) between
           (snd (Verify h ecdsa t0 m s n v)))) = None"
proof -
  have wf: "nonce_wf (pv_nonceCache v)" and ttl: "nc_ttl (pv_nonceCache v) = ttl"
    unfolding assms(2) using history_frame [OF assms(1)] by blast+
  have ok: "fst (Verify h ecdsa t0 m s n v) \<noteq> Some NonceRejected" using assms(3) by simp
  then have fresh: "fst (nonce_Register t0 n (pv_nonceCache v))" by (simp add: Verify_rejected_iff)
  let ?v1 = "snd (Verify h ecdsa t0 m s n v)"
  let ?v = "fold (validator_step h ecdsa) between ?v1"
  note reg = Verify_registers [OF wf ok, unfolded ttl]
  have "gm_get (nc_nonces (pv_nonceCache ?v)) n \<in> {None, Some (t0 + ttl)}"
    using unsubmitted_shrinks [OF reg(1) assms(4), of h ecdsa] reg(2) by simp
  then have "fst (nonce_Register t n (pv_nonceCache ?v))"
    using assms(5) fresh by (auto simp: Register_fresh_iff nonce_live_def)
  moreover have "pv_pubKey ?v = pv_pubKey v" using fold_frame [OF reg(1)] by simp
  ultimately show ?thesis using assms(3) by (simp add: Verify_fresh fresh)
qed

theorem replay_accepted_after_ttl_witness:
  "fst (Verify undefined (\<lambda>pk d r s. True) (5 * minute) ''m'' ''3006020101020101'' ''n''
      (fold (validator_step undefined (\<lambda>pk d r s. True)) [Cleaned minute]
        (snd (Verify undefined (\<lambda>pk d r s. True) 0 ''m'' ''3006020101020101'' ''n'' demo_validator))))
    = None"
  by (rule replay_accepted_after_ttl [OF demo_validator_new, of _ _ _ "[]"])
     (simp_all add: demo_verifies)

text \<open>
  C28: what acceptance means. \<open>Verify\<close> succeeds exactly when the nonce is non-empty and not live in
  the cache and the hex text decodes to one complete DER sequence of two integers for which ECDSA
  accepts the SHA-256 of the manifest; the nil-coordinate branch is unreachable, and a nonce that
  gets past the cache is spent even when the signature is refused.
\<close>

theorem verify_accepts_iff:
  "(fst (Verify h ecdsa t m s n v) = None \<longleftrightarrow>
      n \<noteq> [] \<and> \<not> nonce_live t n (pv_nonceCache v)
      \<and> (\<exists>bs x y. DecodeString s = Inr bs
           \<and> asn1_Unmarshal bs = Inr (\<lparr> es_R = Some x, es_S = Some y \<rparr>, [])
           \<and> ecdsa (pv_pubKey v) (h m) x y))
   \<and> fst (Verify h ecdsa t m s n v) \<noteq> Some NilCoordinate
   \<and> pv_nonceCache (snd (Verify h ecdsa t m s n v)) =
       (if n \<noteq> [] \<and> \<not> nonce_live t n (pv_nonceCache v)
        then (pv_nonceCache v)\<lparr>nc_nonces :=
               gm_put (nc_nonces (pv_nonceCache v)) n (t + nc_ttl (pv_nonceCache v))\<rparr>
        else pv_nonceCache v)"
proof -
  have "fst (nonce_Register t n (pv_nonceCache v)) \<Longrightarrow> snd (nonce_Register t n (pv_nonceCache v)) =
      (pv_nonceCache v)\<lparr>nc_nonces := gm_put (nc_nonces (pv_nonceCache v)) n (t + nc_ttl (pv_nonceCache v))\<rparr>"
    by (auto simp: nonce_Register_def split: option.splits if_splits)
  then show ?thesis
    using Verify_rejected_iff [of h ecdsa t m s n v] Verify_fresh [of t n v h ecdsa m s]
      Register_rejected [of t n "pv_nonceCache v"] no_nil_coordinate [of h ecdsa "pv_pubKey v" m s]
    by (cases "fst (nonce_Register t n (pv_nonceCache v))")
       (auto simp: Verify_cache check_signature_None_iff Register_fresh_iff)
qed

text \<open>
  C40: signatures round trip, and are malleable. The hex text of the DER encoding of two coordinates
  (bodies below 256 bytes, which covers every curve of the library) is decoded to exactly these
  coordinates, so the outcome of the check is ECDSA's verdict; but any bytes appended inside the
  sequence leave the verdict unchanged, although trailing bytes after it are refused.
\<close>

theorem signature_roundtrip:
  assumes "length (der_tlv 2 (der_nat r) @ der_tlv 2 (der_nat s) @ extra) < 256"
  shows "check_signature h ecdsa pk m (EncodeToString (der_signature r s extra)) =
       (if ecdsa pk (h m) (int r) (int s) then None else Some BadSignature)
     \<and> (rest \<noteq> [] \<longrightarrow>
          check_signature h ecdsa pk m (EncodeToString (der_signature r s extra @ rest)) = Some ExtraBytes)"
  using asn1_der_signature [OF assms, of "[]"] asn1_der_signature [OF assms, of rest]
  by (auto simp: check_signature_def hex_roundtrip)

theorem signature_roundtrip_witness:
  "check_signature undefined (\<lambda>pk d r s. r = 200 \<and> s = 7) () ''m''
      (EncodeToString (der_signature 200 7 ''junk'')) = None"
proof -
  have "length (der_tlv 2 (der_nat 200) @ der_tlv 2 (der_nat 7) @ ''junk'') < 256"
    by (simp add: der_tlv_def der_len_def der_nat.simps [of 200] der_nat.simps [of 0] der_nat.simps [of 7])
  from signature_roundtrip [OF this, of undefined "\<lambda>pk d r s. r = 200 \<and> s = 7" "()" "''m''" "[]"]
  show ?thesis by simp
qed

end
