(* ===== verification/Registry.thy ===== *)
theory Registry
  imports Prelude
begin

text \<open>
  \<open>agent/registry.go\<close>: agent identities and the registry of the active ones. Key generation, UUIDs,
  the certificate library and the clock are the fields of \<open>agent_env\<close>, one reading per call of
  \<open>newAgentIdentity\<close>; ed25519 and X.509 parsing are arguments of the functions that use them.
\<close>

subsection \<open>Identities\<close>

definition spiffeTrustDomain :: string where
  "spiffeTrustDomain = ''nexiscore.local''"

record url =
  u_Scheme :: string
  u_Host :: string
  u_Path :: string

record x509_cert =
  xc_CommonName :: string
  xc_URIs :: "url list"
  xc_NotBefore :: time
  xc_NotAfter :: time

record cert_template =
  ct_SerialNumber :: nat
  ct_CommonName :: string
  ct_Organization :: "string list"
  ct_URIs :: "url list"
  ct_NotBefore :: time
  ct_NotAfter :: time
  ct_DigitalSignature :: bool
  ct_ClientAuth :: bool
  ct_ServerAuth :: bool
  ct_BasicConstraintsValid :: bool
  ct_IsCA :: bool

record tls_certificate =
  tc_chain :: bytes
  tc_key :: bytes

record AgentIdentity =
  ai_AgentID :: string
  ai_SPIFFEID :: string
  ai_PublicKey :: bytes
  ai_privateKey :: "bytes option"
  ai_TLSCert :: tls_certificate
  ai_CertDER :: bytes
  ai_RegisteredAt :: time
  ai_ExpiresAt :: time
  ai_Metadata :: "(string, string) gomap"

definition Sign :: "(bytes \<Rightarrow> bytes \<Rightarrow> bytes) \<Rightarrow> AgentIdentity \<Rightarrow> bytes \<Rightarrow> string + bytes" where
  "Sign ed_sign a message =
     (case ai_privateKey a of
        None \<Rightarrow> Inl ''agent: private key unavailable''
      | Some k \<Rightarrow> Inr (ed_sign k message))"

definition identity_Verify ::
  "(bytes \<Rightarrow> bytes \<Rightarrow> bytes \<Rightarrow> bool) \<Rightarrow> AgentIdentity \<Rightarrow> bytes \<Rightarrow> bytes \<Rightarrow> bool" where
  "identity_Verify ed_verify a message sig = ed_verify (ai_PublicKey a) message sig"

subsection \<open>Certificates\<close>

datatype agent_error =
    KeyGenFailed string
  | InvalidSPIFFE string
  | SerialFailed string
  | CertCreateFailed string
  | KeyMarshalFailed string
  | KeyPairFailed string
  | NotRegistered string

record agent_env =
  ae_GenerateKey :: "string + bytes \<times> bytes"
  ae_UUID :: string
  ae_URLParse :: "string \<Rightarrow> string + url"
  ae_Now :: time
  ae_Serial :: "string + nat"
  ae_CreateCertificate :: "cert_template \<Rightarrow> bytes \<Rightarrow> bytes \<Rightarrow> string + bytes"
  ae_PEM :: "string \<Rightarrow> bytes \<Rightarrow> bytes"
  ae_MarshalPKCS8 :: "bytes \<Rightarrow> string + bytes"
  ae_X509KeyPair :: "bytes \<Rightarrow> bytes \<Rightarrow> string + tls_certificate"

definition spiffe_of :: "string \<Rightarrow> string" where
  "spiffe_of agentID = ''spiffe://'' @ spiffeTrustDomain @ ''/agent/'' @ agentID"

definition agent_template :: "string \<Rightarrow> url \<Rightarrow> time \<Rightarrow> nat \<Rightarrow> cert_template" where
  "agent_template agentID uri now serial =
     \<lparr> ct_SerialNumber = serial, ct_CommonName = agentID, ct_Organization = [''NexisCore''],
       ct_URIs = [uri], ct_NotBefore = now, ct_NotAfter = now + 24 * hour,
       ct_DigitalSignature = True, ct_ClientAuth = True, ct_ServerAuth = True,
       ct_BasicConstraintsValid = True, ct_IsCA = False \<rparr>"

definition newAgentIdentity ::
  "agent_env \<Rightarrow> (string, string) gomap option \<Rightarrow> agent_error + AgentIdentity" where
  "newAgentIdentity E metadata =
     (case ae_GenerateKey E of
        Inl e \<Rightarrow> Inl (KeyGenFailed e)
      | Inr (pub, priv) \<Rightarrow>
     (let agentID = ae_UUID E; spiffeID = spiffe_of agentID in
      case ae_URLParse E spiffeID of
        Inl e \<Rightarrow> Inl (InvalidSPIFFE e)
      | Inr spiffeURI \<Rightarrow>
     (let now = ae_Now E; expiry = now + 24 * hour in
      case ae_Serial E of
        Inl e \<Rightarrow> Inl (SerialFailed e)
      | Inr serialNumber \<Rightarrow>
     (case ae_CreateCertificate E (agent_template agentID spiffeURI now serialNumber) pub priv of
        Inl e \<Rightarrow> Inl (CertCreateFailed e)
      | Inr certDER \<Rightarrow>
     (let certPEM = ae_PEM E ''CERTIFICATE'' certDER in
      case ae_MarshalPKCS8 E priv of
        Inl e \<Rightarrow> Inl (KeyMarshalFailed e)
      | Inr privPEMBytes \<Rightarrow>
     (case ae_X509KeyPair E certPEM (ae_PEM E ''PRIVATE KEY'' privPEMBytes) of
        Inl e \<Rightarrow> Inl (KeyPairFailed e)
      | Inr tlsCert \<Rightarrow> Inr
          \<lparr> ai_AgentID = agentID, ai_SPIFFEID = spiffeID, ai_PublicKey = pub,
            ai_privateKey = Some priv, ai_TLSCert = tlsCert, ai_CertDER = certDER,
            ai_RegisteredAt = now, ai_ExpiresAt = expiry,
            ai_Metadata = (case metadata of None \<Rightarrow> [] | Some m \<Rightarrow> m) \<rparr>))))))"

text \<open>\<open>makeSPIFFEVerifier\<close>: \<open>None\<close> is the nil error, acceptance of the peer.\<close>

datatype verify_error = NoCertificate | BadPeerCertificate string | NoSPIFFEURI string

fun uri_accepted :: "string \<Rightarrow> url list \<Rightarrow> bool" where
  "uri_accepted trustDomain [] = False"
| "uri_accepted trustDomain (u # us) =
     (if u_Scheme u = ''spiffe'' \<and> u_Host u = trustDomain then True else uri_accepted trustDomain us)"

definition makeSPIFFEVerifier ::
  "(bytes \<Rightarrow> string + x509_cert) \<Rightarrow> string \<Rightarrow> bytes list \<Rightarrow> verify_error option" where
  "makeSPIFFEVerifier parse trustDomain rawCerts =
     (case rawCerts of
        [] \<Rightarrow> Some NoCertificate
      | raw # _ \<Rightarrow>
          (case parse raw of
             Inl e \<Rightarrow> Some (BadPeerCertificate e)
           | Inr cert \<Rightarrow>
               if uri_accepted trustDomain (xc_URIs cert) then None
               else Some (NoSPIFFEURI trustDomain)))"

text \<open>
  \<open>TLSConfig\<close>: the own certificate, the peers' pool for both directions, mutual authentication, TLS
  1.3, and the verifier hook.
\<close>

record tls_config =
  tls_Certificates :: "tls_certificate list"
  tls_ClientCAs :: "x509_cert list"
  tls_RootCAs :: "x509_cert list"
  tls_RequireClientCert :: bool
  tls_MinVersion :: nat
  tls_VerifyPeer :: "bytes list \<Rightarrow> verify_error option"

definition TLSConfig ::
  "(bytes \<Rightarrow> string + x509_cert) \<Rightarrow> AgentIdentity \<Rightarrow> x509_cert list \<Rightarrow> tls_config" where
  "TLSConfig parse a certPool =
     \<lparr> tls_Certificates = [ai_TLSCert a], tls_ClientCAs = certPool, tls_RootCAs = certPool,
       tls_RequireClientCert = True, tls_MinVersion = 0x0304,
       tls_VerifyPeer = makeSPIFFEVerifier parse spiffeTrustDomain \<rparr>"

subsection \<open>The registry\<close>

record AgentRegistry =
  ar_agents :: "(string, AgentIdentity) gomap"
  ar_bySpiffe :: "(string, AgentIdentity) gomap"

definition NewAgentRegistry :: AgentRegistry where
  "NewAgentRegistry = \<lparr> ar_agents = [], ar_bySpiffe = [] \<rparr>"

text \<open>The locked part of \<open>Register\<close>, then \<open>Register\<close>.\<close>

definition registry_insert :: "AgentIdentity \<Rightarrow> AgentRegistry \<Rightarrow> AgentRegistry" where
  "registry_insert i r =
     r\<lparr>ar_agents := gm_put (ar_agents r) (ai_AgentID i) i,
       ar_bySpiffe := gm_put (ar_bySpiffe r) (ai_SPIFFEID i) i\<rparr>"

definition Register ::
  "agent_env \<Rightarrow> (string, string) gomap option \<Rightarrow> AgentRegistry
     \<Rightarrow> (agent_error + AgentIdentity) \<times> AgentRegistry" where
  "Register E metadata r =
     (case newAgentIdentity E metadata of
        Inl e \<Rightarrow> (Inl e, r)
      | Inr i \<Rightarrow> (Inr i, registry_insert i r))"

definition Lookup :: "AgentRegistry \<Rightarrow> string \<Rightarrow> AgentIdentity option" where
  "Lookup r agentID = gm_get (ar_agents r) agentID"

definition LookupBySPIFFE :: "AgentRegistry \<Rightarrow> string \<Rightarrow> AgentIdentity option" where
  "LookupBySPIFFE r spiffeID = gm_get (ar_bySpiffe r) spiffeID"

definition Deregister :: "string \<Rightarrow> AgentRegistry \<Rightarrow> agent_error option \<times> AgentRegistry" where
  "Deregister agentID r =
     (case gm_get (ar_agents r) agentID of
        None \<Rightarrow> (Some (NotRegistered agentID), r)
      | Some i \<Rightarrow>
          (None, r\<lparr>ar_agents := gm_del (ar_agents r) agentID,
                   ar_bySpiffe := gm_del (ar_bySpiffe r) (ai_SPIFFEID i)\<rparr>))"

text \<open>The maps' list order stands for the iteration order of Go's \<open>range\<close>, any order at all.\<close>

definition ListActive :: "AgentRegistry \<Rightarrow> AgentIdentity list" where
  "ListActive r = map snd (ar_agents r)"

definition Count :: "AgentRegistry \<Rightarrow> nat" where
  "Count r = gm_len (ar_agents r)"

fun pool_certs :: "(bytes \<Rightarrow> string + x509_cert) \<Rightarrow> (string \<times> AgentIdentity) list \<Rightarrow> x509_cert list" where
  "pool_certs parse [] = []"
| "pool_certs parse ((k, i) # rest) =
     (case parse (ai_CertDER i) of
        Inl e \<Rightarrow> pool_certs parse rest
      | Inr cert \<Rightarrow> cert # pool_certs parse rest)"

definition BuildCertPool :: "(bytes \<Rightarrow> string + x509_cert) \<Rightarrow> AgentRegistry \<Rightarrow> x509_cert list" where
  "BuildCertPool parse r = pool_certs parse (ar_agents r)"

text \<open>The loop of \<open>PruneExpired\<close> over the entries that \<open>range\<close> visits.\<close>

fun prune_loop ::
  "time \<Rightarrow> (string \<times> AgentIdentity) list \<Rightarrow> nat \<times> AgentRegistry \<Rightarrow> nat \<times> AgentRegistry" where
  "prune_loop now [] (pruned, r) = (pruned, r)"
| "prune_loop now ((k, i) # rest) (pruned, r) =
     (if now > ai_ExpiresAt i
      then prune_loop now rest
             (Suc pruned, r\<lparr>ar_agents := gm_del (ar_agents r) k,
                            ar_bySpiffe := gm_del (ar_bySpiffe r) (ai_SPIFFEID i)\<rparr>)
      else prune_loop now rest (pruned, r))"

definition PruneExpired :: "time \<Rightarrow> AgentRegistry \<Rightarrow> nat \<times> AgentRegistry" where
  "PruneExpired now r = prune_loop now (ar_agents r) (0, r)"

subsection \<open>Lemmas\<close>

lemma spiffe_of_inj [simp]: "spiffe_of a = spiffe_of b \<longleftrightarrow> a = b"
  by (simp add: spiffe_of_def)

text \<open>What every identity \<open>newAgentIdentity\<close> returns satisfies.\<close>

definition identity_ok :: "AgentIdentity \<Rightarrow> bool" where
  "identity_ok i \<longleftrightarrow> ai_SPIFFEID i = spiffe_of (ai_AgentID i) \<and> ai_privateKey i \<noteq> None
     \<and> ai_ExpiresAt i = ai_RegisteredAt i + 24 * hour"

lemma newAgentIdentity_InrD:
  assumes "newAgentIdentity E metadata = Inr i"
  shows "\<exists>pub priv uri serial.
     ae_GenerateKey E = Inr (pub, priv) \<and> ae_URLParse E (spiffe_of (ae_UUID E)) = Inr uri
     \<and> ae_Serial E = Inr serial
     \<and> ae_CreateCertificate E (agent_template (ae_UUID E) uri (ae_Now E) serial) pub priv
         = Inr (ai_CertDER i)
     \<and> ai_AgentID i = ae_UUID E \<and> ai_SPIFFEID i = spiffe_of (ae_UUID E) \<and> ai_PublicKey i = pub
     \<and> ai_privateKey i = Some priv \<and> ai_RegisteredAt i = ae_Now E
     \<and> ai_ExpiresAt i = ae_Now E + 24 * hour"
proof -
  from assms obtain pub priv where k: "ae_GenerateKey E = Inr (pub, priv)"
    by (auto simp: newAgentIdentity_def split: sum.splits)
  from assms obtain uri where u: "ae_URLParse E (spiffe_of (ae_UUID E)) = Inr uri"
    by (auto simp: newAgentIdentity_def k Let_def split: sum.splits)
  from assms obtain serial where n: "ae_Serial E = Inr serial"
    by (auto simp: newAgentIdentity_def k u Let_def split: sum.splits)
  from assms obtain der
    where c: "ae_CreateCertificate E (agent_template (ae_UUID E) uri (ae_Now E) serial) pub priv = Inr der"
    by (auto simp: newAgentIdentity_def k u n Let_def split: sum.splits)
  from assms obtain pk where p: "ae_MarshalPKCS8 E priv = Inr pk"
    by (auto simp: newAgentIdentity_def k u n c Let_def split: sum.splits)
  from assms obtain tc where "ae_X509KeyPair E (ae_PEM E ''CERTIFICATE'' der) (ae_PEM E ''PRIVATE KEY'' pk) = Inr tc"
    by (auto simp: newAgentIdentity_def k u n c p Let_def split: sum.splits)
  with assms k u n c p show ?thesis
    by (auto simp: newAgentIdentity_def Let_def)
qed

lemma newAgentIdentity_ok: "newAgentIdentity E metadata = Inr i \<Longrightarrow> identity_ok i"
  by (drule newAgentIdentity_InrD) (auto simp: identity_ok_def)

text \<open>The two maps hold the same identities, each under its own id and its own SPIFFE URI.\<close>

definition reg_inv :: "AgentRegistry \<Rightarrow> bool" where
  "reg_inv r \<longleftrightarrow> gm_wf (ar_agents r) \<and> gm_wf (ar_bySpiffe r)
     \<and> (\<forall>a i. gm_get (ar_agents r) a = Some i \<longrightarrow> ai_AgentID i = a \<and> identity_ok i)
     \<and> (\<forall>a. gm_get (ar_bySpiffe r) (spiffe_of a) = gm_get (ar_agents r) a)
     \<and> (\<forall>s. gm_get (ar_bySpiffe r) s \<noteq> None \<longrightarrow> s \<in> range spiffe_of)"

lemma reg_inv_agent:
  "reg_inv r \<Longrightarrow> gm_get (ar_agents r) a = Some i \<Longrightarrow>
     ai_AgentID i = a \<and> ai_SPIFFEID i = spiffe_of a \<and> identity_ok i"
  unfolding reg_inv_def identity_ok_def by blast

lemma reg_inv_new [inv_defs]: "reg_inv NewAgentRegistry"
  by (simp add: reg_inv_def NewAgentRegistry_def gomap_simps)

lemma reg_inv_insert:
  assumes "reg_inv r" and "identity_ok i"
  shows "reg_inv (registry_insert i r)"
  using assms by (auto simp: reg_inv_def registry_insert_def gomap_simps identity_ok_def)

text \<open>Removing one agent from both maps, as \<open>Deregister\<close> and the pruning loop do.\<close>

definition registry_remove :: "string \<Rightarrow> AgentRegistry \<Rightarrow> AgentRegistry" where
  "registry_remove a r =
     r\<lparr>ar_agents := gm_del (ar_agents r) a, ar_bySpiffe := gm_del (ar_bySpiffe r) (spiffe_of a)\<rparr>"

lemma reg_inv_remove: "reg_inv r \<Longrightarrow> reg_inv (registry_remove a r)"
  by (auto simp: reg_inv_def registry_remove_def gomap_simps)

lemma Deregister_remove:
  assumes "reg_inv r"
  shows "snd (Deregister a r) = (if Lookup r a = None then r else registry_remove a r)"
  using reg_inv_agent [OF assms, of a]
  by (auto simp: Deregister_def Lookup_def registry_remove_def split: option.splits)

lemma Lookup_remove: "reg_inv r \<Longrightarrow> Lookup (registry_remove a r) b = (if b = a then None else Lookup r b)"
  by (simp add: reg_inv_def Lookup_def registry_remove_def gomap_simps)

lemma Lookup_insert: "reg_inv r \<Longrightarrow> Lookup (registry_insert i r) = (Lookup r)(ai_AgentID i \<mapsto> i)"
  by (simp add: reg_inv_def Lookup_def registry_insert_def gomap_simps fun_eq_iff)

lemma prune_loop_remove:
  assumes "\<forall>(k, i) \<in> set es. ai_SPIFFEID i = spiffe_of k"
  shows "prune_loop now es (n, r) =
    (n + length (filter (\<lambda>(k, i). now > ai_ExpiresAt i) es),
     fold registry_remove (map fst (filter (\<lambda>(k, i). now > ai_ExpiresAt i) es)) r)"
  using assms
proof (induction es arbitrary: n r)
  case Nil
  show ?case by simp
next
  case (Cons e es)
  obtain k i where e: "e = (k, i)" by (cases e)
  with Cons.prems have "ai_SPIFFEID i = spiffe_of k" by simp
  with e Cons show ?case by (simp add: registry_remove_def)
qed

lemma fold_remove:
  assumes "reg_inv r"
  shows "reg_inv (fold registry_remove ks r)
     \<and> Lookup (fold registry_remove ks r) b = (if b \<in> set ks then None else Lookup r b)"
  using assms
proof (induction ks arbitrary: r)
  case Nil
  then show ?case by simp
next
  case (Cons k ks)
  then show ?case using Cons.IH [OF reg_inv_remove [OF Cons.prems, of k]]
    by (simp add: Lookup_remove)
qed

lemma entries_spiffe:
  "reg_inv r \<Longrightarrow> \<forall>(k, i) \<in> set (ar_agents r). ai_SPIFFEID i = spiffe_of k"
proof (clarify)
  fix k i
  assume r: "reg_inv r" and "(k, i) \<in> set (ar_agents r)"
  then have "gm_get (ar_agents r) k = Some i" by (simp add: reg_inv_def gm_get_in_set)
  with reg_inv_agent [OF r] show "ai_SPIFFEID i = spiffe_of k" by blast
qed

definition expired_keys :: "time \<Rightarrow> AgentRegistry \<Rightarrow> string list" where
  "expired_keys now r = map fst (filter (\<lambda>(k, i). now > ai_ExpiresAt i) (ar_agents r))"

lemma expired_keys_iff:
  assumes "reg_inv r"
  shows "a \<in> set (expired_keys now r) \<longleftrightarrow> (\<exists>i. Lookup r a = Some i \<and> now > ai_ExpiresAt i)"
proof -
  have "gm_wf (ar_agents r)" using assms by (simp add: reg_inv_def)
  then show ?thesis by (force simp: expired_keys_def Lookup_def gm_get_in_set)
qed

lemma PruneExpired_remove:
  assumes "reg_inv r"
  shows "PruneExpired now r =
    (length (expired_keys now r), fold registry_remove (expired_keys now r) r)"
  using prune_loop_remove [OF entries_spiffe [OF assms], of now 0 r]
  by (simp add: PruneExpired_def expired_keys_def)

lemma Count_card: "reg_inv r \<Longrightarrow> Count r = card (dom (Lookup r))"
proof -
  assume "reg_inv r"
  then have "gm_wf (ar_agents r)" by (simp add: reg_inv_def)
  moreover have "Lookup r = gm_get (ar_agents r)" by (simp add: Lookup_def fun_eq_iff)
  ultimately show ?thesis by (simp add: Count_def gm_len_card)
qed

lemma ListActive_ran: "reg_inv r \<Longrightarrow> set (ListActive r) = ran (Lookup r)"
proof -
  assume "reg_inv r"
  then have "gm_wf (ar_agents r)" by (simp add: reg_inv_def)
  then show ?thesis by (force simp: ListActive_def ran_def Lookup_def gm_get_in_set)
qed

lemma prune_Lookup:
  assumes "reg_inv r"
  shows "Lookup (snd (PruneExpired now r)) a =
    (case Lookup r a of None \<Rightarrow> None | Some i \<Rightarrow> if now > ai_ExpiresAt i then None else Some i)"
  using fold_remove [OF assms, of "expired_keys now r" a] expired_keys_iff [OF assms, of a now]
  by (auto simp: PruneExpired_remove [OF assms] split: option.splits)

lemma prune_count:
  assumes "reg_inv r"
  shows "fst (PruneExpired now r) + Count (snd (PruneExpired now r)) = Count r"
proof -
  let ?ks = "expired_keys now r" and ?r = "snd (PruneExpired now r)"
  have wf: "gm_wf (ar_agents r)" using assms by (simp add: reg_inv_def)
  have inv: "reg_inv ?r" using fold_remove [OF assms] by (simp add: PruneExpired_remove [OF assms])
  have "dom (Lookup ?r) = dom (Lookup r) - set ?ks"
    using fold_remove [OF assms, of ?ks] by (auto simp: PruneExpired_remove [OF assms] dom_def)
  moreover have sub: "set ?ks \<subseteq> dom (Lookup r)" using expired_keys_iff [OF assms] by blast
  moreover have "distinct ?ks"
    using wf unfolding expired_keys_def gm_wf_def by (rule distinct_map_filter)
  moreover have "finite (dom (Lookup r))"
    using finite_gm_dom [of "ar_agents r"] by (simp add: Lookup_def dom_def)
  ultimately show ?thesis
    using Count_card [OF assms] Count_card [OF inv]
    by (simp add: card_Diff_subset distinct_card PruneExpired_remove [OF assms] card_mono
        flip: distinct_card)
qed

subsection \<open>Histories\<close>

text \<open>Every operation that changes the registry, as an atomic step under its lock.\<close>

inductive reg_step :: "AgentRegistry \<Rightarrow> AgentRegistry \<Rightarrow> bool" where
  register: "reg_step r (snd (Register E metadata r))"
| deregister: "reg_step r (snd (Deregister a r))"
| prune: "reg_step r (snd (PruneExpired now r))"

inductive reg_reach :: "AgentRegistry \<Rightarrow> bool" where
  new: "reg_reach NewAgentRegistry"
| step: "reg_reach r \<Longrightarrow> reg_step r r' \<Longrightarrow> reg_reach r'"

inductive_cases reg_stepE: "reg_step r r'"

lemma Register_insert:
  "snd (Register E metadata r) =
     (case newAgentIdentity E metadata of Inl e \<Rightarrow> r | Inr i \<Rightarrow> registry_insert i r)"
  by (simp add: Register_def split: sum.splits)

lemma reg_step_inv:
  assumes "reg_inv r" and "reg_step r r'"
  shows "reg_inv r'"
  using assms(2)
proof (cases rule: reg_step.cases)
  case (register E metadata)
  with assms(1) show ?thesis
    by (auto simp: Register_insert split: sum.splits intro: reg_inv_insert newAgentIdentity_ok)
next
  case (deregister a)
  with assms(1) show ?thesis by (simp add: Deregister_remove reg_inv_remove)
next
  case (prune now)
  with fold_remove [OF assms(1)] show ?thesis by (simp add: PruneExpired_remove [OF assms(1)])
qed

lemma reg_reach_inv: "reg_reach r \<Longrightarrow> reg_inv r"
  by (induction rule: reg_reach.induct) (auto simp: inv_defs intro: reg_step_inv)

subsection \<open>The registry as a directory of identities\<close>

text \<open>
  What a client that looks agents up by id and by URI relies on. The router is such a client.
\<close>

locale identity_directory =
  fixes inv :: "'s \<Rightarrow> bool"
    and by_id :: "'s \<Rightarrow> string \<Rightarrow> 'i option"
    and by_uri :: "'s \<Rightarrow> string \<Rightarrow> 'i option"
    and uri_of :: "string \<Rightarrow> string"
    and name :: "'i \<Rightarrow> string"
  assumes by_id_name: "inv s \<Longrightarrow> by_id s a = Some i \<Longrightarrow> name i = a"
    and by_uri_of: "inv s \<Longrightarrow> by_uri s (uri_of a) = by_id s a"
    and by_uri_known: "inv s \<Longrightarrow> by_uri s u = Some i \<Longrightarrow> u \<in> range uri_of"
begin

lemma by_id_inj: "inv s \<Longrightarrow> by_id s a = Some i \<Longrightarrow> by_id s b = Some i \<Longrightarrow> a = b"
  using by_id_name by blast

lemma by_uri_iff: "inv s \<Longrightarrow> by_uri s u = Some i \<longleftrightarrow> by_id s (name i) = Some i \<and> u = uri_of (name i)"
proof (rule iffI)
  assume inv: "inv s" and u: "by_uri s u = Some i"
  then obtain a where a: "u = uri_of a" using by_uri_known by blast
  with inv u have "by_id s a = Some i" by (simp add: by_uri_of)
  with inv have "name i = a" by (rule by_id_name)
  with a \<open>by_id s a = Some i\<close> show "by_id s (name i) = Some i \<and> u = uri_of (name i)" by simp
next
  assume "inv s" and "by_id s (name i) = Some i \<and> u = uri_of (name i)"
  then show "by_uri s u = Some i" by (simp add: by_uri_of)
qed

lemma uri_of_inj: "inv s \<Longrightarrow> by_id s a = Some i \<Longrightarrow> by_id s b = Some j \<Longrightarrow> uri_of a = uri_of b \<Longrightarrow> a = b"
proof -
  assume inv: "inv s" and a: "by_id s a = Some i" and b: "by_id s b = Some j" and u: "uri_of a = uri_of b"
  have "by_uri s (uri_of a) = Some i" using inv a by (simp add: by_uri_of)
  moreover have "by_uri s (uri_of a) = Some j" using inv b u by (simp add: by_uri_of)
  ultimately have "by_id s b = Some i" using b by simp
  with inv a show "a = b" by (rule by_id_inj)
qed

end

interpretation directory: identity_directory reg_inv Lookup LookupBySPIFFE spiffe_of ai_AgentID
proof unfold_locales
  fix r a i u
  assume r: "reg_inv r"
  show "Lookup r a = Some i \<Longrightarrow> ai_AgentID i = a"
    using reg_inv_agent [OF r] by (simp add: Lookup_def)
  show "LookupBySPIFFE r (spiffe_of a) = Lookup r a"
    using r by (simp add: reg_inv_def Lookup_def LookupBySPIFFE_def)
  show "LookupBySPIFFE r u = Some i \<Longrightarrow> u \<in> range spiffe_of"
    using r by (simp add: reg_inv_def LookupBySPIFFE_def)
qed

lemma pool_certs_has:
  "(k, i) \<in> set es \<Longrightarrow> parse (ai_CertDER i) = Inr cert \<Longrightarrow> cert \<in> set (pool_certs parse es)"
  by (induction parse es rule: pool_certs.induct) (auto split: sum.splits)

lemma pool_has:
  assumes "Lookup r a = Some i" and "parse (ai_CertDER i) = Inr cert"
  shows "cert \<in> set (BuildCertPool parse r)"
proof -
  have "(a, i) \<in> set (ar_agents r)"
    using assms(1) by (simp add: Lookup_def gm_get_def map_of_SomeD)
  then show ?thesis unfolding BuildCertPool_def using assms(2) by (rule pool_certs_has)
qed

lemma Lookup_registered: "reg_inv r \<Longrightarrow> Lookup (registry_insert i r) (ai_AgentID i) = Some i"
  by (simp add: Lookup_insert)

subsection \<open>Properties\<close>

text \<open>A concrete environment: a registration that succeeds.\<close>

definition demo_parse :: "string \<Rightarrow> string + url" where
  "demo_parse s = Inr \<lparr> u_Scheme = takeWhile (\<lambda>c. c \<noteq> CHR '':'') s,
     u_Host = takeWhile (\<lambda>c. c \<noteq> CHR ''/'') (drop 3 (dropWhile (\<lambda>c. c \<noteq> CHR '':'') s)),
     u_Path = dropWhile (\<lambda>c. c \<noteq> CHR ''/'') (drop 3 (dropWhile (\<lambda>c. c \<noteq> CHR '':'') s)) \<rparr>"

definition demo_env :: "string \<Rightarrow> time \<Rightarrow> agent_env" where
  "demo_env u t =
     \<lparr> ae_GenerateKey = Inr (''pub'', ''priv''), ae_UUID = u, ae_URLParse = demo_parse, ae_Now = t,
       ae_Serial = Inr 7, ae_CreateCertificate = (\<lambda>t p k. Inr (ct_CommonName t)),
       ae_PEM = (\<lambda>t b. b), ae_MarshalPKCS8 = Inr,
       ae_X509KeyPair = (\<lambda>c k. Inr \<lparr> tc_chain = c, tc_key = k \<rparr>) \<rparr>"

definition demo_cert :: "bytes \<Rightarrow> string + x509_cert" where
  "demo_cert der = Inr \<lparr> xc_CommonName = der, xc_URIs = [projr (demo_parse (spiffe_of der))],
     xc_NotBefore = 0, xc_NotAfter = 24 * hour \<rparr>"

definition demo_identity :: "string \<Rightarrow> time \<Rightarrow> AgentIdentity" where
  "demo_identity u t =
     \<lparr> ai_AgentID = u, ai_SPIFFEID = spiffe_of u, ai_PublicKey = ''pub'', ai_privateKey = Some ''priv'',
       ai_TLSCert = \<lparr> tc_chain = u, tc_key = ''priv'' \<rparr>, ai_CertDER = u, ai_RegisteredAt = t,
       ai_ExpiresAt = t + 24 * hour, ai_Metadata = [] \<rparr>"

lemma demo_register: "newAgentIdentity (demo_env u t) None = Inr (demo_identity u t)"
  by (simp add: newAgentIdentity_def demo_env_def demo_identity_def demo_parse_def Let_def
      agent_template_def)

lemma demo_reach: "reg_reach (registry_insert (demo_identity u t) NewAgentRegistry)"
  using reg_reach.step [OF reg_reach.new reg_step.register [of _ "demo_env u t" None]]
  by (simp add: Register_insert demo_register)

text \<open>
  The two lookups of the registry never disagree. After any history of registrations,
  deregistrations and prunings, a SPIFFE URI finds an identity exactly when the identity's own id
  finds it and the URI is the one built from that id; so no agent is reachable under a stale or
  foreign URI.
\<close>

theorem registry_views_agree:
  assumes "reg_reach r"
  shows "LookupBySPIFFE r u = Some i \<longleftrightarrow>
     Lookup r (ai_AgentID i) = Some i \<and> u = spiffe_of (ai_AgentID i)"
  using reg_reach_inv [OF assms] by (rule directory.by_uri_iff)

theorem registry_views_agree_witness:
  "LookupBySPIFFE (registry_insert (demo_identity ''a'' 0) NewAgentRegistry) (spiffe_of ''a'')
     = Some (demo_identity ''a'' 0)"
  using registry_views_agree [OF demo_reach [of "''a''" 0], of "spiffe_of ''a''" "demo_identity ''a'' 0"]
  by (simp add: demo_identity_def Lookup_insert [OF reg_inv_new])

text \<open>
  C36: the registry implements a finite map from agent ids to identities. After any history of
  registrations, deregistrations and prunings: registering stores the new identity under its id (and
  changes nothing when the identity cannot be made), deregistering removes one id and reports an unknown
  one, pruning removes exactly the identities whose certificate has expired and counts them, \<open>Count\<close> is
  the map's size, \<open>ListActive\<close> lists its range, and the second index is the same map under the ids' URIs,
  so no agent is reachable under a stale or foreign URI.
\<close>

theorem registry_refines_map:
  assumes "reg_reach r"
  shows "fst (Register E metadata r) = newAgentIdentity E metadata
     \<and> Lookup (snd (Register E metadata r)) =
         (case newAgentIdentity E metadata of
            Inl e \<Rightarrow> Lookup r | Inr i \<Rightarrow> (Lookup r)(ai_AgentID i \<mapsto> i))
     \<and> Lookup (snd (Deregister a r)) = (Lookup r)(a := None)
     \<and> (fst (Deregister a r) = None \<longleftrightarrow> Lookup r a \<noteq> None)
     \<and> Lookup (snd (PruneExpired now r)) a =
         (case Lookup r a of None \<Rightarrow> None | Some i \<Rightarrow> if now > ai_ExpiresAt i then None else Some i)
     \<and> fst (PruneExpired now r) + Count (snd (PruneExpired now r)) = Count r
     \<and> Count r = card (dom (Lookup r)) \<and> set (ListActive r) = ran (Lookup r)
     \<and> (LookupBySPIFFE r u = Some i \<longleftrightarrow> Lookup r (ai_AgentID i) = Some i \<and> u = spiffe_of (ai_AgentID i))"
proof (intro conjI)
  note inv = reg_reach_inv [OF assms]
  show "Lookup (snd (PruneExpired now r)) a =
         (case Lookup r a of None \<Rightarrow> None | Some i \<Rightarrow> if now > ai_ExpiresAt i then None else Some i)"
    using inv by (rule prune_Lookup)
  show "fst (PruneExpired now r) + Count (snd (PruneExpired now r)) = Count r" using inv by (rule prune_count)
  show "LookupBySPIFFE r u = Some i \<longleftrightarrow> Lookup r (ai_AgentID i) = Some i \<and> u = spiffe_of (ai_AgentID i)"
    using inv by (rule directory.by_uri_iff)
  show "fst (Register E metadata r) = newAgentIdentity E metadata"
    by (simp add: Register_def split: sum.splits)
  show "Lookup (snd (Register E metadata r)) =
         (case newAgentIdentity E metadata of
            Inl e \<Rightarrow> Lookup r | Inr i \<Rightarrow> (Lookup r)(ai_AgentID i \<mapsto> i))"
    by (simp add: Register_insert Lookup_insert [OF inv] split: sum.splits)
  show "Lookup (snd (Deregister a r)) = (Lookup r)(a := None)"
    by (auto simp: Deregister_remove [OF inv] Lookup_remove [OF inv] fun_eq_iff)
  show "fst (Deregister a r) = None \<longleftrightarrow> Lookup r a \<noteq> None"
    by (simp add: Deregister_def Lookup_def split: option.splits)
  show "Count r = card (dom (Lookup r))" using inv by (rule Count_card)
  show "set (ListActive r) = ran (Lookup r)" using inv by (rule ListActive_ran)
qed

theorem registry_refines_map_witness:
  "Count (registry_insert (demo_identity ''a'' 0) NewAgentRegistry) = 1
     \<and> fst (Deregister ''b'' (registry_insert (demo_identity ''a'' 0) NewAgentRegistry)) \<noteq> None"
proof -
  let ?r = "registry_insert (demo_identity ''a'' 0) NewAgentRegistry"
  have l: "Lookup ?r = [''a'' \<mapsto> demo_identity ''a'' 0]"
    by (simp add: Lookup_insert [OF reg_inv_new] demo_identity_def)
       (simp add: Lookup_def NewAgentRegistry_def gm_get_def fun_eq_iff)
  show ?thesis
    using registry_refines_map [OF demo_reach [of "''a''" 0], of undefined None "''b''"]
    by (simp add: l)
qed

text \<open>
  Pruning removes exactly the identities whose certificate has expired, from both maps, whatever
  order the map is iterated in, and returns how many it removed.
\<close>

theorem prune_exact:
  assumes "reg_reach r"
  shows "Lookup (snd (PruneExpired now r)) a =
       (case Lookup r a of None \<Rightarrow> None | Some i \<Rightarrow> if now > ai_ExpiresAt i then None else Some i)
     \<and> LookupBySPIFFE (snd (PruneExpired now r)) (spiffe_of a) = Lookup (snd (PruneExpired now r)) a
     \<and> fst (PruneExpired now r) + Count (snd (PruneExpired now r)) = Count r"
proof (intro conjI)
  note inv = reg_reach_inv [OF assms]
  show "Lookup (snd (PruneExpired now r)) a =
       (case Lookup r a of None \<Rightarrow> None | Some i \<Rightarrow> if now > ai_ExpiresAt i then None else Some i)"
    using inv by (rule prune_Lookup)
  have "reg_inv (snd (PruneExpired now r))" using inv reg_step.prune by (rule reg_step_inv)
  then show "LookupBySPIFFE (snd (PruneExpired now r)) (spiffe_of a) = Lookup (snd (PruneExpired now r)) a"
    by (rule directory.by_uri_of)
  show "fst (PruneExpired now r) + Count (snd (PruneExpired now r)) = Count r"
    using inv by (rule prune_count)
qed

theorem prune_exact_witness:
  "Lookup (snd (PruneExpired (25 * hour) (registry_insert (demo_identity ''a'' 0) NewAgentRegistry))) ''a''
     = None"
  using prune_exact [OF demo_reach [of "''a''" 0], of "25 * hour" "''a''"]
  by (simp add: Lookup_insert [OF reg_inv_new] demo_identity_def hour_def minute_def second_def)

text \<open>
  A freshly registered agent can be trusted by its peers. When the certificate library reads a
  created certificate back with the URIs it was made from, and URL parsing splits a SPIFFE URI into
  scheme and host, the certificate of a successful \<open>Register\<close> passes every agent's verifier hook,
  and the pool built from the registry contains it.
\<close>

theorem registered_agent_trusted:
  assumes "Register E metadata r = (Inr i, r')" and "reg_reach r"
    and "\<And>uri. ae_URLParse E (spiffe_of (ae_UUID E)) = Inr uri \<Longrightarrow>
           u_Scheme uri = ''spiffe'' \<and> u_Host uri = spiffeTrustDomain"
    and "\<And>uri n pub priv der. ae_URLParse E (spiffe_of (ae_UUID E)) = Inr uri \<Longrightarrow>
           ae_CreateCertificate E (agent_template (ae_UUID E) uri (ae_Now E) n) pub priv = Inr der \<Longrightarrow>
           \<exists>cert. parse der = Inr cert \<and> xc_URIs cert = [uri]"
  shows "tls_VerifyPeer (TLSConfig parse peer pool) (ai_CertDER i # rest) = None
     \<and> projr (parse (ai_CertDER i)) \<in> set (BuildCertPool parse r')
     \<and> ai_ExpiresAt i = ai_RegisteredAt i + 24 * hour"
proof -
  from assms(1) have i: "newAgentIdentity E metadata = Inr i" and r': "r' = registry_insert i r"
    by (auto simp: Register_def split: sum.splits)
  from newAgentIdentity_InrD [OF i] obtain pub priv uri n where
    u: "ae_URLParse E (spiffe_of (ae_UUID E)) = Inr uri"
    and c: "ae_CreateCertificate E (agent_template (ae_UUID E) uri (ae_Now E) n) pub priv = Inr (ai_CertDER i)"
    and e: "ai_ExpiresAt i = ai_RegisteredAt i + 24 * hour"
    by auto
  obtain cert where p: "parse (ai_CertDER i) = Inr cert" and us: "xc_URIs cert = [uri]"
    using assms(4) [OF u c] by blast
  have "tls_VerifyPeer (TLSConfig parse peer pool) (ai_CertDER i # rest) = None"
    using assms(3) [OF u] by (simp add: TLSConfig_def makeSPIFFEVerifier_def p us)
  moreover have "cert \<in> set (BuildCertPool parse r')"
    unfolding r' using Lookup_registered [OF reg_reach_inv [OF assms(2)]] p by (rule pool_has)
  ultimately show ?thesis using e p by simp
qed

theorem registered_agent_trusted_witness:
  "tls_VerifyPeer (TLSConfig demo_cert (demo_identity ''b'' 3) []) [''a''] = None"
proof -
  let ?i = "demo_identity ''a'' 0" and ?E = "demo_env ''a'' 0"
  have "Register ?E None NewAgentRegistry = (Inr ?i, registry_insert ?i NewAgentRegistry)"
    by (simp add: Register_def demo_register)
  from registered_agent_trusted [OF this reg_reach.new, of demo_cert "demo_identity ''b'' 3" "[]" "[]"]
  show ?thesis
    by (simp add: demo_identity_def demo_env_def demo_cert_def demo_parse_def spiffe_of_def
        spiffeTrustDomain_def agent_template_def)
qed

end
