(* ===== verification/Reload.thy ===== *)
theory Reload
  imports Prelude
begin

text \<open>
  What the two hot-reloading policy loaders share (\<open>agent/policy.go\<close> and \<open>egress/allowlist.go\<close>): the
  file system as one load sees it, and the contract of a loader that may replace its
  configuration by a freshly parsed one and keeps it in every other case.
\<close>

text \<open>Line breaks and quotation marks of the embedded default documents.\<close>

definition nl :: string where "nl = [CHR 0x0A]"
definition qt :: "string \<Rightarrow> string" where "qt s = CHR 0x22 # s @ [CHR 0x22]"

text \<open>The result of \<open>os.Stat\<close> on the policy path, with \<open>os.IsNotExist\<close> told apart.\<close>

datatype stat_result = StatOK time | StatNotExist | StatError string

record fs_view =
  fv_stat :: stat_result
  fv_read :: "string + bytes"

text \<open>The zero \<open>time.Time\<close>: midnight, 1 January of year 1.\<close>

definition zero_time :: time where
  "zero_time = - 62135596800 * 1000000000"

text \<open>
  \<open>load\<close> takes the file system's answers and the state and gives the new state, the default
  document it wrote to disk if it did, and the error it returned if it did. \<open>offered\<close> is the
  configuration the view holds, if it holds one the parser accepts.
\<close>

locale hot_reload =
  fixes load :: "fs_view \<Rightarrow> 's \<Rightarrow> 's \<times> bytes option \<times> 'e option"
    and cfg :: "'s \<Rightarrow> 'c"
    and mtime :: "'s \<Rightarrow> time"
    and offered :: "fs_view \<Rightarrow> 'c option"
  assumes load_cfg:
      "cfg (fst (load v s)) = cfg s \<or> offered v = Some (cfg (fst (load v s)))"
    and load_error: "snd (snd (load v s)) \<noteq> None \<Longrightarrow> cfg (fst (load v s)) = cfg s"
    and load_mtime: "mtime s \<le> mtime (fst (load v s))"
    and load_unchanged:
      "fv_stat v = StatOK t \<Longrightarrow> t \<le> mtime s \<Longrightarrow> load v s = (s, None, None)"
    and load_seen: "fv_stat v = StatOK t \<Longrightarrow> fv_read v = Inr raw \<Longrightarrow> t \<le> mtime (fst (load v s))"
begin

text \<open>However often it is polled, the configuration is one the file system offered.\<close>

lemma polled_cfg:
  "cfg (fold (\<lambda>v s. fst (load v s)) vs s) = cfg s
   \<or> (\<exists>v \<in> set vs. offered v = Some (cfg (fold (\<lambda>v s. fst (load v s)) vs s)))"
proof (induction vs arbitrary: s)
  case Nil
  then show ?case by simp
next
  case (Cons v vs)
  show ?case
    using Cons.IH [of "fst (load v s)"] load_cfg [of v s] by auto
qed

lemma polled_mtime: "mtime s \<le> mtime (fold (\<lambda>v s. fst (load v s)) vs s)"
proof (induction vs arbitrary: s)
  case Nil
  then show ?case by simp
next
  case (Cons v vs)
  then show ?case using load_mtime order_trans by fastforce
qed

text \<open>If no view offers an acceptable document, polling never changes the configuration.\<close>

lemma polled_rejected:
  "\<forall>v \<in> set vs. offered v = None \<Longrightarrow> cfg (fold (\<lambda>v s. fst (load v s)) vs s) = cfg s"
  using polled_cfg [of vs s] by auto

text \<open>A document is parsed at most once: the same modification time is skipped afterwards.\<close>

lemma load_once:
  "fv_stat v = StatOK t \<Longrightarrow> fv_read v = Inr raw \<Longrightarrow>
     fv_stat v' = StatOK t \<Longrightarrow> load v' (fst (load v s)) = (fst (load v s), None, None)"
  by (rule load_unchanged) (auto intro: load_seen)

end

end
