(* ===== verification/Policy.thy ===== *)
theory Policy
  imports Reload
begin

text \<open>
  \<open>agent/policy.go\<close>: the inter-agent routing ACL. \<open>PolicyManager\<close> keeps the routes of the last
  document it parsed; \<open>IsRoutePermitted\<close> is the decision every route request asks for. The YAML
  parser (a third-party package) is the parameter \<open>unmarshal\<close>.
\<close>

record PolicyRoute =
  pr_From :: string
  pr_To :: string
  pr_Comment :: string

record PolicyFile =
  pf_Version :: string
  pf_Routes :: "PolicyRoute list"

definition DefaultPolicyYAML :: bytes where
  "DefaultPolicyYAML =
     ''version: '' @ qt ''1'' @ nl @
     ''# NexisCore Inter-Agent ACL Policy'' @ nl @
     ''# Modify to grant specific agent-to-agent communication channels.'' @ nl @
     ''routes:'' @ nl @
     ''  # Supervisor agent (well-known SPIFFE ID) may reach any agent'' @ nl @
     ''  - from: '' @ qt ''spiffe://nexiscore.local/agent/supervisor'' @ nl @
     ''    to:   '' @ qt ''*'' @ nl @
     ''    comment: '' @ qt ''Supervisor has unrestricted routing authority'' @ nl @
     ''  # System introspection agent may broadcast to all'' @ nl @
     ''  - from: '' @ qt ''spiffe://nexiscore.local/agent/introspection'' @ nl @
     ''    to:   '' @ qt ''*'' @ nl @
     ''    comment: '' @ qt ''Introspection agent may read any agent state'' @ nl @
     ''  # Default: no lateral movement (all other agent-to-agent traffic DENIED)'' @ nl"

text \<open>The document above, read as YAML.\<close>

definition default_policy :: PolicyFile where
  "default_policy =
     \<lparr> pf_Version = ''1'',
       pf_Routes =
         [\<lparr> pr_From = ''spiffe://nexiscore.local/agent/supervisor'', pr_To = ''*'',
            pr_Comment = ''Supervisor has unrestricted routing authority'' \<rparr>,
          \<lparr> pr_From = ''spiffe://nexiscore.local/agent/introspection'', pr_To = ''*'',
            pr_Comment = ''Introspection agent may read any agent state'' \<rparr>] \<rparr>"

datatype policy_error = PolicyStat string | PolicyRead string | PolicyYAML string

text \<open>\<open>stopCh\<close> is whether the channel has been closed; the mutex leaves no trace in the state.\<close>

record PolicyManager =
  pm_policyPath :: string
  pm_routes :: "PolicyRoute list"
  pm_lastModTime :: time
  pm_pollInterval :: time
  pm_stopCh :: bool

subsection \<open>The decision\<close>

fun routes_permit :: "PolicyRoute list \<Rightarrow> string \<times> string \<Rightarrow> bool" where
  "routes_permit [] ft = False"
| "routes_permit (r # rs) ft =
     (let fromMatch = (pr_From r = ''*'' \<or> pr_From r = fst ft);
          toMatch = (pr_To r = ''*'' \<or> pr_To r = snd ft)
      in if fromMatch \<and> toMatch then True else routes_permit rs ft)"

definition IsRoutePermitted :: "PolicyManager \<Rightarrow> string \<Rightarrow> string \<Rightarrow> bool" where
  "IsRoutePermitted pm fromSPIFFE toSPIFFE = routes_permit (pm_routes pm) (fromSPIFFE, toSPIFFE)"

definition Routes :: "PolicyManager \<Rightarrow> PolicyRoute list" where
  "Routes pm = pm_routes pm"

definition route_matches :: "PolicyRoute \<Rightarrow> string \<times> string \<Rightarrow> bool" where
  "route_matches r ft \<longleftrightarrow>
     (pr_From r = ''*'' \<or> pr_From r = fst ft) \<and> (pr_To r = ''*'' \<or> pr_To r = snd ft)"

interpretation acl: rule_list routes_permit route_matches
proof unfold_locales
  fix rs q
  show "routes_permit rs q \<longleftrightarrow> (\<exists>r \<in> set rs. route_matches r q)"
    by (induction rs) (auto simp: route_matches_def Let_def)
qed

subsection \<open>Loading\<close>

text \<open>The tail of \<open>load\<close>, from \<open>yaml.Unmarshal\<close> on; \<open>wrote\<close> is the default document, if written.\<close>

definition policy_apply ::
  "(bytes \<Rightarrow> string + PolicyFile) \<Rightarrow> PolicyManager \<Rightarrow> bytes \<Rightarrow> bytes option
     \<Rightarrow> PolicyManager \<times> bytes option \<times> policy_error option" where
  "policy_apply unmarshal pm rawYAML wrote =
     (case unmarshal rawYAML of
        Inl e \<Rightarrow> (pm, wrote, Some (PolicyYAML e))
      | Inr policy \<Rightarrow> (pm\<lparr>pm_routes := pf_Routes policy\<rparr>, wrote, None))"

definition policy_load ::
  "(bytes \<Rightarrow> string + PolicyFile) \<Rightarrow> fs_view \<Rightarrow> PolicyManager
     \<Rightarrow> PolicyManager \<times> bytes option \<times> policy_error option" where
  "policy_load unmarshal v pm =
     (case fv_stat v of
        StatNotExist \<Rightarrow> policy_apply unmarshal pm DefaultPolicyYAML (Some DefaultPolicyYAML)
      | StatError e \<Rightarrow> (pm, None, Some (PolicyStat e))
      | StatOK modTime \<Rightarrow>
          (let unchanged = (\<not> (modTime > pm_lastModTime pm)) in
           if unchanged then (pm, None, None)
           else case fv_read v of
             Inl e \<Rightarrow> (pm, None, Some (PolicyRead e))
           | Inr rawYAML \<Rightarrow>
               policy_apply unmarshal (pm\<lparr>pm_lastModTime := modTime\<rparr>) rawYAML None))"

definition NewPolicyManager ::
  "(bytes \<Rightarrow> string + PolicyFile) \<Rightarrow> string \<Rightarrow> fs_view \<Rightarrow> policy_error + PolicyManager" where
  "NewPolicyManager unmarshal policyPath v =
     (let pm = \<lparr> pm_policyPath = policyPath, pm_routes = [], pm_lastModTime = zero_time,
                 pm_pollInterval = 10 * second, pm_stopCh = False \<rparr>;
          (pm', _, err) = policy_load unmarshal v pm
      in case err of Some e \<Rightarrow> Inl e | None \<Rightarrow> Inr pm')"

text \<open>
  The poller's \<open>select\<close>: each tick loads with the file system as it is then (an error is logged and
  the loop goes on), a closed \<open>stopCh\<close> ends it.
\<close>

datatype poll_event = Tick fs_view | Stopped

fun policy_poller ::
  "(bytes \<Rightarrow> string + PolicyFile) \<Rightarrow> poll_event list \<Rightarrow> PolicyManager \<Rightarrow> PolicyManager" where
  "policy_poller unmarshal [] pm = pm"
| "policy_poller unmarshal (Tick v # es) pm =
     policy_poller unmarshal es (fst (policy_load unmarshal v pm))"
| "policy_poller unmarshal (Stopped # es) pm = pm"

text \<open>\<open>Shutdown\<close> closes \<open>stopCh\<close>; closing it a second time panics (\<open>None\<close>).\<close>

definition policy_Shutdown :: "PolicyManager \<Rightarrow> PolicyManager option" where
  "policy_Shutdown pm = (if pm_stopCh pm then None else Some (pm\<lparr>pm_stopCh := True\<rparr>))"

subsection \<open>The loader meets the reload contract\<close>

definition policy_offered ::
  "(bytes \<Rightarrow> string + PolicyFile) \<Rightarrow> fs_view \<Rightarrow> PolicyRoute list option" where
  "policy_offered unmarshal v =
     (case (case fv_stat v of
              StatNotExist \<Rightarrow> Inr DefaultPolicyYAML
            | StatError e \<Rightarrow> Inl e
            | StatOK _ \<Rightarrow> fv_read v) of
        Inl _ \<Rightarrow> None
      | Inr raw \<Rightarrow> (case unmarshal raw of Inl _ \<Rightarrow> None | Inr pf \<Rightarrow> Some (pf_Routes pf)))"

lemmas policy_load_defs = policy_load_def policy_apply_def policy_offered_def Let_def

interpretation policy: hot_reload
  "policy_load unmarshal" pm_routes pm_lastModTime "policy_offered unmarshal"
  for unmarshal :: "bytes \<Rightarrow> string + PolicyFile"
  by unfold_locales
    (auto simp: policy_load_defs split: stat_result.splits sum.splits)

fun tick_views :: "poll_event list \<Rightarrow> fs_view list" where
  "tick_views [] = []"
| "tick_views (Tick v # es) = v # tick_views es"
| "tick_views (Stopped # es) = []"

lemma policy_poller_fold:
  "policy_poller unmarshal es pm =
     fold (\<lambda>v pm. fst (policy_load unmarshal v pm)) (tick_views es) pm"
  by (induction unmarshal es pm rule: policy_poller.induct) simp_all

lemma NewPolicyManager_default:
  assumes "unmarshal DefaultPolicyYAML = Inr default_policy"
    and "fv_stat v = StatNotExist"
    and "NewPolicyManager unmarshal path v = Inr pm"
  shows "pm_routes pm = pf_Routes default_policy"
  using assms by (auto simp: NewPolicyManager_def policy_load_defs)

subsection \<open>Properties\<close>

text \<open>
  Default deny. When no policy file exists and the YAML parser reads the embedded document as
  the two routes it spells out, the manager starts, and it permits a route exactly when the sender
  is the supervisor or the introspection agent: no other agent may reach any agent at all.
\<close>

theorem default_policy_denies_lateral:
  assumes "unmarshal DefaultPolicyYAML = Inr default_policy"
    and "fv_stat v = StatNotExist"
  shows "\<exists>pm. NewPolicyManager unmarshal path v = Inr pm \<and>
     (\<forall>f t. IsRoutePermitted pm f t \<longleftrightarrow>
        f = ''spiffe://nexiscore.local/agent/supervisor''
        \<or> f = ''spiffe://nexiscore.local/agent/introspection'')"
proof -
  obtain pm where pm: "NewPolicyManager unmarshal path v = Inr pm"
    using assms by (auto simp: NewPolicyManager_def policy_load_defs)
  then have "pm_routes pm = pf_Routes default_policy"
    using assms NewPolicyManager_default by blast
  with pm show ?thesis
    by (auto simp: IsRoutePermitted_def default_policy_def Let_def)
qed

theorem default_policy_denies_lateral_witness:
  "\<exists>pm. NewPolicyManager (\<lambda>_. Inr default_policy) ''policy.yaml''
          \<lparr> fv_stat = StatNotExist, fv_read = Inl ''no such file'' \<rparr> = Inr pm \<and>
     \<not> IsRoutePermitted pm ''spiffe://nexiscore.local/agent/a'' ''spiffe://nexiscore.local/agent/b''"
proof -
  let ?v = "\<lparr> fv_stat = StatNotExist, fv_read = Inl ''no such file'' \<rparr> :: fs_view"
  show ?thesis
    using default_policy_denies_lateral [where unmarshal = "\<lambda>_. Inr default_policy" and v = ?v
        and path = "''policy.yaml''"]
    by fastforce
qed

text \<open>
  C38: hot reload is safe. However the file changes between polls (missing, unreadable, malformed,
  replaced), the active routes are the ones the manager had or the routes of a document some poll
  read and the parser accepted; and a document the parser rejects is retried only when the file's
  modification time moves on: with the same time the next load changes nothing and reports nothing.
\<close>

theorem policy_reload_safe:
  "(pm_routes (policy_poller unmarshal es pm) = pm_routes pm
     \<or> (\<exists>v \<in> set (tick_views es).
          policy_offered unmarshal v = Some (pm_routes (policy_poller unmarshal es pm))))
   \<and> (snd (snd (policy_load unmarshal v pm)) \<noteq> None \<longrightarrow>
        pm_routes (fst (policy_load unmarshal v pm)) = pm_routes pm)
   \<and> (fv_stat v = StatOK t \<longrightarrow> fv_read v = Inr raw \<longrightarrow> fv_stat v' = StatOK t \<longrightarrow>
        policy_load unmarshal v' (fst (policy_load unmarshal v pm))
          = (fst (policy_load unmarshal v pm), None, None))"
  using policy.polled_cfg [of unmarshal "tick_views es" pm] policy.load_error [of unmarshal v pm]
    policy.load_once [of v t raw v' unmarshal pm]
  by (simp add: policy_poller_fold)

theorem policy_reload_safe_witness:
  "let unmarshal = (\<lambda>raw. if raw = ''good'' then Inr default_policy else Inl ''bad yaml'');
       pm = \<lparr> pm_policyPath = ''p'', pm_routes = [], pm_lastModTime = 0,
              pm_pollInterval = 10 * second, pm_stopCh = False \<rparr>;
       bad = \<lparr> fv_stat = StatOK 5, fv_read = Inr ''oops'' \<rparr>;
       good = \<lparr> fv_stat = StatOK 5, fv_read = Inr ''good'' \<rparr>
   in snd (snd (policy_load unmarshal bad pm)) = Some (PolicyYAML ''bad yaml'')
      \<and> policy_load unmarshal good (fst (policy_load unmarshal bad pm))
          = (fst (policy_load unmarshal bad pm), None, None)
      \<and> pm_routes (fst (policy_load unmarshal bad pm)) = []"
  using policy_reload_safe [of "\<lambda>raw. if raw = ''good'' then Inr default_policy else Inl ''bad yaml''"
      "[]" "\<lparr> pm_policyPath = ''p'', pm_routes = [], pm_lastModTime = 0,
              pm_pollInterval = 10 * second, pm_stopCh = False \<rparr>"
      "\<lparr> fv_stat = StatOK 5, fv_read = Inr ''oops'' \<rparr>" 5 "''oops''"
      "\<lparr> fv_stat = StatOK 5, fv_read = Inr ''good'' \<rparr>"]
  by (simp add: policy_load_defs)

end
