(* ===== verification/Json.thy ===== *)
theory Json
  imports Utf8
begin

text \<open>
  What the program relies on from \<open>encoding/json\<close>: the tree of a marshalled value, and the syntax
  check \<open>json.Marshal\<close> runs over a \<open>json.RawMessage\<close> that was written by hand. \<open>JDec n k\<close> is the decimal
  fraction \<open>n / 10 ^ k\<close>, \<open>JLit\<close> a number as it was written in a text.
\<close>

datatype json =
    JNull
  | JBool bool
  | JNum int
  | JDec int nat
  | JLit string
  | JStr string
  | JArr "json list"
  | JObj "(string \<times> json) list"

subsection \<open>The scanner\<close>

definition json_ws :: "char \<Rightarrow> bool" where
  "json_ws c \<longleftrightarrow> byte_val c \<in> {0x20, 0x09, 0x0A, 0x0D}"

definition skip_ws :: "string \<Rightarrow> string" where
  "skip_ws s = dropWhile json_ws s"

definition is_hex :: "char \<Rightarrow> bool" where
  "is_hex c \<longleftrightarrow> is_dec c \<or> (97 \<le> byte_val c \<and> byte_val c \<le> 102) \<or> (65 \<le> byte_val c \<and> byte_val c \<le> 70)"

text \<open>After the opening quote: the rest behind the closing one.\<close>

fun scan_str :: "string \<Rightarrow> string option" where
  "scan_str [] = None"
| "scan_str (c # cs) =
     (if c = dquote then Some cs
      else if c = backslash then
        (case cs of
           [] \<Rightarrow> None
         | e # es \<Rightarrow>
             if e \<in> {dquote, backslash, CHR ''/'', CHR ''b'', CHR ''f'', CHR ''n'', CHR ''r'', CHR ''t''}
             then scan_str es
             else if e = CHR ''u'' then
               (case es of
                  h1 # h2 # h3 # h4 # r \<Rightarrow>
                    if is_hex h1 \<and> is_hex h2 \<and> is_hex h3 \<and> is_hex h4 then scan_str r else None
                | _ \<Rightarrow> None)
             else None)
      else if byte_val c < 0x20 then None
      else scan_str cs)"

definition scan_digits :: "string \<Rightarrow> string option" where
  "scan_digits s = (if s \<noteq> [] \<and> is_dec (hd s) then Some (dropWhile is_dec s) else None)"

definition scan_frac :: "string \<Rightarrow> string option" where
  "scan_frac s = (if s \<noteq> [] \<and> hd s = CHR ''.'' then scan_digits (tl s) else Some s)"

definition scan_exp :: "string \<Rightarrow> string option" where
  "scan_exp s =
     (if s \<noteq> [] \<and> (hd s = CHR ''e'' \<or> hd s = CHR ''E'')
      then (let r = tl s
            in scan_digits (if r \<noteq> [] \<and> (hd r = CHR ''+'' \<or> hd r = CHR ''-'') then tl r else r))
      else Some s)"

definition scan_num :: "string \<Rightarrow> string option" where
  "scan_num s0 =
     (let s = (if s0 \<noteq> [] \<and> hd s0 = CHR ''-'' then tl s0 else s0) in
      case (if s \<noteq> [] \<and> hd s = CHR ''0'' then Some (tl s) else scan_digits s) of
        None \<Rightarrow> None
      | Some r \<Rightarrow> (case scan_frac r of None \<Rightarrow> None | Some r' \<Rightarrow> scan_exp r'))"

definition scan_lit :: "string \<Rightarrow> string \<Rightarrow> string option" where
  "scan_lit w s = (if HasPrefix s w then Some (drop (length w) s) else None)"

text \<open>
  Values, array elements and object members; the fuel is the nesting and length bound, and
  \<open>json_valid\<close> starts with more than the text can use.
\<close>

fun scan_value :: "nat \<Rightarrow> string \<Rightarrow> string option"
  and scan_elems :: "nat \<Rightarrow> string \<Rightarrow> string option"
  and scan_members :: "nat \<Rightarrow> string \<Rightarrow> string option"
where
  "scan_value 0 s = None"
| "scan_value (Suc n) s =
     (case skip_ws s of
        [] \<Rightarrow> None
      | c # cs \<Rightarrow>
          if c = dquote then scan_str cs
          else if c = CHR ''{'' then
            (case skip_ws cs of
               [] \<Rightarrow> None
             | d # ds \<Rightarrow> if d = CHR ''}'' then Some ds else scan_members n (d # ds))
          else if c = CHR ''['' then
            (case skip_ws cs of
               [] \<Rightarrow> None
             | d # ds \<Rightarrow> if d = CHR '']'' then Some ds else scan_elems n (d # ds))
          else if c = CHR ''t'' then scan_lit ''true'' (c # cs)
          else if c = CHR ''f'' then scan_lit ''false'' (c # cs)
          else if c = CHR ''n'' then scan_lit ''null'' (c # cs)
          else scan_num (c # cs))"
| "scan_elems 0 s = None"
| "scan_elems (Suc n) s =
     (case scan_value n s of
        None \<Rightarrow> None
      | Some r \<Rightarrow>
          (case skip_ws r of
             [] \<Rightarrow> None
           | d # ds \<Rightarrow>
               if d = CHR '','' then scan_elems n ds
               else if d = CHR '']'' then Some ds else None))"
| "scan_members 0 s = None"
| "scan_members (Suc n) s =
     (case skip_ws s of
        [] \<Rightarrow> None
      | c # cs \<Rightarrow>
          if c \<noteq> dquote then None
          else case scan_str cs of
            None \<Rightarrow> None
          | Some r \<Rightarrow>
              (case skip_ws r of
                 [] \<Rightarrow> None
               | d # ds \<Rightarrow>
                   if d \<noteq> CHR '':'' then None
                   else case scan_value n ds of
                     None \<Rightarrow> None
                   | Some r' \<Rightarrow>
                       (case skip_ws r' of
                          [] \<Rightarrow> None
                        | e # es \<Rightarrow>
                            if e = CHR '','' then scan_members n es
                            else if e = CHR ''}'' then Some es else None)))"

definition json_valid :: "string \<Rightarrow> bool" where
  "json_valid s =
     (case scan_value (2 * length s + 2) s of
        None \<Rightarrow> False
      | Some r \<Rightarrow> skip_ws r = [])"

subsection \<open>A quoted string as the text of a JSON string\<close>

text \<open>
  \<open>%q\<close> writes a Go string literal. It is JSON exactly where the two escape syntaxes agree: Go's
  \<open>\a\<close>, \<open>\v\<close> and \<open>\x\<close> are not JSON.
\<close>

definition quote_json_safe :: "char \<Rightarrow> bool" where
  "quote_json_safe c \<longleftrightarrow>
     (0x20 \<le> byte_val c \<and> byte_val c \<noteq> 0x7F) \<or> byte_val c \<in> {8, 9, 10, 12, 13}"

lemma char_eq_val: "c = d \<longleftrightarrow> byte_val c = byte_val d"
  by (simp only: of_char_eq_iff)

lemma scan_str_quote_rune:
  assumes "ascii c"
  shows "scan_str (quote_rune U (byte_val c, [c]) @ r) =
     (if quote_json_safe c then scan_str r else None)"
proof -
  define n where "n = byte_val c"
  have n: "n < 128" using assms by (simp add: ascii_def n_def)
  have c: "c = char_of n" by (simp add: n_def)
  have plain: "32 \<le> n \<Longrightarrow> n \<noteq> 34 \<Longrightarrow> n \<noteq> 92 \<Longrightarrow> scan_str (c # r) = scan_str r"
    using n_def by (auto simp: dquote_def backslash_def char_eq_val)
  have esc34: "char_of (34::nat) = dquote" and esc92: "char_of (92::nat) = backslash"
    by (simp_all add: dquote_def backslash_def char_of_eq_iff)
  have bs: "scan_str (backslash # CHR ''x'' # t) = None" "scan_str (backslash # CHR ''a'' # t) = None"
    "scan_str (backslash # CHR ''v'' # t) = None"
    "scan_str (backslash # CHR ''b'' # t) = scan_str t" "scan_str (backslash # CHR ''f'' # t) = scan_str t"
    "scan_str (backslash # CHR ''n'' # t) = scan_str t" "scan_str (backslash # CHR ''r'' # t) = scan_str t"
    "scan_str (backslash # CHR ''t'' # t) = scan_str t"
    "scan_str (backslash # dquote # t) = scan_str t" "scan_str (backslash # backslash # t) = scan_str t"
    for t
    by (simp_all add: dquote_def backslash_def)
  show ?thesis
    unfolding quote_rune_def quote_json_safe_def Let_def fst_conv snd_conv n_def [symmetric]
    using n plain
    by (auto simp: rune_error_def bs esc34 esc92 simp del: scan_str.simps)
qed

text \<open>The hand-written text \<open>{"error":%q}\<close> of \<open>telemetry/ocsf.go\<close>.\<close>

definition error_text :: "unicode \<Rightarrow> string \<Rightarrow> string" where
  "error_text U reason =
     ''{'' @ [dquote] @ ''error'' @ [dquote] @ '':'' @ go_quote U reason @ ''}''"

end
