(* ===== verification/Jsondec.thy ===== *)
theory Jsondec
  imports Json
begin

text \<open>
  The rest of what the program uses of \<open>encoding/json\<close>: reading a text into a tree and a tree into
  the fields of a struct (\<open>json.Unmarshal\<close>, \<open>json.Decoder\<close>), and printing (\<open>json.Marshal\<close>,
  \<open>json.MarshalIndent\<close>). A number that was read keeps its text, \<open>JLit\<close>.
\<close>

subsection \<open>Strings\<close>

text \<open>\<open>getu4\<close>: the four hexadecimal digits behind a backslash and a \<open>u\<close>.\<close>

definition hex_digit_val :: "char \<Rightarrow> nat" where
  "hex_digit_val c =
     (let n = byte_val c in if n \<le> 57 then n - 48 else if n \<le> 70 then n - 55 else n - 87)"

definition hex4 :: "string \<Rightarrow> nat option" where
  "hex4 s =
     (if length s \<ge> 4 \<and> list_all is_hex (take 4 s)
      then Some (foldl (\<lambda>a c. 16 * a + hex_digit_val c) 0 (take 4 s)) else None)"

definition getu4 :: "string \<Rightarrow> nat option" where
  "getu4 s =
     (case s of
        b # u # t \<Rightarrow> if b = backslash \<and> u = CHR ''u'' then hex4 t else None
      | _ \<Rightarrow> None)"

text \<open>\<open>utf16.DecodeRune\<close>, \<open>None\<close> for a pair that is none.\<close>

definition surrogate_pair :: "nat \<Rightarrow> nat \<Rightarrow> nat option" where
  "surrogate_pair a b =
     (if 0xD800 \<le> a \<and> a < 0xDC00 \<and> 0xDC00 \<le> b \<and> b < 0xE000
      then Some ((a - 0xD800) * 1024 + (b - 0xDC00) + 0x10000) else None)"

text \<open>The rune of a \<open>\u\<close> escape with the digits \<open>a\<close>, and how many bytes of \<open>r\<close> behind it belong to it.\<close>

definition u_escape :: "nat \<Rightarrow> string \<Rightarrow> nat \<times> nat" where
  "u_escape a r =
     (if 0xD800 \<le> a \<and> a < 0xE000
      then (case getu4 r of
              None \<Rightarrow> (rune_error, 0)
            | Some b \<Rightarrow> (case surrogate_pair a b of None \<Rightarrow> (rune_error, 0) | Some x \<Rightarrow> (x, 6)))
      else (a, 0))"

definition simple_escape :: "char \<Rightarrow> char option" where
  "simple_escape e =
     (if e = dquote \<or> e = backslash \<or> e = CHR ''/'' then Some e
      else if e = CHR ''b'' then Some (CHR 0x08)
      else if e = CHR ''f'' then Some (CHR 0x0C)
      else if e = CHR ''n'' then Some (CHR 0x0A)
      else if e = CHR ''r'' then Some (CHR 0x0D)
      else if e = CHR ''t'' then Some (CHR 0x09)
      else None)"

definition prepend :: "string \<Rightarrow> (string \<times> 'a) option \<Rightarrow> (string \<times> 'a) option" where
  "prepend p r = map_option (\<lambda>(s, x). (p @ s, x)) r"

text \<open>After the opening quote: the string's value and the text behind the closing quote.\<close>

function read_str :: "string \<Rightarrow> (string \<times> string) option" where
  "read_str [] = None"
| "read_str (c # cs) =
     (if c = dquote then Some ([], cs)
      else if c = backslash then
        (case cs of
           [] \<Rightarrow> None
         | e # es \<Rightarrow>
             (case simple_escape e of
                Some x \<Rightarrow> prepend [x] (read_str es)
              | None \<Rightarrow>
                  if e = CHR ''u'' then
                    (case hex4 es of
                       None \<Rightarrow> None
                     | Some a \<Rightarrow>
                         (let r = drop 4 es
                          in prepend (encode_rune (fst (u_escape a r))) (read_str (drop (snd (u_escape a r)) r))))
                  else None))
      else if byte_val c < 0x20 then None
      else if byte_val c < 0x80 then prepend [c] (read_str cs)
      else prepend (encode_rune (fst (decode_rune (c # cs)))) (read_str (drop (snd (decode_rune (c # cs))) (c # cs))))"
  by pat_completeness auto
termination
  using decode_width(1) by (relation "measure length") (auto intro!: diff_less)

declare read_str.simps [simp del]

subsection \<open>Values\<close>

definition max_depth :: nat where "max_depth = 10000"

fun parse_value :: "nat \<Rightarrow> nat \<Rightarrow> string \<Rightarrow> (json \<times> string) option"
  and parse_elems :: "nat \<Rightarrow> nat \<Rightarrow> string \<Rightarrow> (json list \<times> string) option"
  and parse_members :: "nat \<Rightarrow> nat \<Rightarrow> string \<Rightarrow> ((string \<times> json) list \<times> string) option"
where
  "parse_value 0 d s = None"
| "parse_value (Suc n) d s =
     (case skip_ws s of
        [] \<Rightarrow> None
      | c # cs \<Rightarrow>
          if c = dquote then map_option (\<lambda>(t, r). (JStr t, r)) (read_str cs)
          else if c = CHR ''{'' then
            (if d \<ge> max_depth then None
             else case skip_ws cs of
               [] \<Rightarrow> None
             | e # es \<Rightarrow>
                 if e = CHR ''}'' then Some (JObj [], es)
                 else map_option (\<lambda>(ms, r). (JObj ms, r)) (parse_members n (Suc d) (e # es)))
          else if c = CHR ''['' then
            (if d \<ge> max_depth then None
             else case skip_ws cs of
               [] \<Rightarrow> None
             | e # es \<Rightarrow>
                 if e = CHR '']'' then Some (JArr [], es)
                 else map_option (\<lambda>(xs, r). (JArr xs, r)) (parse_elems n (Suc d) (e # es)))
          else if c = CHR ''t'' then map_option (Pair (JBool True)) (scan_lit ''true'' (c # cs))
          else if c = CHR ''f'' then map_option (Pair (JBool False)) (scan_lit ''false'' (c # cs))
          else if c = CHR ''n'' then map_option (Pair JNull) (scan_lit ''null'' (c # cs))
          else map_option (\<lambda>r. (JLit (take (length (c # cs) - length r) (c # cs)), r)) (scan_num (c # cs)))"
| "parse_elems 0 d s = None"
| "parse_elems (Suc n) d s =
     (case parse_value n d s of
        None \<Rightarrow> None
      | Some (x, r) \<Rightarrow>
          (case skip_ws r of
             [] \<Rightarrow> None
           | e # es \<Rightarrow>
               if e = CHR '','' then map_option (\<lambda>(xs, r'). (x # xs, r')) (parse_elems n d es)
               else if e = CHR '']'' then Some ([x], es) else None))"
| "parse_members 0 d s = None"
| "parse_members (Suc n) d s =
     (case skip_ws s of
        [] \<Rightarrow> None
      | c # cs \<Rightarrow>
          if c \<noteq> dquote then None
          else (case read_str cs of
            None \<Rightarrow> None
          | Some (k, r) \<Rightarrow>
              (case skip_ws r of
                 [] \<Rightarrow> None
               | e # es \<Rightarrow>
                   if e \<noteq> CHR '':'' then None
                   else (case parse_value n d es of
                     None \<Rightarrow> None
                   | Some (x, r') \<Rightarrow>
                       (case skip_ws r' of
                          [] \<Rightarrow> None
                        | f # fs \<Rightarrow>
                            if f = CHR '','' then map_option (\<lambda>(ms, rest). ((k, x) # ms, rest)) (parse_members n d fs)
                            else if f = CHR ''}'' then Some ([(k, x)], fs) else None)))))"

definition json_read :: "string \<Rightarrow> (json \<times> string) option" where
  "json_read s = parse_value (2 * length s + 2) 0 s"

text \<open>\<open>json.Unmarshal\<close> first checks that the whole text is one value.\<close>

definition json_parse :: "string \<Rightarrow> json option" where
  "json_parse s =
     (case json_read s of
        None \<Rightarrow> None
      | Some (j, r) \<Rightarrow> if skip_ws r = [] then Some j else None)"

text \<open>
  \<open>Decoder.Decode\<close> on a stream reads one value and leaves the rest. An object or array ends by itself;
  any other value needs the byte behind it, or the end of the stream.
\<close>

definition json_decode_stream :: "bytes \<times> string option \<Rightarrow> json option" where
  "json_decode_stream b =
     (case json_read (fst b) of
        None \<Rightarrow> None
      | Some (j, r) \<Rightarrow>
          if r = [] \<and> snd b \<noteq> None \<and> (case j of JObj _ \<Rightarrow> False | JArr _ \<Rightarrow> False | _ \<Rightarrow> True) then None
          else Some j)"

subsection \<open>Into the fields of a struct\<close>

text \<open>
  \<open>foldName\<close>: keys match field names up to case. Of the runes beyond ASCII only the long s and the Kelvin
  sign fold to an ASCII letter, and the field names are ASCII.
\<close>

definition fold_rune :: "nat \<Rightarrow> nat" where
  "fold_rune r =
     (if 97 \<le> r \<and> r \<le> 122 then r - 32 else if r = 0x17F then 83 else if r = 0x212A then 75 else r)"

definition same_key :: "string \<Rightarrow> string \<Rightarrow> bool" where
  "same_key name k \<longleftrightarrow> map (fold_rune \<circ> fst) (runes k) = map (fold_rune \<circ> fst) (runes name)"

text \<open>Storing a value: \<open>null\<close> leaves the field, a value of another kind is an error.\<close>

definition set_string :: "json \<Rightarrow> string \<Rightarrow> string option" where
  "set_string j old = (case j of JNull \<Rightarrow> Some old | JStr s \<Rightarrow> Some s | _ \<Rightarrow> None)"

definition set_int64 :: "json \<Rightarrow> int64 \<Rightarrow> int64 option" where
  "set_int64 j old =
     (case j of JNull \<Rightarrow> Some old | JLit t \<Rightarrow> map_option word_of_int (Atoi t) | _ \<Rightarrow> None)"

text \<open>
  A number stored in an interface is a \<open>float64\<close>, an error when it rounds beyond the largest one. Its
  literal is its sign, digits, decimal places and exponent.
\<close>

definition lit_value :: "string \<Rightarrow> nat \<times> int" where
  "lit_value t =
     (let s = (if t \<noteq> [] \<and> hd t = CHR ''-'' then tl t else t);
          ip = takeWhile is_dec s; s1 = dropWhile is_dec s;
          fp = (if s1 \<noteq> [] \<and> hd s1 = CHR ''.'' then takeWhile is_dec (tl s1) else []);
          s2 = (if s1 \<noteq> [] \<and> hd s1 = CHR ''.'' then dropWhile is_dec (tl s1) else s1);
          neg = (length s2 > 1 \<and> s2 ! 1 = CHR ''-'');
          ds = filter is_dec s2;
          e = (case dec_read 0 ds of None \<Rightarrow> 0 | Some e \<Rightarrow> if neg then - int e else int e)
      in (case dec_read 0 (ip @ fp) of None \<Rightarrow> 0 | Some m \<Rightarrow> m, e - int (length fp)))"

definition float64_overflows :: "string \<Rightarrow> bool" where
  "float64_overflows t =
     (let (m, e) = lit_value t; bound = 2 ^ 1024 - 2 ^ 970
      in if e \<ge> 0 then m * 10 ^ nat e \<ge> bound else m \<ge> bound * 10 ^ nat (- e))"

text \<open>Values of type \<open>interface{}\<close> and the entries of a \<open>map[string]interface{}\<close>: a later key wins.\<close>

fun to_interface :: "json \<Rightarrow> json option"
  and to_interfaces :: "json list \<Rightarrow> json list option"
  and to_entries :: "(string \<times> json) list \<Rightarrow> (string, json) gomap \<Rightarrow> (string, json) gomap option"
where
  "to_interface (JLit t) = (if float64_overflows t then None else Some (JLit t))"
| "to_interface (JArr xs) = map_option JArr (to_interfaces xs)"
| "to_interface (JObj ms) = map_option JObj (to_entries ms [])"
| "to_interface JNull = Some JNull"
| "to_interface (JBool b) = Some (JBool b)"
| "to_interface (JNum i) = Some (JNum i)"
| "to_interface (JDec i k) = Some (JDec i k)"
| "to_interface (JStr s) = Some (JStr s)"
| "to_interfaces [] = Some []"
| "to_interfaces (x # xs) =
     (case (to_interface x, to_interfaces xs) of (Some y, Some ys) \<Rightarrow> Some (y # ys) | _ \<Rightarrow> None)"
| "to_entries [] m = Some m"
| "to_entries ((k, x) # ms) m =
     (case to_interface x of None \<Rightarrow> None | Some y \<Rightarrow> to_entries ms (gm_put m k y))"

text \<open>A map field: \<open>null\<close> sets it to nil, an object is added to what it holds.\<close>

definition set_map :: "json \<Rightarrow> (string, json) gomap \<Rightarrow> (string, json) gomap option" where
  "set_map j old = (case j of JNull \<Rightarrow> Some [] | JObj ms \<Rightarrow> to_entries ms old | _ \<Rightarrow> None)"

text \<open>The members in order; \<open>store\<close> is what the struct does with one, unknown keys are skipped.\<close>

fun fold_members :: "(string \<Rightarrow> json \<Rightarrow> 's \<Rightarrow> 's option) \<Rightarrow> (string \<times> json) list \<Rightarrow> 's \<Rightarrow> 's option" where
  "fold_members store [] s = Some s"
| "fold_members store ((k, x) # ms) s =
     (case store k x s of None \<Rightarrow> None | Some s' \<Rightarrow> fold_members store ms s')"

definition to_struct :: "(string \<Rightarrow> json \<Rightarrow> 's \<Rightarrow> 's option) \<Rightarrow> json \<Rightarrow> 's \<Rightarrow> 's option" where
  "to_struct store j s = (case j of JNull \<Rightarrow> Some s | JObj ms \<Rightarrow> fold_members store ms s | _ \<Rightarrow> None)"

subsection \<open>Printing\<close>

definition hex_lower :: "nat \<Rightarrow> char" where
  "hex_lower n = char_of (if n < 10 then 48 + n else 87 + n)"

definition esc_char :: "char \<Rightarrow> string" where
  "esc_char c =
     (let n = byte_val c in
      if c = dquote \<or> c = backslash then [backslash, c]
      else if n = 8 then [backslash, CHR ''b'']
      else if n = 12 then [backslash, CHR ''f'']
      else if n = 10 then [backslash, CHR ''n'']
      else if n = 13 then [backslash, CHR ''r'']
      else if n = 9 then [backslash, CHR ''t'']
      else if n < 32 \<or> c = CHR ''<'' \<or> c = CHR ''>'' \<or> c = CHR ''&''
      then backslash # ''u00'' @ [hex_lower (n div 16), hex_lower (n mod 16)]
      else [c])"

definition esc_rune :: "rune \<Rightarrow> string" where
  "esc_rune rb =
     (let r = fst rb in
      if r < 0x80 then esc_char (char_of r)
      else if r = rune_error \<and> length (snd rb) = 1 then backslash # ''ufffd''
      else if r = 0x2028 then backslash # ''u2028''
      else if r = 0x2029 then backslash # ''u2029''
      else snd rb)"

definition json_quote :: "string \<Rightarrow> string" where
  "json_quote s = dquote # concat (map esc_rune (runes s)) @ [dquote]"

definition frac_text :: "int \<Rightarrow> nat \<Rightarrow> string" where
  "frac_text i k =
     (let a = nat \<bar>i\<bar>; q = a div 10 ^ k; r = a mod 10 ^ k;
          ds = dec_nat r; pad = replicate (k - length ds) (CHR ''0'') @ ds
      in (if i < 0 then ''-'' else []) @ dec_nat q
         @ (if r = 0 then [] else CHR ''.'' # rev (dropWhile (\<lambda>c. c = CHR ''0'') (rev pad))))"

text \<open>\<open>nl k\<close> is the line break before level \<open>k\<close>, \<open>sep\<close> follows the colon: both empty for \<open>Marshal\<close>.\<close>

fun jprint :: "(nat \<Rightarrow> string) \<Rightarrow> string \<Rightarrow> nat \<Rightarrow> json \<Rightarrow> string"
  and jprint_elems :: "(nat \<Rightarrow> string) \<Rightarrow> string \<Rightarrow> nat \<Rightarrow> json list \<Rightarrow> string"
  and jprint_members :: "(nat \<Rightarrow> string) \<Rightarrow> string \<Rightarrow> nat \<Rightarrow> (string \<times> json) list \<Rightarrow> string"
where
  "jprint nl sep k JNull = ''null''"
| "jprint nl sep k (JBool b) = (if b then ''true'' else ''false'')"
| "jprint nl sep k (JNum i) = dec_int i"
| "jprint nl sep k (JDec i p) = frac_text i p"
| "jprint nl sep k (JLit t) = t"
| "jprint nl sep k (JStr s) = json_quote s"
| "jprint nl sep k (JArr xs) =
     (if xs = [] then ''[]'' else ''['' @ nl (Suc k) @ jprint_elems nl sep (Suc k) xs @ nl k @ '']'')"
| "jprint nl sep k (JObj ms) =
     (if ms = [] then ''{}'' else ''{'' @ nl (Suc k) @ jprint_members nl sep (Suc k) ms @ nl k @ ''}'')"
| "jprint_elems nl sep k [] = []"
| "jprint_elems nl sep k (x # xs) =
     jprint nl sep k x @ (if xs = [] then [] else '','' @ nl k @ jprint_elems nl sep k xs)"
| "jprint_members nl sep k [] = []"
| "jprint_members nl sep k ((key, x) # ms) =
     json_quote key @ '':'' @ sep @ jprint nl sep k x
     @ (if ms = [] then [] else '','' @ nl k @ jprint_members nl sep k ms)"

definition json_Marshal :: "json \<Rightarrow> string" where
  "json_Marshal j = jprint (\<lambda>k. []) [] 0 j"

text \<open>\<open>MarshalIndent\<close> with an empty prefix and two spaces.\<close>

definition json_MarshalIndent :: "json \<Rightarrow> string" where
  "json_MarshalIndent j = jprint (\<lambda>k. CHR 0x0A # replicate (2 * k) (CHR '' '')) '' '' 0 j"


subsection \<open>Lemmas: printed strings are read back\<close>

lemma prepend_simps [simp]: "prepend p None = None" "prepend p (Some (s, r)) = Some (p @ s, r)"
  by (simp_all add: prepend_def)

lemma read_escape:
  "read_str (backslash # e # es) =
     (case simple_escape e of
        Some x \<Rightarrow> prepend [x] (read_str es)
      | None \<Rightarrow>
          if e = CHR ''u'' then
            (case hex4 es of
               None \<Rightarrow> None
             | Some a \<Rightarrow>
                 (let r = drop 4 es
                  in prepend (encode_rune (fst (u_escape a r))) (read_str (drop (snd (u_escape a r)) r))))
          else None)"
proof -
  have "backslash \<noteq> dquote" by (simp add: backslash_def dquote_def)
  then show ?thesis by (simp add: read_str.simps(2) Let_def)
qed

lemma hex_lower_facts:
  "n < 16 \<Longrightarrow> is_hex (hex_lower n) \<and> hex_digit_val (hex_lower n) = n"
  by (auto simp: hex_lower_def is_hex_def is_dec_def hex_digit_val_def Let_def)

lemma read_u00:
  assumes "n < 128"
  shows "read_str (backslash # ''u00'' @ [hex_lower (n div 16), hex_lower (n mod 16)] @ r)
     = prepend [char_of n] (read_str r)"
proof -
  have d: "n div 16 < 16" "n mod 16 < 16" using assms by simp_all
  note h = hex_lower_facts [OF d(1)] hex_lower_facts [OF d(2)]
  have z: "is_hex (CHR ''0'')" "hex_digit_val (CHR ''0'') = 0" by (simp_all add: is_hex_def is_dec_def hex_digit_val_def)
  have "hex4 (CHR ''0'' # CHR ''0'' # hex_lower (n div 16) # hex_lower (n mod 16) # r) = Some n"
    using h z by (simp add: hex4_def)
  moreover have "simple_escape (CHR ''u'') = None"
    by (simp add: simple_escape_def dquote_def backslash_def)
  moreover have "u_escape n t = (n, 0)" for t using assms by (simp add: u_escape_def)
  moreover have "encode_rune n = [char_of n]" using assms by (simp add: encode_rune_def)
  ultimately show ?thesis by (simp add: read_escape)
qed

lemma read_esc_char:
  assumes "ascii c"
  shows "read_str (esc_char c @ r) = prepend [c] (read_str r)"
proof -
  define n where "n = byte_val c"
  have n: "n < 128" and c: "c = char_of n" using assms by (simp_all add: ascii_def n_def)
  have lits: "char_of (8 :: nat) = CHR 0x08" "char_of (12 :: nat) = CHR 0x0C" "char_of (10 :: nat) = CHR 0x0A"
    "char_of (13 :: nat) = CHR 0x0D" "char_of (9 :: nat) = CHR 0x09"
    by (simp_all add: char_of_eq_iff take_bit_eq_mod)
  have se: "simple_escape dquote = Some dquote" "simple_escape backslash = Some backslash"
    "simple_escape (CHR ''b'') = Some (CHR 0x08)" "simple_escape (CHR ''f'') = Some (CHR 0x0C)"
    "simple_escape (CHR ''n'') = Some (CHR 0x0A)" "simple_escape (CHR ''r'') = Some (CHR 0x0D)"
    "simple_escape (CHR ''t'') = Some (CHR 0x09)"
    by (simp_all add: simple_escape_def dquote_def backslash_def)
  consider "c = dquote \<or> c = backslash" | "c \<noteq> dquote" "c \<noteq> backslash" "n \<in> {8, 9, 10, 12, 13}"
    | "c \<noteq> dquote" "c \<noteq> backslash" "n \<notin> {8, 9, 10, 12, 13}"
      "n < 32 \<or> c = CHR ''<'' \<or> c = CHR ''>'' \<or> c = CHR ''&''"
    | "c \<noteq> dquote" "c \<noteq> backslash" "n \<notin> {8, 9, 10, 12, 13}"
      "\<not> (n < 32 \<or> c = CHR ''<'' \<or> c = CHR ''>'' \<or> c = CHR ''&'')"
    by blast
  then show ?thesis
  proof cases
    case 1
    then show ?thesis by (auto simp: esc_char_def Let_def read_escape se)
  next
    case 2
    then show ?thesis
      by (auto simp: esc_char_def n_def [symmetric] Let_def read_escape se c lits)
  next
    case 3
    then have "esc_char c = backslash # ''u00'' @ [hex_lower (n div 16), hex_lower (n mod 16)]"
      by (auto simp: esc_char_def n_def [symmetric] Let_def)
    then show ?thesis using read_u00 [OF n, of r] c by simp
  next
    case 4
    then have "esc_char c = [c]" by (auto simp: esc_char_def n_def [symmetric] Let_def)
    then show ?thesis using 4 n by (simp add: read_str.simps(2) n_def)
  qed
qed

definition ascii_text :: "string \<Rightarrow> bool" where
  "ascii_text s \<longleftrightarrow> (\<forall>c \<in> set s. ascii c)"

lemma read_quoted:
  assumes "ascii_text s"
  shows "read_str (concat (map esc_rune (runes s)) @ dquote # r) = Some (s, r)"
proof -
  have "runes s = map (\<lambda>c. (byte_val c, [c])) s" using assms by (simp add: ascii_text_def runes_all_ascii)
  moreover have "\<forall>c \<in> set s. esc_rune (byte_val c, [c]) = esc_char c"
    using assms by (simp add: esc_rune_def ascii_text_def ascii_def)
  ultimately have "concat (map esc_rune (runes s)) = concat (map esc_char s)"
    by (simp add: comp_def cong: map_cong)
  moreover have "read_str (concat (map esc_char s) @ dquote # r) = Some (s, r)"
    using assms
  proof (induction s)
    case Nil
    then show ?case by (simp add: read_str.simps(2))
  next
    case (Cons c s)
    then show ?case by (simp add: read_esc_char ascii_text_def)
  qed
  ultimately show ?thesis by simp
qed

subsection \<open>Lemmas: printed numbers are read back\<close>

text \<open>What may follow a number.\<close>

definition ends_number :: "string \<Rightarrow> bool" where
  "ends_number r \<longleftrightarrow>
     (r = [] \<or> \<not> is_dec (hd r) \<and> hd r \<noteq> CHR ''.'' \<and> hd r \<noteq> CHR ''e'' \<and> hd r \<noteq> CHR ''E'')"

lemma dec_nat_zero_head: "hd (dec_nat n) = CHR ''0'' \<longleftrightarrow> n = 0"
proof (induction n rule: dec_nat.induct)
  case (1 n)
  show ?case
  proof (cases "n < 10")
    case True
    then show ?thesis
      by (subst dec_nat.simps) (auto simp: digit_char_def char_of_eq_iff take_bit_eq_mod)
  next
    case False
    then have "n div 10 \<noteq> 0" by (simp add: div_eq_0_iff)
    with 1 False show ?thesis by (subst dec_nat.simps) (simp add: hd_append)
  qed
qed

lemma dropWhile_dec_nat: "ends_number r \<Longrightarrow> dropWhile is_dec (dec_nat n @ r) = r"
proof -
  assume "ends_number r"
  then have "dropWhile is_dec r = r" by (cases r) (auto simp: ends_number_def)
  moreover have "\<forall>c \<in> set (dec_nat n). is_dec c" using set_dec_nat by blast
  ultimately show ?thesis by (simp add: dropWhile_append2)
qed

lemma scan_rest: "ends_number r \<Longrightarrow> scan_frac r = Some r \<and> scan_exp r = Some r"
  by (auto simp: ends_number_def scan_frac_def scan_exp_def)

lemma scan_num_dec_nat:
  assumes "ends_number r"
  shows "(case (if dec_nat n @ r \<noteq> [] \<and> hd (dec_nat n @ r) = CHR ''0'' then Some (tl (dec_nat n @ r))
           else scan_digits (dec_nat n @ r)) of
        None \<Rightarrow> None
      | Some r \<Rightarrow> (case scan_frac r of None \<Rightarrow> None | Some r' \<Rightarrow> scan_exp r')) = Some r"
proof (cases "n = 0")
  case True
  then have "dec_nat n = ''0''" by (simp add: dec_nat.simps digit_char_def char_of_eq_iff take_bit_eq_mod)
  then show ?thesis using scan_rest [OF assms] by simp
next
  case False
  then have "hd (dec_nat n @ r) \<noteq> CHR ''0''" using dec_nat_zero_head [of n] by simp
  moreover have "scan_digits (dec_nat n @ r) = Some r"
    using hd_dec_nat [of n] dropWhile_dec_nat [OF assms, of n] by (simp add: scan_digits_def)
  ultimately show ?thesis using scan_rest [OF assms] by simp
qed

lemma scan_num_dec_int:
  assumes "ends_number r"
  shows "scan_num (dec_int i @ r) = Some r"
proof (cases "i < 0")
  case True
  then show ?thesis using scan_num_dec_nat [OF assms, of "nat (- i)"] by (simp add: scan_num_def dec_int_def Let_def)
next
  case False
  have "hd (dec_nat (nat i)) \<noteq> CHR ''-''" using hd_dec_nat [of "nat i"] by (auto simp: is_dec_def)
  then show ?thesis
    using False scan_num_dec_nat [OF assms, of "nat i"] by (simp add: scan_num_def dec_int_def Let_def)
qed


subsection \<open>Lemmas: printed trees are read back\<close>

text \<open>A printed integer comes back as its literal. A plain tree has ASCII strings and integers only.\<close>

fun json_lits :: "json \<Rightarrow> json"
  and elems_lits :: "json list \<Rightarrow> json list"
  and members_lits :: "(string \<times> json) list \<Rightarrow> (string \<times> json) list"
where
  "json_lits (JNum i) = JLit (dec_int i)"
| "json_lits (JArr xs) = JArr (elems_lits xs)"
| "json_lits (JObj ms) = JObj (members_lits ms)"
| "json_lits JNull = JNull"
| "json_lits (JBool b) = JBool b"
| "json_lits (JDec i k) = JDec i k"
| "json_lits (JLit t) = JLit t"
| "json_lits (JStr s) = JStr s"
| "elems_lits [] = []"
| "elems_lits (x # xs) = json_lits x # elems_lits xs"
| "members_lits [] = []"
| "members_lits ((k, x) # ms) = (k, json_lits x) # members_lits ms"

fun plain :: "json \<Rightarrow> bool"
  and plain_elems :: "json list \<Rightarrow> bool"
  and plain_members :: "(string \<times> json) list \<Rightarrow> bool"
where
  "plain (JNum i) = True"
| "plain (JArr xs) = plain_elems xs"
| "plain (JObj ms) = plain_members ms"
| "plain JNull = True"
| "plain (JBool b) = True"
| "plain (JDec i k) = False"
| "plain (JLit t) = False"
| "plain (JStr s) = ascii_text s"
| "plain_elems [] = True"
| "plain_elems (x # xs) = (plain x \<and> plain_elems xs)"
| "plain_members [] = True"
| "plain_members ((k, x) # ms) = (ascii_text k \<and> plain x \<and> plain_members ms)"

fun json_depth :: "json \<Rightarrow> nat"
  and elems_depth :: "json list \<Rightarrow> nat"
  and members_depth :: "(string \<times> json) list \<Rightarrow> nat"
where
  "json_depth (JArr xs) = Suc (elems_depth xs)"
| "json_depth (JObj ms) = Suc (members_depth ms)"
| "json_depth (JNum i) = 0"
| "json_depth JNull = 0"
| "json_depth (JBool b) = 0"
| "json_depth (JDec i k) = 0"
| "json_depth (JLit t) = 0"
| "json_depth (JStr s) = 0"
| "elems_depth [] = 0"
| "elems_depth (x # xs) = max (json_depth x) (elems_depth xs)"
| "members_depth [] = 0"
| "members_depth ((k, x) # ms) = max (json_depth x) (members_depth ms)"

fun json_fuel :: "json \<Rightarrow> nat"
  and elems_fuel :: "json list \<Rightarrow> nat"
  and members_fuel :: "(string \<times> json) list \<Rightarrow> nat"
where
  "json_fuel (JArr xs) = Suc (elems_fuel xs)"
| "json_fuel (JObj ms) = Suc (members_fuel ms)"
| "json_fuel (JNum i) = 1"
| "json_fuel JNull = 1"
| "json_fuel (JBool b) = 1"
| "json_fuel (JDec i k) = 1"
| "json_fuel (JLit t) = 1"
| "json_fuel (JStr s) = 1"
| "elems_fuel [] = 0"
| "elems_fuel (x # xs) = Suc (json_fuel x + elems_fuel xs)"
| "members_fuel [] = 0"
| "members_fuel ((k, x) # ms) = Suc (json_fuel x + members_fuel ms)"

definition blank :: "string \<Rightarrow> bool" where
  "blank w \<longleftrightarrow> (\<forall>c \<in> set w. json_ws c)"

lemma skip_blank: "blank w \<Longrightarrow> skip_ws (w @ s) = skip_ws s"
  by (simp add: skip_ws_def blank_def dropWhile_append2)

lemma skip_at: "\<not> json_ws c \<Longrightarrow> skip_ws (c # s) = c # s"
  by (simp add: skip_ws_def)

lemma punct_facts:
  "\<not> json_ws dquote" "\<not> json_ws (CHR ''{'')" "\<not> json_ws (CHR ''['')" "\<not> json_ws (CHR ''}'')"
  "\<not> json_ws (CHR '']'')" "\<not> json_ws (CHR '','')" "\<not> json_ws (CHR '':'')" "\<not> json_ws (CHR ''t'')"
  "\<not> json_ws (CHR ''f'')" "\<not> json_ws (CHR ''n'')" "\<not> json_ws (CHR ''-'')"
  by (simp_all add: json_ws_def dquote_def)

lemma dec_char_facts:
  "is_dec c \<Longrightarrow> \<not> json_ws c \<and> c \<noteq> dquote \<and> c \<noteq> CHR ''{'' \<and> c \<noteq> CHR ''['' \<and> c \<noteq> CHR ''t'' \<and> c \<noteq> CHR ''f''
     \<and> c \<noteq> CHR ''n''"
  by (auto simp: is_dec_def json_ws_def dquote_def)

lemma ends_number_blank:
  assumes "blank w" and "ends_number (c # r)"
  shows "ends_number (w @ c # r)"
proof (cases w)
  case Nil
  then show ?thesis using assms(2) by simp
next
  case (Cons x xs)
  then have "json_ws x" using assms(1) by (simp add: blank_def)
  then show ?thesis using Cons by (auto simp: ends_number_def json_ws_def is_dec_def)
qed

lemma ends_punct: "ends_number (CHR '','' # r)" "ends_number (CHR '']'' # r)" "ends_number (CHR ''}'' # r)"
  by (simp_all add: ends_number_def is_dec_def)

lemma parse_number:
  assumes "ends_number r" and "blank w"
  shows "parse_value (Suc n) d (w @ dec_int i @ r) = Some (JLit (dec_int i), r)"
proof -
  obtain c cs where c: "dec_int i = c # cs" by (cases "dec_int i") (auto simp: dec_int_def split: if_splits)
  have "is_dec c \<or> c = CHR ''-''" using c hd_dec_nat [of "nat i"] by (auto simp: dec_int_def split: if_splits)
  then have f: "\<not> json_ws c \<and> c \<noteq> dquote \<and> c \<noteq> CHR ''{'' \<and> c \<noteq> CHR ''['' \<and> c \<noteq> CHR ''t'' \<and> c \<noteq> CHR ''f''
      \<and> c \<noteq> CHR ''n''"
    using dec_char_facts [of c] punct_facts(11) by (auto simp: dquote_def)
  have s: "skip_ws (w @ c # cs @ r) = c # cs @ r" using f by (simp add: skip_blank [OF assms(2)] skip_at)
  have n: "scan_num (c # cs @ r) = Some r" using scan_num_dec_int [OF assms(1), of i] c by simp
  show ?thesis using f s n by (simp add: c)
qed

lemma parse_elems_skip: "parse_elems n d s = parse_elems n d (skip_ws s)"
proof -
  have "skip_ws (skip_ws s) = skip_ws s" by (simp add: skip_ws_def)
  then have "parse_value m d s = parse_value m d (skip_ws s)" for m by (cases m) simp_all
  then show ?thesis by (cases n) simp_all
qed

lemma parse_elems_start:
  assumes "parse_elems n d s = Some y"
  shows "\<exists>e es. skip_ws s = e # es \<and> e \<noteq> CHR '']'' \<and> parse_elems n d (e # es) = Some y"
proof -
  have p: "parse_elems n d (skip_ws s) = Some y" using assms parse_elems_skip by simp
  obtain m where n: "n = Suc m" using assms by (cases n) auto
  then obtain v where "parse_value m d (skip_ws s) = Some v" using p by (auto split: option.splits)
  then obtain l where l: "parse_value (Suc l) d (skip_ws s) = Some v" by (cases m) auto
  have i: "skip_ws (skip_ws s) = skip_ws s" by (simp add: skip_ws_def)
  obtain e es where e: "skip_ws s = e # es" using l i by (cases "skip_ws s") simp_all
  have "e \<noteq> CHR '']''"
  proof
    assume "e = CHR '']''"
    then show False
      using l i e by (simp add: dquote_def scan_num_def scan_digits_def is_dec_def)
  qed
  then show ?thesis using e p by simp
qed

lemma parse_members_start:
  assumes "parse_members n d s = Some y"
  shows "\<exists>e es. skip_ws s = e # es \<and> e \<noteq> CHR ''}'' \<and> parse_members n d (e # es) = Some y"
proof -
  obtain m where n: "n = Suc m" using assms by (cases n) auto
  obtain es where e: "skip_ws s = dquote # es"
    using assms n by (auto split: list.splits if_splits)
  then have "parse_members n d (dquote # es) = Some y"
    using assms n by (simp add: skip_at punct_facts)
  then show ?thesis using e by (auto simp: dquote_def)
qed

lemma parse_printed:
  assumes nl: "\<forall>k. blank (nl k)" and sep: "blank sep"
  shows "plain j \<Longrightarrow> d + json_depth j \<le> max_depth \<Longrightarrow> json_fuel j \<le> n \<Longrightarrow> ends_number r \<Longrightarrow> blank w \<Longrightarrow>
      parse_value n d (w @ jprint nl sep k j @ r) = Some (json_lits j, r)"
    and "xs \<noteq> [] \<Longrightarrow> plain_elems xs \<Longrightarrow> d + elems_depth xs \<le> max_depth \<Longrightarrow> elems_fuel xs \<le> n \<Longrightarrow> blank w \<Longrightarrow> blank v \<Longrightarrow>
      parse_elems n d (w @ jprint_elems nl sep k xs @ v @ CHR '']'' # r) = Some (elems_lits xs, r)"
    and "ms \<noteq> [] \<Longrightarrow> plain_members ms \<Longrightarrow> d + members_depth ms \<le> max_depth \<Longrightarrow> members_fuel ms \<le> n \<Longrightarrow> blank w \<Longrightarrow> blank v \<Longrightarrow>
      parse_members n d (w @ jprint_members nl sep k ms @ v @ CHR ''}'' # r) = Some (members_lits ms, r)"
  using nl sep
proof (induction nl sep k j and nl sep k xs and nl sep k ms arbitrary: d n r w and d n r w v and d n r w v
    rule: jprint_jprint_elems_jprint_members.induct)
  case (1 nl sep k)
  then obtain m where "n = Suc m" by (cases n) auto
  then show ?case using 1 by (simp add: skip_blank skip_at punct_facts scan_lit_def dquote_def)
next
  case (2 nl sep k b)
  then obtain m where "n = Suc m" by (cases n) auto
  then show ?case using 2 by (cases b) (simp_all add: skip_blank skip_at punct_facts scan_lit_def dquote_def)
next
  case (3 nl sep k i)
  then obtain m where "n = Suc m" by (cases n) auto
  then show ?case using 3 parse_number by simp
next
  case (4 nl sep k i p)
  then show ?case by simp
next
  case (5 nl sep k t)
  then show ?case by simp
next
  case (6 nl sep k s)
  then obtain m where "n = Suc m" by (cases n) auto
  then show ?case
    using 6 read_quoted [of s r] by (simp add: skip_blank skip_at punct_facts json_quote_def)
next
  case (7 nl sep k xs)
  then obtain m where m: "n = Suc m" by (cases n) auto
  have d: "\<not> d \<ge> max_depth" using 7(3) by simp
  show ?case
  proof (cases "xs = []")
    case True
    then show ?thesis using 7 m d by (simp add: skip_blank skip_at punct_facts dquote_def)
  next
    case False
    let ?t = "jprint_elems nl sep (Suc k) xs @ nl k @ CHR '']'' # r"
    have p: "parse_elems m (Suc d) (nl (Suc k) @ ?t) = Some (elems_lits xs, r)"
      using 7(1) [of "Suc d" m "nl (Suc k)" "nl k" r] 7(2-) False m by simp
    have "\<exists>e es. skip_ws (nl (Suc k) @ ?t) = e # es \<and> e \<noteq> CHR '']'' \<and> parse_elems m (Suc d) (e # es) = Some (elems_lits xs, r)"
      using parse_elems_start [OF p] .
    then show ?thesis
      using False m d 7(6) by (auto simp: skip_blank skip_at punct_facts dquote_def)
  qed
next
  case (8 nl sep k ms)
  then obtain m where m: "n = Suc m" by (cases n) auto
  have d: "\<not> d \<ge> max_depth" using 8(3) by simp
  show ?case
  proof (cases "ms = []")
    case True
    then show ?thesis using 8 m d by (simp add: skip_blank skip_at punct_facts dquote_def)
  next
    case False
    let ?t = "jprint_members nl sep (Suc k) ms @ nl k @ CHR ''}'' # r"
    have p: "parse_members m (Suc d) (nl (Suc k) @ ?t) = Some (members_lits ms, r)"
      using 8(1) [of "Suc d" m "nl (Suc k)" "nl k" r] 8(2-) False m by simp
    have "\<exists>e es. skip_ws (nl (Suc k) @ ?t) = e # es \<and> e \<noteq> CHR ''}'' \<and> parse_members m (Suc d) (e # es) = Some (members_lits ms, r)"
      using parse_members_start [OF p] .
    then show ?thesis
      using False m d 8(6) by (auto simp: skip_blank skip_at punct_facts dquote_def)
  qed
next
  case (9 nl sep k)
  then show ?case by simp
next
  case (10 nl sep k x xs)
  then obtain m where m: "n = Suc m" by (cases n) auto
  let ?rest = "(if xs = [] then [] else '','' @ nl k @ jprint_elems nl sep k xs) @ v @ CHR '']'' # r"
  have e: "ends_number ?rest"
    using 10(8) by (auto simp: ends_number_blank ends_punct)
  have v: "parse_value m d (w @ jprint nl sep k x @ ?rest) = Some (json_lits x, ?rest)"
    using 10(1) [of d m ?rest w] 10(4-) m e by simp
  show ?case
  proof (cases "xs = []")
    case True
    then show ?thesis using m v 10(8) by (simp add: skip_blank skip_at punct_facts)
  next
    case False
    have "parse_elems m d (nl k @ jprint_elems nl sep k xs @ v @ CHR '']'' # r) = Some (elems_lits xs, r)"
      using 10(2) [of d m "nl k" v r] 10(4-) m False by simp
    then show ?thesis using m v False by (simp add: skip_at punct_facts)
  qed
next
  case (11 nl sep k)
  then show ?case by simp
next
  case (12 nl sep k key x ms)
  then obtain m where m: "n = Suc m" by (cases n) auto
  let ?rest = "(if ms = [] then [] else '','' @ nl k @ jprint_members nl sep k ms) @ v @ CHR ''}'' # r"
  have e: "ends_number ?rest"
    using 12(8) by (auto simp: ends_number_blank ends_punct)
  have v: "parse_value m d (sep @ jprint nl sep k x @ ?rest) = Some (json_lits x, ?rest)"
    using 12(1) [of d m ?rest sep] 12(4-) m e by simp
  have q: "read_str (concat (map esc_rune (runes key)) @ dquote # CHR '':'' # sep @ jprint nl sep k x @ ?rest)
      = Some (key, CHR '':'' # sep @ jprint nl sep k x @ ?rest)"
    using 12(4) by (intro read_quoted) simp
  show ?case
  proof (cases "ms = []")
    case True
    then show ?thesis using m v q 12(7,8) by (simp add: skip_blank skip_at punct_facts json_quote_def)
  next
    case False
    have "parse_members m d (nl k @ jprint_members nl sep k ms @ v @ CHR ''}'' # r) = Some (members_lits ms, r)"
      using 12(2) [of d m "nl k" v r] 12(4-) m False by simp
    then show ?thesis using m v q False 12(7) by (simp add: skip_blank skip_at punct_facts json_quote_def)
  qed
qed


lemma dec_int_not_Nil [simp]: "dec_int i \<noteq> []"
  by (simp add: dec_int_def)

lemma fuel_bound:
  "plain j \<Longrightarrow> json_fuel j \<le> 2 * length (jprint nl sep k j)"
  "plain_elems xs \<Longrightarrow> elems_fuel xs \<le> 2 * length (jprint_elems nl sep k xs) + 1"
  "plain_members ms \<Longrightarrow> members_fuel ms \<le> 2 * length (jprint_members nl sep k ms) + 1"
proof (induction nl sep k j and nl sep k xs and nl sep k ms rule: jprint_jprint_elems_jprint_members.induct)
  case (3 nl sep k i)
  then show ?case by (cases "dec_int i") simp_all
next
  case (7 nl sep k xs)
  then show ?case by (cases "xs = []") simp_all
next
  case (8 nl sep k ms)
  then show ?case by (cases "ms = []") simp_all
next
  case (10 nl sep k x xs)
  then show ?case by (cases "xs = []") simp_all
next
  case (12 nl sep k key x ms)
  then show ?case by (cases "ms = []") (simp_all add: json_quote_def)
qed (simp_all add: json_quote_def)

lemma json_read_printed:
  assumes "\<forall>k. blank (nl k)" and "blank sep" and "plain j" and "json_depth j \<le> max_depth" and "ends_number r"
  shows "json_read (jprint nl sep 0 j @ r) = Some (json_lits j, r)"
proof -
  have "json_fuel j \<le> 2 * length (jprint nl sep 0 j @ r) + 2" using fuel_bound(1) [OF assms(3), of nl sep 0] by simp
  from parse_printed(1) [OF assms(1,2,3) _ this assms(5), of 0 "[]" 0] show ?thesis
    using assms(4) by (simp add: json_read_def blank_def)
qed

lemma json_parse_Marshal:
  assumes "plain j" and "json_depth j \<le> max_depth"
  shows "json_parse (json_Marshal j) = Some (json_lits j)"
  using json_read_printed [where nl = "\<lambda>k. []" and sep = "[]" and j = j and r = "[]"] assms
  by (simp add: json_parse_def json_Marshal_def blank_def ends_number_def skip_ws_def)

lemma json_parse_MarshalIndent:
  assumes "plain j" and "json_depth j \<le> max_depth"
  shows "json_parse (json_MarshalIndent j) = Some (json_lits j)"
proof -
  have "blank (CHR 0x0A # replicate n (CHR '' ''))" "blank '' ''" for n
    by (auto simp: blank_def json_ws_def)
  then show ?thesis
    using json_read_printed [where nl = "\<lambda>k. CHR 0x0A # replicate (2 * k) (CHR '' '')" and sep = "'' ''"
        and j = j and r = "[]"] assms
    by (simp add: json_parse_def json_MarshalIndent_def ends_number_def skip_ws_def)
qed

text \<open>A key of the field's own spelling matches it.\<close>

lemma same_key_refl [simp]: "same_key k k"
  by (simp add: same_key_def)

lemma same_key_ascii:
  "ascii_text k \<Longrightarrow> ascii_text name \<Longrightarrow>
     same_key name k \<longleftrightarrow> map (fold_rune \<circ> of_char) k = map (fold_rune \<circ> of_char) name"
  by (simp add: same_key_def ascii_text_def runes_all_ascii comp_def)

lemma ascii_text_simps [simp]:
  "ascii_text []" "ascii_text (c # s) \<longleftrightarrow> byte_val c < 128 \<and> ascii_text s"
  "ascii_text (s @ t) \<longleftrightarrow> ascii_text s \<and> ascii_text t"
  by (auto simp: ascii_text_def ascii_def)

lemma ascii_dec: "ascii_text (dec_nat n)" "ascii_text (dec_int i)"
proof -
  show n: "ascii_text (dec_nat n)" for n
    using set_dec_nat [of _ n] by (fastforce simp: ascii_text_def ascii_def is_dec_def)
  show "ascii_text (dec_int i)" using n by (simp add: dec_int_def)
qed

lemma ascii_quote: "ascii_text s \<Longrightarrow> ascii_text (json_quote s)"
proof -
  assume s: "ascii_text s"
  have hex: "n < 16 \<Longrightarrow> ascii (hex_lower n)" for n by (auto simp: hex_lower_def ascii_def)
  have "ascii_text (esc_char c)" if "ascii c" for c
    using that hex [of "byte_val c mod 16"] hex [of "byte_val c div 16"]
    by (auto simp: esc_char_def ascii_def Let_def backslash_def dquote_def)
  then have "ascii_text (esc_rune (byte_val c, [c]))" if "ascii c" for c
    using that by (simp add: esc_rune_def ascii_def)
  moreover have "runes s = map (\<lambda>c. (byte_val c, [c])) s" using s by (simp add: ascii_text_def runes_all_ascii)
  ultimately have "\<forall>t \<in> set (map esc_rune (runes s)). ascii_text t" using s by (auto simp: ascii_text_def)
  then show ?thesis by (auto simp: json_quote_def ascii_text_def ascii_def dquote_def)
qed

lemma ascii_print:
  "\<forall>k. ascii_text (nl k) \<Longrightarrow> ascii_text sep \<Longrightarrow> plain j \<Longrightarrow> ascii_text (jprint nl sep k j)"
  "\<forall>k. ascii_text (nl k) \<Longrightarrow> ascii_text sep \<Longrightarrow> plain_elems xs \<Longrightarrow> ascii_text (jprint_elems nl sep k xs)"
  "\<forall>k. ascii_text (nl k) \<Longrightarrow> ascii_text sep \<Longrightarrow> plain_members ms \<Longrightarrow> ascii_text (jprint_members nl sep k ms)"
  by (induction nl sep k j and nl sep k xs and nl sep k ms rule: jprint_jprint_elems_jprint_members.induct)
     (simp_all add: ascii_quote ascii_dec)

lemma ascii_Marshal: "plain j \<Longrightarrow> ascii_text (json_Marshal j)"
  by (simp add: json_Marshal_def ascii_print)


subsection \<open>The fuel is enough\<close>

text \<open>Every read consumes text.\<close>

lemma skip_ws_length: "length (skip_ws s) \<le> length s"
  by (simp add: skip_ws_def length_dropWhile_le)

lemma skip_ws_shorter: "skip_ws s = c # cs \<Longrightarrow> length cs < length s"
  using skip_ws_length [of s] by simp

lemma read_str_shorter: "read_str s = Some (t, r) \<Longrightarrow> length r < length s"
proof (induction s arbitrary: t r rule: length_induct)
  case (1 s)
  have ih: "prepend p (read_str u) = Some (t, r) \<Longrightarrow> length u < length s \<Longrightarrow> length r < length s" for p u
    using 1(1) by (cases "read_str u") (fastforce simp: prepend_def)+
  obtain c cs where s: "s = c # cs" using 1(2) by (cases s) (simp_all add: read_str.simps)
  have d: "length (drop (snd (decode_rune (c # cs))) (c # cs)) < length s"
    using decode_width(1) [of "c # cs"] by (simp add: s)
  show ?case
    using 1(2) ih d unfolding s
    by (subst (asm) read_str.simps) (auto simp: Let_def s split: if_splits list.splits option.splits)
qed


lemma scan_digits_shorter: "scan_digits s = Some r \<Longrightarrow> length r < length s"
proof -
  assume a: "scan_digits s = Some r"
  then obtain c cs where s: "s = c # cs" "is_dec c" by (cases s) (auto simp: scan_digits_def split: if_splits)
  then have "r = dropWhile is_dec cs" using a by (simp add: scan_digits_def)
  then show ?thesis using length_dropWhile_le [of is_dec cs] by (simp add: s)
qed

lemma scan_tail_length:
  "scan_frac s = Some r \<Longrightarrow> length r \<le> length s" "scan_exp s = Some r \<Longrightarrow> length r \<le> length s"
proof -
  show "scan_frac s = Some r \<Longrightarrow> length r \<le> length s"
    by (cases s) (auto simp: scan_frac_def dest: scan_digits_shorter split: if_splits)
  show "scan_exp s = Some r \<Longrightarrow> length r \<le> length s"
    by (cases s) (auto simp: scan_exp_def Let_def dest!: scan_digits_shorter split: if_splits)
qed

lemma scan_num_shorter:
  assumes "scan_num s = Some r"
  shows "length r < length s"
proof -
  define t where "t = (if s \<noteq> [] \<and> hd s = CHR ''-'' then tl s else s)"
  have t: "length t \<le> length s" by (simp add: t_def)
  obtain u v where u: "(if t \<noteq> [] \<and> hd t = CHR ''0'' then Some (tl t) else scan_digits t) = Some u"
      "scan_frac u = Some v" "scan_exp v = Some r"
    using assms unfolding scan_num_def t_def [symmetric] Let_def by (auto split: option.splits)
  have "length u < length t" using u(1) by (cases t) (auto dest: scan_digits_shorter split: if_splits)
  then show ?thesis using scan_tail_length(1) [OF u(2)] scan_tail_length(2) [OF u(3)] t by linarith
qed

lemma scan_lit_shorter: "scan_lit w s = Some r \<Longrightarrow> w \<noteq> [] \<Longrightarrow> length r < length s"
  by (auto simp: scan_lit_def HasPrefix_iff split: if_splits)

lemmas readers_shorter = read_str_shorter scan_num_shorter

lemma parse_shorter:
  "parse_value n d s = Some (x, r) \<Longrightarrow> length r < length s"
  "parse_elems n d s = Some (xs, r) \<Longrightarrow> length r < length s"
  "parse_members n d s = Some (ms, r) \<Longrightarrow> length r < length s"
proof (induction n arbitrary: d s x xs ms r)
  case 0
  { case 1 then show ?case by simp }
  { case 2 then show ?case by simp }
  { case 3 then show ?case by simp }
next
  case (Suc n)
  { case 1
    then obtain c cs where s: "skip_ws s = c # cs" by (cases "skip_ws s") simp_all
    have l: "length (c # cs) \<le> length s" using skip_ws_length [of s] s by simp
    have "length r < length (c # cs)"
      using 1 s skip_ws_length [of cs] Suc.IH(2) [of "Suc d" "skip_ws cs"] Suc.IH(3) [of "Suc d" "skip_ws cs"]
      by (fastforce dest: readers_shorter scan_lit_shorter split: if_splits list.splits)
    then show ?case using l by linarith }
  { case 2
    then obtain y t e es where p: "parse_value n d s = Some (y, t)" "skip_ws t = e # es"
      by (auto split: option.splits list.splits)
    have "length es < length s" using Suc.IH(1) [OF p(1)] skip_ws_shorter [OF p(2)] by linarith
    then show ?case using 2 p Suc.IH(2) [of d es] by (fastforce split: if_splits) }
  { case 3
    then obtain c cs where s: "skip_ws s = c # cs" "c = dquote" by (auto split: list.splits if_splits)
    then obtain k t e es where t: "read_str cs = Some (k, t)" "skip_ws t = e # es" "e = CHR '':''"
      using 3 by (auto split: option.splits list.splits if_splits)
    then obtain y u f fs where u: "parse_value n d es = Some (y, u)" "skip_ws u = f # fs"
      using 3 s by (auto split: option.splits list.splits if_splits)
    have "length fs < length s"
      using skip_ws_shorter [OF s(1)] read_str_shorter [OF t(1)] skip_ws_shorter [OF t(2)] Suc.IH(1) [OF u(1)]
        skip_ws_shorter [OF u(2)] by linarith
    then show ?case using 3 s t u Suc.IH(3) [of d fs] by (fastforce split: if_splits) }
qed


text \<open>Any fuel above twice the length reads the same: \<open>json_read\<close> never stops for lack of fuel.\<close>

lemma parse_fuel:
  "2 * length s < n \<Longrightarrow> 2 * length s < m \<Longrightarrow> parse_value n d s = parse_value m d s"
  "2 * length s + 1 < n \<Longrightarrow> 2 * length s + 1 < m \<Longrightarrow> parse_elems n d s = parse_elems m d s"
  "2 * length s + 1 < n \<Longrightarrow> 2 * length s + 1 < m \<Longrightarrow> parse_members n d s = parse_members m d s"
proof (induction n arbitrary: m d s)
  case 0
  { case 1 then show ?case by simp }
  { case 2 then show ?case by simp }
  { case 3 then show ?case by simp }
next
  case (Suc n)
  { case 1
    then obtain k where m: "m = Suc k" by (cases m) simp_all
    have sub: "parse_elems n (Suc d) (e # es) = parse_elems k (Suc d) (e # es)"
      "parse_members n (Suc d) (e # es) = parse_members k (Suc d) (e # es)"
      if "skip_ws s = c # cs" "skip_ws cs = e # es" for c cs e es
    proof -
      have "length (e # es) < length s"
        using skip_ws_length [of cs] that skip_ws_shorter [OF that(1)] by simp
      then have "2 * length (e # es) + 1 < n" "2 * length (e # es) + 1 < k" using 1 m by linarith+
      then show "parse_elems n (Suc d) (e # es) = parse_elems k (Suc d) (e # es)"
        "parse_members n (Suc d) (e # es) = parse_members k (Suc d) (e # es)" using Suc.IH(2,3) by blast+
    qed
    show ?case by (simp add: m sub split: list.split) }
  { case 2
    then obtain k where m: "m = Suc k" by (cases m) simp_all
    have v: "parse_value n d s = parse_value k d s" using 2 m by (intro Suc.IH(1)) simp_all
    have sub: "parse_elems n d es = parse_elems k d es"
      if "parse_value k d s = Some (x, r)" "skip_ws r = e # es" for x r e es
    proof -
      have "length es < length s" using parse_shorter(1) [OF that(1)] skip_ws_shorter [OF that(2)] by linarith
      then have "2 * length es + 1 < n" "2 * length es + 1 < k" using 2 m by linarith+
      then show ?thesis by (rule Suc.IH(2))
    qed
    show ?case by (simp add: m v sub split: option.split list.split) }
  { case 3
    then obtain k where m: "m = Suc k" by (cases m) simp_all
    have v: "parse_value n d es = parse_value k d es"
      if "skip_ws s = c # cs" "read_str cs = Some (t, r)" "skip_ws r = e # es" for c cs t r e es
    proof -
      have "length es < length s"
        using skip_ws_shorter [OF that(1)] read_str_shorter [OF that(2)] skip_ws_shorter [OF that(3)] by linarith
      then have "2 * length es < n" "2 * length es < k" using 3 m by linarith+
      then show ?thesis by (rule Suc.IH(1))
    qed
    have sub: "parse_members n d fs = parse_members k d fs"
      if "skip_ws s = c # cs" "read_str cs = Some (t, r)" "skip_ws r = e # es" "parse_value k d es = Some (x, r')"
        "skip_ws r' = f # fs" for c cs t r e es x r' f fs
    proof -
      have "length fs < length s"
        using skip_ws_shorter [OF that(1)] read_str_shorter [OF that(2)] skip_ws_shorter [OF that(3)]
          parse_shorter(1) [OF that(4)] skip_ws_shorter [OF that(5)] by linarith
      then have "2 * length fs + 1 < n" "2 * length fs + 1 < k" using 3 m by linarith+
      then show ?thesis by (rule Suc.IH(3))
    qed
    show ?case by (simp add: m v sub split: option.split list.split) }
qed

lemma json_read_fuel: "2 * length s < n \<Longrightarrow> parse_value n 0 s = json_read s"
  unfolding json_read_def by (rule parse_fuel(1)) simp_all

end
