(* ===== verification/Quote.thy ===== *)
theory Quote
  imports Jsondec
begin

text \<open>
  The text \<open>{"error":%q}\<close> that \<open>telemetry/ocsf.go\<close> writes by hand, for any bytes and any Unicode tables:
  where \<open>encoding/json\<close> takes Go's quoting for JSON at all, it reads the quoted text back, byte for byte.
\<close>

subsection \<open>UTF-8 there and back\<close>

text \<open>A rune that is not the replacement of a stray byte; its bytes stand for themselves.\<close>

definition whole_rune :: "nat \<times> nat \<Rightarrow> bool" where
  "whole_rune x \<longleftrightarrow> \<not> (fst x = rune_error \<and> snd x = 1)"

lemma decode_one: "byte_val c < 0x80 \<Longrightarrow> decode_rune (c # s) = (byte_val c, 1)"
  by (simp add: decode_rune_def)

text \<open>The four shapes of a rune.\<close>

lemma whole_rune_cases:
  assumes "s \<noteq> []" and "whole_rune (decode_rune s)"
  obtains (one) c t where "s = c # t" "byte_val c < 0x80"
  | (two) c c1 t where "s = c # c1 # t" "0xC2 \<le> byte_val c" "byte_val c \<le> 0xDF" "cont c1"
  | (three) c c1 c2 t where "s = c # c1 # c2 # t" "0xE0 \<le> byte_val c" "byte_val c \<le> 0xEF"
      "second_ok (byte_val c) (byte_val c1)" "cont c2"
  | (four) c c1 c2 c3 t where "s = c # c1 # c2 # c3 # t" "0xF0 \<le> byte_val c" "byte_val c \<le> 0xF4"
      "second_ok (byte_val c) (byte_val c1)" "cont c2" "cont c3"
  using assms unfolding decode_rune_def whole_rune_def
  by (auto simp: Let_def split: list.splits if_splits)

lemma second_okD: "second_ok b0 b1 \<Longrightarrow> 0x80 \<le> b1 \<and> b1 \<le> 0xBF"
  by (auto simp: second_ok_def split: if_splits)

lemma decode_two:
  "0xC2 \<le> byte_val c \<Longrightarrow> byte_val c \<le> 0xDF \<Longrightarrow> cont c1 \<Longrightarrow>
     decode_rune (c # c1 # t) = ((byte_val c - 0xC0) * 64 + (byte_val c1 - 0x80), 2)"
  by (simp add: decode_rune_def)

lemma decode_three:
  "0xE0 \<le> byte_val c \<Longrightarrow> byte_val c \<le> 0xEF \<Longrightarrow> second_ok (byte_val c) (byte_val c1) \<Longrightarrow> cont c2 \<Longrightarrow>
     decode_rune (c # c1 # c2 # t)
       = ((byte_val c - 0xE0) * 4096 + (byte_val c1 - 0x80) * 64 + (byte_val c2 - 0x80), 3)"
  by (simp add: decode_rune_def)

lemma decode_four:
  "0xF0 \<le> byte_val c \<Longrightarrow> byte_val c \<le> 0xF4 \<Longrightarrow> second_ok (byte_val c) (byte_val c1) \<Longrightarrow> cont c2 \<Longrightarrow> cont c3 \<Longrightarrow>
     decode_rune (c # c1 # c2 # c3 # t)
       = ((byte_val c - 0xF0) * 262144 + (byte_val c1 - 0x80) * 4096 + (byte_val c2 - 0x80) * 64
            + (byte_val c3 - 0x80), 4)"
  by (simp add: decode_rune_def)

text \<open>Encoding a rune from its parts.\<close>

lemma encode_two:
  assumes "2 \<le> x" "x < 32" "y < 64"
  shows "encode_rune (x * 64 + y) = [char_of (0xC0 + x), char_of (0x80 + y)]"
  using assms by (simp add: encode_rune_def)

lemma digits64: "y < 64 \<Longrightarrow> (q * 64 + y) div 64 = q \<and> (q * 64 + y) mod 64 = (y :: nat)"
  by simp

lemma encode_three:
  assumes "x < 16" "y < 64" "z < 64" and "x = 0 \<Longrightarrow> 32 \<le> y" and "x = 13 \<Longrightarrow> y < 32"
  shows "encode_rune (x * 4096 + y * 64 + z) = [char_of (0xE0 + x), char_of (0x80 + y), char_of (0x80 + z)]"
proof -
  let ?r = "x * 4096 + y * 64 + z"
  have range: "0x800 \<le> ?r" "?r < 0x10000" using assms by (cases "x = 0"; simp)+
  have "\<not> (0xD800 \<le> ?r \<and> ?r \<le> 0xDFFF)"
    using assms by (cases "x < 13"; cases "x = 13"; simp)
  note range = range this
  have e: "?r = (x * 64 + y) * 64 + z" by simp
  have "?r div 64 = x * 64 + y" "?r mod 64 = z" unfolding e using digits64 [OF assms(3), of "x * 64 + y"] by blast+
  moreover have "?r div 4096 = x" using assms by simp
  ultimately have "?r div 4096 = x" "?r div 64 mod 64 = y" "?r mod 64 = z" using digits64 [OF assms(2), of x] by simp_all
  with range show ?thesis by (auto simp: encode_rune_def Let_def)
qed

lemma encode_four:
  assumes "x < 5" "y < 64" "z < 64" "w < 64" and "x = 0 \<Longrightarrow> 16 \<le> y" and "x = 4 \<Longrightarrow> y < 16"
  shows "encode_rune (x * 262144 + y * 4096 + z * 64 + w)
    = [char_of (0xF0 + x), char_of (0x80 + y), char_of (0x80 + z), char_of (0x80 + w)]"
proof -
  let ?r = "x * 262144 + y * 4096 + z * 64 + w"
  have range: "0x10000 \<le> ?r" "?r \<le> 0x10FFFF" using assms by (cases "x = 0"; cases "x = 4"; simp)+
  have e: "?r = ((x * 64 + y) * 64 + z) * 64 + w" by simp
  have "?r div 64 = (x * 64 + y) * 64 + z" "?r mod 64 = w"
    unfolding e using digits64 [OF assms(4), of "(x * 64 + y) * 64 + z"] by blast+
  moreover have "?r div 4096 = ?r div 64 div 64" by (simp add: div_mult2_eq [symmetric])
  ultimately have parts: "?r div 4096 mod 64 = y" "?r div 64 mod 64 = z" "?r mod 64 = w"
    using digits64 [OF assms(3), of "x * 64 + y"] digits64 [OF assms(2), of x] by simp_all
  have "?r div 262144 = x" using assms by simp
  with range parts show ?thesis by (simp add: encode_rune_def Let_def)
qed

lemma char_of_byte: "char_of (byte_val c) = c"
  by simp

text \<open>The bytes of a whole rune are its encoding, whatever follows them.\<close>

lemma cont_split: "cont c \<Longrightarrow> byte_val c - 0x80 < 64 \<and> char_of (0x80 + (byte_val c - 0x80)) = c"
proof -
  assume "cont c"
  then have c: "0x80 \<le> byte_val c" "byte_val c \<le> 0xBF" unfolding cont_def by blast+
  have "byte_val c - 0x80 < 64" using c by linarith
  with c show ?thesis by simp
qed

lemma lead_split: "b \<le> byte_val c \<Longrightarrow> char_of (b + (byte_val c - b)) = c"
  by simp

lemma second_split:
  assumes "second_ok b0 (byte_val c)"
  shows "byte_val c - 0x80 < 64 \<and> char_of (0x80 + (byte_val c - 0x80)) = c"
proof -
  have c: "0x80 \<le> byte_val c" "byte_val c \<le> 0xBF" using second_okD [OF assms] by blast+
  have "byte_val c - 0x80 < 64" using c by linarith
  with c show ?thesis by simp
qed

lemma whole_rune_bytes:
  assumes "s \<noteq> []" and "whole_rune (decode_rune s)"
  shows "decode_rune (take (snd (decode_rune s)) s @ t) = decode_rune s
     \<and> encode_rune (fst (decode_rune s)) = take (snd (decode_rune s)) s"
  using assms
proof (cases rule: whole_rune_cases)
  case (one c u)
  then show ?thesis by (simp add: decode_one encode_rune_def)
next
  case (two c c1 u)
  let ?x = "byte_val c - 0xC0" and ?y = "byte_val c1 - 0x80"
  have "2 \<le> ?x" "?x < 32" "?y < 64" using two(2,3) cont_split [OF two(4)] by simp_all
  from encode_two [OF this] have "encode_rune (?x * 64 + ?y) = [c, c1]"
    unfolding cont_split [OF two(4), THEN conjunct2] using lead_split [of 192 c] two(2) by simp
  then show ?thesis by (simp add: two(1) decode_two [OF two(2-4)])
next
  case (three c c1 c2 u)
  let ?x = "byte_val c - 0xE0" and ?y = "byte_val c1 - 0x80" and ?z = "byte_val c2 - 0x80"
  have "?x < 16" using three(2,3) by simp
  moreover have "?y < 64" "?z < 64" using second_split [OF three(4)] cont_split [OF three(5)] by blast+
  moreover have "32 \<le> ?y" if "?x = 0"
  proof -
    have "byte_val c = 0xE0" using that three(2) by linarith
    then have "0xA0 \<le> byte_val c1" using three(4) by (simp add: second_ok_def)
    then show ?thesis by linarith
  qed
  moreover have "?y < 32" if "?x = 13"
  proof -
    have "byte_val c = 0xED" using that three(2) by linarith
    then have "byte_val c1 \<le> 0x9F" using three(4) by (simp add: second_ok_def)
    then show ?thesis by linarith
  qed
  ultimately have "encode_rune (?x * 4096 + ?y * 64 + ?z) = [char_of (0xE0 + ?x), char_of (0x80 + ?y), char_of (0x80 + ?z)]"
    by (rule encode_three)
  then have "encode_rune (?x * 4096 + ?y * 64 + ?z) = [c, c1, c2]"
    unfolding cont_split [OF three(5), THEN conjunct2] second_split [OF three(4), THEN conjunct2]
      lead_split [OF three(2)] .
  then show ?thesis by (simp add: three(1) decode_three [OF three(2-5)])
next
  case (four c c1 c2 c3 u)
  let ?x = "byte_val c - 0xF0" and ?y = "byte_val c1 - 0x80" and ?z = "byte_val c2 - 0x80" and ?w = "byte_val c3 - 0x80"
  have "?x < 5" using four(2,3) by simp
  moreover have "?y < 64" "?z < 64" "?w < 64"
    using second_split [OF four(4)] cont_split [OF four(5)] cont_split [OF four(6)] by blast+
  moreover have "16 \<le> ?y" if "?x = 0"
  proof -
    have "byte_val c = 0xF0" using that four(2) by linarith
    then have "0x90 \<le> byte_val c1" using four(4) by (simp add: second_ok_def)
    then show ?thesis by linarith
  qed
  moreover have "?y < 16" if "?x = 4"
  proof -
    have "byte_val c = 0xF4" using that four(2) by linarith
    then have "byte_val c1 \<le> 0x8F" using four(4) by (simp add: second_ok_def)
    then show ?thesis by linarith
  qed
  ultimately have "encode_rune (?x * 262144 + ?y * 4096 + ?z * 64 + ?w)
      = [char_of (0xF0 + ?x), char_of (0x80 + ?y), char_of (0x80 + ?z), char_of (0x80 + ?w)]"
    by (rule encode_four)
  then have "encode_rune (?x * 262144 + ?y * 4096 + ?z * 64 + ?w) = [c, c1, c2, c3]"
    unfolding cont_split [OF four(5), THEN conjunct2] cont_split [OF four(6), THEN conjunct2]
      second_split [OF four(4), THEN conjunct2] lead_split [OF four(2)] .
  then show ?thesis by (simp add: four(1) decode_four [OF four(2-6)])
qed

text \<open>So its code point is not below 128 unless its first byte is, nor a surrogate.\<close>

lemma high_chars: "char_of (0xEF :: nat) = CHR 0xEF" "char_of (0xBF :: nat) = CHR 0xBF" "char_of (0xBD :: nat) = CHR 0xBD"
proof -
  have "byte_val (CHR 0xEF) = 0xEF" "byte_val (CHR 0xBF) = 0xBF" "byte_val (CHR 0xBD) = 0xBD" by simp_all
  then show "char_of (0xEF :: nat) = CHR 0xEF" "char_of (0xBF :: nat) = CHR 0xBF" "char_of (0xBD :: nat) = CHR 0xBD"
    by (metis char_of_char)+
qed

lemma encode_surrogate: "0xD800 \<le> r \<Longrightarrow> r \<le> 0xDFFF \<Longrightarrow> encode_rune r = [CHR 0xEF, CHR 0xBF, CHR 0xBD]"
proof -
  assume r: "0xD800 \<le> r" "r \<le> 0xDFFF"
  have "encode_rune r = encode_rune (0xF * 4096 + 0x3F * 64 + 0x3D)" using r by (simp add: encode_rune_def rune_error_def)
  also have "\<dots> = [CHR 0xEF, CHR 0xBF, CHR 0xBD]" 
    using high_chars by (subst encode_three; simp)
  finally show ?thesis .
qed

lemma whole_rune_range:
  assumes "s \<noteq> []" and "whole_rune (decode_rune s)" and "\<not> byte_val (hd s) < 0x80"
  shows "\<not> fst (decode_rune s) < 0x80" and "\<not> (0xD800 \<le> fst (decode_rune s) \<and> fst (decode_rune s) < 0xE000)"
proof -
  let ?r = "fst (decode_rune s)" and ?b = "take (snd (decode_rune s)) s"
  have b: "decode_rune (?b @ []) = decode_rune s" "encode_rune ?r = ?b" using whole_rune_bytes [OF assms(1,2)] by blast+
  have hd: "hd ?b = hd s" using decode_width(1) [OF assms(1)] by (simp add: hd_take)
  show "\<not> ?r < 0x80"
  proof
    assume r: "?r < 0x80"
    then have e: "encode_rune ?r = [char_of ?r]" by (simp add: encode_rune_def)
    have "hd (encode_rune ?r) = hd s" unfolding b(2) by (rule hd)
    then have "char_of ?r = hd s" unfolding e by simp
    moreover have "byte_val (char_of ?r) = ?r" using r by simp
    ultimately show False using r assms(3) by simp
  qed
  show "\<not> (0xD800 \<le> ?r \<and> ?r < 0xE000)"
  proof
    assume s: "0xD800 \<le> ?r \<and> ?r < 0xE000"
    then have "encode_rune ?r = [CHR 0xEF, CHR 0xBF, CHR 0xBD]" by (intro encode_surrogate) simp_all
    then have "?b = [CHR 0xEF, CHR 0xBF, CHR 0xBD]" unfolding b(2) .
    moreover have "decode_rune [CHR 0xEF, CHR 0xBF, CHR 0xBD] = (0xFFFD, 3)"
      by (simp add: decode_rune_def second_ok_def cont_def)
    ultimately have "decode_rune s = (0xFFFD, 3)" using b(1) by simp
    with s show False by simp
  qed
qed

subsection \<open>Reading what \<open>%q\<close> writes\<close>

lemma high_byte: "\<not> byte_val c < 0x80 \<Longrightarrow> c \<noteq> dquote \<and> c \<noteq> backslash \<and> \<not> byte_val c < 0x20"
  by (auto simp: dquote_def backslash_def)

lemma read_bytes:
  assumes "s \<noteq> []" and "whole_rune (decode_rune s)" and "\<not> byte_val (hd s) < 0x80"
  shows "read_str (take (snd (decode_rune s)) s @ t) = prepend (take (snd (decode_rune s)) s) (read_str t)"
proof -
  let ?w = "snd (decode_rune s)"
  note b = whole_rune_bytes [OF assms(1,2)]
  obtain cs where c: "take ?w s = hd s # cs"
    using assms(1) decode_width(1) [OF assms(1)] by (cases s; cases ?w) auto
  have "length (take ?w s) = ?w" using decode_width(2) [OF assms(1)] by simp
  then have d: "drop ?w (hd s # cs @ t) = t" using c by (metis append_Cons append_eq_conv_conj)
  have e: "decode_rune (hd s # cs @ t) = decode_rune s" "encode_rune (fst (decode_rune s)) = hd s # cs"
    using b [of t] unfolding c by simp_all
  show ?thesis unfolding c append_Cons
    by (subst read_str.simps(2)) (simp add: high_byte [OF assms(3)] assms(3) d e)
qed

lemma scan_high: "\<forall>c \<in> set b. \<not> byte_val c < 0x80 \<Longrightarrow> scan_str (b @ t) = scan_str t"
  by (induction b) (simp_all add: high_byte)

lemma whole_rune_high:
  assumes "s \<noteq> []" and "whole_rune (decode_rune s)" and "\<not> byte_val (hd s) < 0x80"
  shows "\<forall>c \<in> set (take (snd (decode_rune s)) s). \<not> byte_val c < 0x80"
  using assms(1,2)
proof (cases rule: whole_rune_cases)
  case (one c u)
  with assms(3) show ?thesis by simp
next
  case (two c c1 u)
  then show ?thesis by (simp add: decode_two cont_def)
next
  case (three c c1 c2 u)
  then show ?thesis using second_okD [OF three(4)] by (simp add: decode_three [OF three(2-5)] cont_def)
next
  case (four c c1 c2 c3 u)
  then show ?thesis using second_okD [OF four(4)] by (simp add: decode_four [OF four(2-6)] cont_def)
qed

lemma hex_digit_facts: "n < 16 \<Longrightarrow> is_hex (hex_digit n) \<and> hex_digit_val (hex_digit n) = n"
  using hex_lower_facts [of n] by (simp add: hex_digit_def hex_lower_def if_distrib)

lemma hex_sum:
  assumes "n < 0x10000"
  shows "16 * (16 * (16 * (n div 16 div 16 div 16 mod 16) + n div 16 div 16 mod 16) + n div 16 mod 16) + n mod 16 = (n :: nat)"
proof -
  define p q u where "p = n div 16" and "q = p div 16" and "u = q div 16"
  have "u = n div 4096" unfolding u_def q_def p_def by (simp only: div_mult2_eq [symmetric]) simp
  then have "u mod 16 = u" using assms by simp
  then have "16 * (u mod 16) + q mod 16 = q" "16 * q + p mod 16 = p" "16 * p + n mod 16 = n"
    unfolding u_def q_def p_def by simp_all
  then show ?thesis by (simp only: p_def [symmetric] q_def [symmetric] u_def [symmetric])
qed

lemma hex_fixed_4:
  "hex_fixed 4 n = [hex_digit (n div 16 div 16 div 16 mod 16), hex_digit (n div 16 div 16 mod 16),
     hex_digit (n div 16 mod 16), hex_digit (n mod 16)]"
proof -
  have e: "(4 :: nat) = Suc (Suc (Suc (Suc 0)))" by simp
  show ?thesis by (simp only: e hex_fixed.simps append.simps)
qed

lemma hex4_digits:
  assumes "a < 16" "b < 16" "c < 16" "d < 16"
  shows "hex4 (hex_digit a # hex_digit b # hex_digit c # hex_digit d # t) = Some (16 * (16 * (16 * a + b) + c) + d)"
    and "scan_str (backslash # CHR ''u'' # hex_digit a # hex_digit b # hex_digit c # hex_digit d # t) = scan_str t"
proof -
  note h = hex_digit_facts [OF assms(1)] hex_digit_facts [OF assms(2)] hex_digit_facts [OF assms(3)] hex_digit_facts [OF assms(4)]
  show "hex4 (hex_digit a # hex_digit b # hex_digit c # hex_digit d # t) = Some (16 * (16 * (16 * a + b) + c) + d)"
    using h by (simp add: hex4_def)
  show "scan_str (backslash # CHR ''u'' # hex_digit a # hex_digit b # hex_digit c # hex_digit d # t) = scan_str t"
    using h by (simp add: dquote_def backslash_def)
qed

lemma hex4_fixed:
  assumes "n < 0x10000"
  shows "hex4 (hex_fixed 4 n @ t) = Some n" and "scan_str (backslash # CHR ''u'' # hex_fixed 4 n @ t) = scan_str t"
proof -
  have lt: "n div 16 div 16 div 16 mod 16 < 16" "n div 16 div 16 mod 16 < 16" "n div 16 mod 16 < 16" "n mod 16 < 16"
    by simp_all
  show "hex4 (hex_fixed 4 n @ t) = Some n"
    unfolding hex_fixed_4 append.simps hex4_digits(1) [OF lt] hex_sum [OF assms] ..
  show "scan_str (backslash # CHR ''u'' # hex_fixed 4 n @ t) = scan_str t"
    unfolding hex_fixed_4 append.simps by (rule hex4_digits(2) [OF lt])
qed

text \<open>
  Go's quoting of a rune is JSON unless the rune is a stray byte, a control character whose Go escape JSON
  does not know, or one above the basic plane that is not printable.
\<close>

definition json_rune :: "unicode \<Rightarrow> rune \<Rightarrow> bool" where
  "json_rune U x \<longleftrightarrow> \<not> (fst x = rune_error \<and> length (snd x) = 1)
     \<and> (fst x < 0x80 \<longrightarrow> quote_json_safe (char_of (fst x)))
     \<and> (uni_print U (fst x) \<or> fst x < 0x10000)"

lemma escape_None: "simple_escape (CHR ''u'') = None"
  by (simp add: simple_escape_def dquote_def backslash_def)

lemma scan_bad_escape:
  "scan_str (backslash # CHR ''x'' # t) = None" "scan_str (backslash # CHR ''U'' # t) = None"
  by (simp_all add: dquote_def backslash_def)

lemma quote_ascii_rune:
  assumes "ascii c"
  shows "scan_str (quote_rune U (byte_val c, [c]) @ t) = (if json_rune U (byte_val c, [c]) then scan_str t else None)"
    and "json_rune U (byte_val c, [c]) \<Longrightarrow> read_str (quote_rune U (byte_val c, [c]) @ t) = prepend [c] (read_str t)"
proof -
  define n where "n = byte_val c"
  have n: "n < 128" and c: "c = char_of n" using assms by (simp_all add: ascii_def n_def)
  have j: "json_rune U (byte_val c, [c]) \<longleftrightarrow> quote_json_safe c"
    using n by (simp add: json_rune_def rune_error_def n_def)
  show "scan_str (quote_rune U (byte_val c, [c]) @ t) = (if json_rune U (byte_val c, [c]) then scan_str t else None)"
    unfolding j by (rule scan_str_quote_rune [OF assms])
  assume "json_rune U (byte_val c, [c])"
  then have safe: "(0x20 \<le> n \<and> n \<noteq> 0x7F) \<or> n \<in> {8, 9, 10, 12, 13}" unfolding j quote_json_safe_def n_def .
  have plain: "read_str (c # t) = prepend [c] (read_str t)" if "32 \<le> n" "n \<noteq> 34" "n \<noteq> 92"
    using that n unfolding n_def by (auto simp: dquote_def backslash_def char_eq_val read_str.simps(2))
  have lits: "char_of (8 :: nat) = CHR 0x08" "char_of (12 :: nat) = CHR 0x0C" "char_of (10 :: nat) = CHR 0x0A"
    "char_of (13 :: nat) = CHR 0x0D" "char_of (9 :: nat) = CHR 0x09" "char_of (34 :: nat) = dquote" "char_of (92 :: nat) = backslash"
    by (simp_all add: dquote_def backslash_def char_of_eq_iff take_bit_eq_mod)
  have se: "simple_escape dquote = Some dquote" "simple_escape backslash = Some backslash"
    "simple_escape (CHR ''b'') = Some (CHR 0x08)" "simple_escape (CHR ''f'') = Some (CHR 0x0C)"
    "simple_escape (CHR ''n'') = Some (CHR 0x0A)" "simple_escape (CHR ''r'') = Some (CHR 0x0D)"
    "simple_escape (CHR ''t'') = Some (CHR 0x09)"
    by (simp_all add: simple_escape_def dquote_def backslash_def)
  consider "n = 34 \<or> n = 92" | "n \<in> {8, 9, 10, 12, 13}" | "32 \<le> n" "n \<noteq> 34" "n \<noteq> 92" "n \<noteq> 0x7F"
    using safe by auto
  then show "read_str (quote_rune U (byte_val c, [c]) @ t) = prepend [c] (read_str t)"
  proof cases
    case 1
    then show ?thesis
      by (auto simp: quote_rune_def n_def [symmetric] rune_error_def read_escape se c lits)
  next
    case 2
    then show ?thesis
      by (auto simp: quote_rune_def n_def [symmetric] rune_error_def read_escape se c lits)
  next
    case 3
    then have "quote_rune U (byte_val c, [c]) = [c]"
      using n by (simp add: quote_rune_def n_def [symmetric] rune_error_def)
    then show ?thesis using plain [OF 3(1-3)] by simp
  qed
qed

lemma quote_high_rune:
  assumes "s \<noteq> []" and "\<not> byte_val (hd s) < 0x80" and x: "x = (fst (decode_rune s), take (snd (decode_rune s)) s)"
  shows "scan_str (quote_rune U x @ t) = (if json_rune U x then scan_str t else None)"
    and "json_rune U x \<Longrightarrow> read_str (quote_rune U x @ t) = prepend (snd x) (read_str t)"
proof -
  let ?r = "fst (decode_rune s)" and ?b = "take (snd (decode_rune s)) s"
  have len: "length ?b = snd (decode_rune s)" using decode_width(2) [OF assms(1)] by simp
  have both: "scan_str (quote_rune U x @ t) = (if json_rune U x then scan_str t else None)
    \<and> (json_rune U x \<longrightarrow> read_str (quote_rune U x @ t) = prepend (snd x) (read_str t))"
  proof (cases "whole_rune (decode_rune s)")
    case False
    then have s: "?r = rune_error" "length ?b = 1" using len by (simp_all add: whole_rune_def)
    then show ?thesis unfolding x by (simp add: json_rune_def quote_rune_def scan_bad_escape del: scan_str.simps)
  next
    case True
    have w: "\<not> (?r = rune_error \<and> length ?b = 1)" using True len by (simp add: whole_rune_def)
    note range = whole_rune_range [OF assms(1) True assms(2)]
    have small: "?r \<noteq> 0x22" "?r \<noteq> 0x5C" "?r \<notin> {7, 8, 9, 10, 11, 12, 13}" "\<not> ?r < 0x20" "?r \<noteq> 0x7F"
      using range(1) by auto
    have j: "json_rune U x \<longleftrightarrow> uni_print U ?r \<or> ?r < 0x10000" unfolding x json_rune_def fst_conv snd_conv using w range(1) by blast
    consider "uni_print U ?r" | "\<not> uni_print U ?r" "?r < 0x10000" | "\<not> uni_print U ?r" "\<not> ?r < 0x10000" by blast
    then show ?thesis
    proof cases
      case 1
      then have "quote_rune U x = ?b"
        unfolding x quote_rune_def Let_def fst_conv snd_conv using w small range(1) by auto
      then show ?thesis
        using 1 j scan_high [OF whole_rune_high [OF assms(1) True assms(2)]] read_bytes [OF assms(1) True assms(2)]
        by (simp add: x del: scan_str.simps)
    next
      case 2
      then have q: "quote_rune U x = backslash # CHR ''u'' # hex_fixed 4 ?r"
        unfolding x quote_rune_def Let_def fst_conv snd_conv using w small range(1) by auto
      have "u_escape ?r r = (?r, 0)" for r unfolding u_escape_def if_not_P [OF range(2)] ..
      moreover have "encode_rune ?r = ?b" using whole_rune_bytes [OF assms(1) True] by blast
      moreover have "drop 4 (hex_fixed 4 ?r @ t) = t" by (simp add: hex_fixed_4)
      ultimately have "read_str (quote_rune U x @ t) = prepend ?b (read_str t)"
        using hex4_fixed(1) [OF 2(2)] by (simp add: q read_escape escape_None Let_def)
      moreover have "scan_str (quote_rune U x @ t) = scan_str t" unfolding q append_Cons by (rule hex4_fixed(2) [OF 2(2)])
      ultimately show ?thesis using 2 j by (simp add: x)
    next
      case 3
      then have q: "quote_rune U x = backslash # CHR ''U'' # hex_fixed 8 ?r"
        unfolding x quote_rune_def Let_def fst_conv snd_conv using w small range(1) by auto
      then show ?thesis using 3 j by (simp add: scan_bad_escape del: scan_str.simps)
    qed
  qed
  then show "scan_str (quote_rune U x @ t) = (if json_rune U x then scan_str t else None)"
    and "json_rune U x \<Longrightarrow> read_str (quote_rune U x @ t) = prepend (snd x) (read_str t)" by blast+
qed

lemma quote_first_rune:
  assumes "s \<noteq> []" and x: "x = (fst (decode_rune s), take (snd (decode_rune s)) s)"
  shows "scan_str (quote_rune U x @ t) = (if json_rune U x then scan_str t else None)"
    and "json_rune U x \<Longrightarrow> read_str (quote_rune U x @ t) = prepend (snd x) (read_str t)"
proof -
  have both: "scan_str (quote_rune U x @ t) = (if json_rune U x then scan_str t else None)
    \<and> (json_rune U x \<longrightarrow> read_str (quote_rune U x @ t) = prepend (snd x) (read_str t))"
  proof (cases "byte_val (hd s) < 0x80")
    case True
    then have "x = (byte_val (hd s), [hd s])" unfolding x using assms(1) by (cases s) (simp_all add: decode_one)
    then show ?thesis using quote_ascii_rune [of "hd s" U t] True by (simp add: ascii_def del: scan_str.simps)
  next
    case False
    then show ?thesis using quote_high_rune [OF assms(1) False x] by blast
  qed
  then show "scan_str (quote_rune U x @ t) = (if json_rune U x then scan_str t else None)"
    and "json_rune U x \<Longrightarrow> read_str (quote_rune U x @ t) = prepend (snd x) (read_str t)" by blast+
qed

lemma read_close: "read_str (dquote # r) = Some ([], r)" and scan_close: "scan_str (dquote # r) = Some r"
  by (simp_all add: read_str.simps(2))

lemma quoted_text_both:
  "scan_str (concat (map (quote_rune U) (runes s)) @ dquote # r) = (if \<forall>x \<in> set (runes s). json_rune U x then Some r else None)
   \<and> ((\<forall>x \<in> set (runes s). json_rune U x) \<longrightarrow> read_str (concat (map (quote_rune U) (runes s)) @ dquote # r) = Some (s, r))"
proof (induction s rule: runes.induct)
  case (1 s)
  note first = quote_first_rune [OF _ refl, of s U]
  show ?case
  proof (cases "s = []")
    case True
    then show ?thesis by (simp add: scan_close read_close del: scan_str.simps)
  next
    case False
    then show ?thesis using 1 [OF False refl] by (simp add: runes_ne first del: scan_str.simps)
  qed
qed

lemmas quoted_text = quoted_text_both [THEN conjunct1] quoted_text_both [THEN conjunct2, THEN mp]

subsection \<open>The hand-written text\<close>

lemma error_text_shape:
  "error_text U reason = CHR ''{'' # dquote # ''error'' @ dquote # CHR '':'' # dquote
     # concat (map (quote_rune U) (runes reason)) @ dquote # ''}''"
  by (simp add: error_text_def go_quote_def)

lemma error_text_valid:
  "json_valid (error_text U reason) \<longleftrightarrow> (\<forall>x \<in> set (runes reason). json_rune U x)"
proof -
  define m where "m = 2 * length (error_text U reason) - 2"
  have "4 \<le> length (error_text U reason)" by (simp add: error_text_def)
  then have n: "2 * length (error_text U reason) + 2 = Suc (Suc (Suc (Suc m)))"
    unfolding m_def by arith
  show ?thesis
    unfolding json_valid_def n
    unfolding error_text_shape
    using quoted_text(1) [of U reason "''}''"]
    by (simp add: skip_ws_def json_ws_def dquote_def backslash_def)
qed

lemma error_text_parsed:
  assumes "json_valid (error_text U reason)"
  shows "json_parse (error_text U reason) = Some (JObj [(''error'', JStr reason)])"
proof -
  define m where "m = 2 * length (error_text U reason) - 2"
  have "4 \<le> length (error_text U reason)" by (simp add: error_text_def)
  then have n: "2 * length (error_text U reason) + 2 = Suc (Suc (Suc (Suc m)))"
    unfolding m_def by arith
  have v: "read_str (concat (map (quote_rune U) (runes reason)) @ dquote # ''}'') = Some (reason, ''}'')"
    using assms unfolding error_text_valid by (rule quoted_text(2))
  have k: "read_str (''error'' @ dquote # t) = Some (''error'', t)" for t
    by (simp add: read_str.simps(2) dquote_def backslash_def)
  show ?thesis
    unfolding json_parse_def json_read_def n
    unfolding error_text_shape
    using v k
    by (simp add: skip_ws_def json_ws_def dquote_def backslash_def max_depth_def)
qed

subsection \<open>A name between ASCII texts\<close>

lemma decode_before_ascii:
  assumes "k \<noteq> []" and "\<forall>c \<in> set b. ascii c"
  shows "decode_rune (k @ b) = decode_rune k"
proof -
  have b: "b = [] \<or> (\<exists>c b'. b = c # b' \<and> byte_val c < 0x80)" using assms(2) by (cases b) (auto simp: ascii_def)
  have no: "byte_val c < 0x80 \<Longrightarrow> \<not> cont c \<and> \<not> second_ok x (byte_val c)" for c x
    using second_okD [of x "byte_val c"] by (auto simp: cont_def)
  obtain c0 k1 where k: "k = c0 # k1" using assms(1) by (cases k) auto
  show ?thesis unfolding k decode_rune_def using b no
    by (auto simp: Let_def split: list.split)
qed

lemma runes_before_ascii: "\<forall>c \<in> set b. ascii c \<Longrightarrow> runes (k @ b) = runes k @ runes b"
proof (induction k rule: runes.induct)
  case (1 k)
  show ?case
  proof (cases "k = []")
    case False
    then show ?thesis
      using 1(1) [OF False refl 1(2)] decode_before_ascii [OF False 1(2)] decode_width(2) [OF False]
      by (simp add: runes_ne)
  qed simp
qed

lemma runes_after_ascii: "\<forall>c \<in> set a. ascii c \<Longrightarrow> runes (a @ k) = runes a @ runes k"
  by (induction a) (simp_all add: runes_ascii)

lemma json_rune_ascii: "ascii c \<Longrightarrow> json_rune U (byte_val c, [c]) \<longleftrightarrow> quote_json_safe c"
  by (simp add: json_rune_def rune_error_def ascii_def)

lemma error_text_valid_within:
  assumes "\<forall>c \<in> set a. ascii c \<and> quote_json_safe c" and "\<forall>c \<in> set b. ascii c \<and> quote_json_safe c"
  shows "json_valid (error_text U (a @ k @ b)) \<longleftrightarrow> (\<forall>x \<in> set (runes k). json_rune U x)"
proof -
  have "runes (a @ k @ b) = runes a @ runes k @ runes b"
    using assms by (simp add: runes_before_ascii runes_after_ascii)
  moreover have "\<forall>x \<in> set (runes a) \<union> set (runes b). json_rune U x"
    using assms by (auto simp: runes_all_ascii json_rune_ascii)
  ultimately show ?thesis unfolding error_text_valid by auto
qed

end
