(* ===== verification/Ocsf.thy ===== *)
theory Ocsf
  imports Quote
begin

text \<open>
  \<open>telemetry/ocsf.go\<close>: the OCSF constants, the event record, the naming helpers and the event
  constructors. Every \<open>nowMS()\<close> of a constructor is an argument of it (\<open>t\<close> for the field \<open>Time\<close>,
  \<open>u\<close> for the reading inside \<open>FindingUID\<close>). \<open>RawData\<close> keeps how the bytes were made: by
  \<open>json.Marshal\<close> of a map, or by formatting the text \<open>{"error":%q}\<close>.
\<close>

subsection \<open>Constants\<close>

definition ClassApplicationActivity :: int where "ClassApplicationActivity = 6002"
definition ClassSecurityFinding :: int where "ClassSecurityFinding = 2001"

lemmas class_defs = ClassApplicationActivity_def ClassSecurityFinding_def

definition ActivityUnknown :: int where "ActivityUnknown = 0"
definition ActivityCreate :: int where "ActivityCreate = 1"
definition ActivityRead :: int where "ActivityRead = 2"
definition ActivityUpdate :: int where "ActivityUpdate = 3"
definition ActivityDelete :: int where "ActivityDelete = 4"
definition ActivityExecute :: int where "ActivityExecute = 5"
definition ActivityAllow :: int where "ActivityAllow = 6"
definition ActivityDeny :: int where "ActivityDeny = 7"
definition ActivityAudit :: int where "ActivityAudit = 8"
definition ActivityEncode :: int where "ActivityEncode = 9"
definition ActivityDecode :: int where "ActivityDecode = 10"
definition ActivityTerminate :: int where "ActivityTerminate = 99"

lemmas activity_defs =
  ActivityUnknown_def ActivityCreate_def ActivityRead_def ActivityUpdate_def ActivityDelete_def
  ActivityExecute_def ActivityAllow_def ActivityDeny_def ActivityAudit_def ActivityEncode_def
  ActivityDecode_def ActivityTerminate_def

definition SeverityUnknown :: int where "SeverityUnknown = 0"
definition SeverityInformational :: int where "SeverityInformational = 1"
definition SeverityLow :: int where "SeverityLow = 2"
definition SeverityMedium :: int where "SeverityMedium = 3"
definition SeverityHigh :: int where "SeverityHigh = 4"
definition SeverityCritical :: int where "SeverityCritical = 5"
definition SeverityFatal :: int where "SeverityFatal = 6"

lemmas severity_defs =
  SeverityUnknown_def SeverityInformational_def SeverityLow_def SeverityMedium_def
  SeverityHigh_def SeverityCritical_def SeverityFatal_def

definition StatusUnknown :: int where "StatusUnknown = 0"
definition StatusSuccess :: int where "StatusSuccess = 1"
definition StatusFailure :: int where "StatusFailure = 2"

lemmas status_defs = StatusUnknown_def StatusSuccess_def StatusFailure_def

definition severityName :: "int \<Rightarrow> string" where
  "severityName n =
     (if n = SeverityInformational then ''Informational''
      else if n = SeverityLow then ''Low''
      else if n = SeverityMedium then ''Medium''
      else if n = SeverityHigh then ''High''
      else if n = SeverityCritical then ''Critical''
      else if n = SeverityFatal then ''Fatal''
      else ''Unknown'')"

definition statusName :: "int \<Rightarrow> string" where
  "statusName n =
     (if n = StatusSuccess then ''Success''
      else if n = StatusFailure then ''Failure''
      else ''Unknown'')"

definition activityName :: "int \<Rightarrow> string" where
  "activityName n =
     (if n = ActivityCreate then ''Create''
      else if n = ActivityRead then ''Read''
      else if n = ActivityUpdate then ''Update''
      else if n = ActivityDelete then ''Delete''
      else if n = ActivityExecute then ''Execute''
      else if n = ActivityAllow then ''Allow''
      else if n = ActivityDeny then ''Deny''
      else if n = ActivityAudit then ''Audit''
      else if n = ActivityEncode then ''Encode''
      else if n = ActivityDecode then ''Decode''
      else if n = ActivityTerminate then ''Terminate''
      else ''Unknown'')"

lemmas name_defs = severityName_def statusName_def activityName_def

subsection \<open>Events\<close>

record OCSFActor =
  ac_User :: string
  ac_Process :: string
  ac_SessionUID :: string

record OCSFResource =
  rs_Name :: string
  rs_Type :: string
  rs_UID :: string

record OCSFMetadata =
  md_Version :: string
  md_Product :: string
  md_Vendor :: string
  md_EventCode :: string

datatype raw_data = NoRaw | RawMap json | RawError string

record OCSFEvent =
  ev_ClassUID :: int
  ev_ClassName :: string
  ev_ActivityID :: int
  ev_ActivityName :: string
  ev_Time :: int64
  ev_SeverityID :: int
  ev_Severity :: string
  ev_StatusID :: int
  ev_Status :: string
  ev_StatusDetail :: string
  ev_AgentID :: string
  ev_Actor :: OCSFActor
  ev_Resource :: OCSFResource
  ev_Action :: string
  ev_SigStatus :: string
  ev_Metadata :: OCSFMetadata
  ev_RawData :: raw_data
  ev_FindingType :: string
  ev_FindingUID :: string

definition actor :: "string \<Rightarrow> string \<Rightarrow> OCSFActor" where
  "actor u p = \<lparr> ac_User = u, ac_Process = p, ac_SessionUID = '''' \<rparr>"

definition resource :: "string \<Rightarrow> string \<Rightarrow> OCSFResource" where
  "resource n ty = \<lparr> rs_Name = n, rs_Type = ty, rs_UID = '''' \<rparr>"

definition nexiscoreMetadata :: OCSFMetadata where
  "nexiscoreMetadata =
     \<lparr> md_Version = ''1.1.0'', md_Product = ''NexisCore'', md_Vendor = ''NexisCore Security'',
       md_EventCode = '''' \<rparr>"

text \<open>\<open>fmt.Sprintf("%d", n)\<close> of an \<open>int64\<close>.\<close>

definition dec64 :: "int64 \<Rightarrow> string" where
  "dec64 w = dec_int (sint w)"

subsection \<open>Marshalling\<close>

definition omitempty :: "string \<Rightarrow> string \<Rightarrow> (string \<times> json) list" where
  "omitempty k v = (if v = '''' then [] else [(k, JStr v)])"

definition actor_json :: "OCSFActor \<Rightarrow> json" where
  "actor_json a = JObj
     (omitempty ''user'' (ac_User a) @ omitempty ''process'' (ac_Process a)
      @ omitempty ''session_uid'' (ac_SessionUID a))"

definition resource_json :: "OCSFResource \<Rightarrow> json" where
  "resource_json r = JObj
     (omitempty ''name'' (rs_Name r) @ omitempty ''type'' (rs_Type r) @ omitempty ''uid'' (rs_UID r))"

definition metadata_json :: "OCSFMetadata \<Rightarrow> json" where
  "metadata_json m = JObj
     ([(''version'', JStr (md_Version m)), (''product'', JStr (md_Product m)),
       (''vendor'', JStr (md_Vendor m))] @ omitempty ''event_code'' (md_EventCode m))"

text \<open>
  The \<open>raw_data\<close> member: absent, the tree of the map, or the hand-written text, which makes
  \<open>json.Marshal\<close> fail when it is not JSON.
\<close>

definition raw_json :: "unicode \<Rightarrow> raw_data \<Rightarrow> (string \<times> json) list option" where
  "raw_json U r =
     (case r of
        NoRaw \<Rightarrow> Some []
      | RawMap j \<Rightarrow> Some [(''raw_data'', j)]
      | RawError reason \<Rightarrow>
          if json_valid (error_text U reason)
          then Some [(''raw_data'', JObj [(''error'', JStr reason)])] else None)"

definition Marshal :: "unicode \<Rightarrow> OCSFEvent \<Rightarrow> json option" where
  "Marshal U e =
     (case raw_json U (ev_RawData e) of
        None \<Rightarrow> None
      | Some raw \<Rightarrow> Some (JObj
          ([(''class_uid'', JNum (ev_ClassUID e)), (''class_name'', JStr (ev_ClassName e)),
            (''activity_id'', JNum (ev_ActivityID e)), (''activity_name'', JStr (ev_ActivityName e)),
            (''time'', JNum (sint (ev_Time e))), (''severity_id'', JNum (ev_SeverityID e)),
            (''severity'', JStr (ev_Severity e)), (''status_id'', JNum (ev_StatusID e)),
            (''status'', JStr (ev_Status e))]
           @ omitempty ''status_detail'' (ev_StatusDetail e)
           @ [(''agent_id'', JStr (ev_AgentID e)), (''actor'', actor_json (ev_Actor e)),
              (''resource'', resource_json (ev_Resource e)), (''action'', JStr (ev_Action e)),
              (''signature_verification_status'', JStr (ev_SigStatus e)),
              (''metadata'', metadata_json (ev_Metadata e))]
           @ raw
           @ omitempty ''finding_type'' (ev_FindingType e)
           @ omitempty ''finding_uid'' (ev_FindingUID e))))"

subsection \<open>Constructors\<close>

definition NewToolCallEvent ::
  "int64 \<Rightarrow> string \<Rightarrow> string \<Rightarrow> string \<Rightarrow> int \<Rightarrow> string \<Rightarrow> OCSFEvent" where
  "NewToolCallEvent t agentID actorUser toolName statusID detail =
     \<lparr> ev_ClassUID = ClassApplicationActivity, ev_ClassName = ''Application Activity'',
       ev_ActivityID = ActivityExecute, ev_ActivityName = activityName ActivityExecute,
       ev_Time = t,
       ev_SeverityID = SeverityInformational, ev_Severity = severityName SeverityInformational,
       ev_StatusID = statusID, ev_Status = statusName statusID, ev_StatusDetail = detail,
       ev_AgentID = agentID, ev_Actor = actor actorUser ''nexiscore'',
       ev_Resource = resource toolName ''mcp_tool'', ev_Action = ''tool_call'',
       ev_SigStatus = ''n/a'', ev_Metadata = nexiscoreMetadata,
       ev_RawData = NoRaw, ev_FindingType = '''', ev_FindingUID = '''' \<rparr>"

definition NewValidationFailEvent ::
  "int64 \<Rightarrow> int64 \<Rightarrow> string \<Rightarrow> string \<Rightarrow> string \<Rightarrow> bytes \<Rightarrow> OCSFEvent" where
  "NewValidationFailEvent t u agentID actorUser reason rawPayload =
     \<lparr> ev_ClassUID = ClassSecurityFinding, ev_ClassName = ''Security Finding'',
       ev_ActivityID = ActivityDeny, ev_ActivityName = activityName ActivityDeny,
       ev_Time = t,
       ev_SeverityID = SeverityHigh, ev_Severity = severityName SeverityHigh,
       ev_StatusID = StatusFailure, ev_Status = statusName StatusFailure,
       ev_StatusDetail = reason,
       ev_AgentID = agentID, ev_Actor = actor actorUser ''nexiscore'',
       ev_Resource = resource ''manifest'' ''cryptographic_proof'', ev_Action = ''validation_fail'',
       ev_SigStatus = ''failed'', ev_Metadata = nexiscoreMetadata,
       ev_RawData = (if length rawPayload > 0 then RawError reason else NoRaw),
       ev_FindingType = ''Signature Validation Failure'',
       ev_FindingUID = ''NEXIS-SIGFAIL-'' @ dec64 u \<rparr>"

definition NewAttestationEvent :: "int64 \<Rightarrow> string \<Rightarrow> string \<Rightarrow> string \<Rightarrow> OCSFEvent" where
  "NewAttestationEvent t agentID actorUser toolName =
     \<lparr> ev_ClassUID = ClassApplicationActivity, ev_ClassName = ''Application Activity'',
       ev_ActivityID = ActivityAudit, ev_ActivityName = activityName ActivityAudit,
       ev_Time = t,
       ev_SeverityID = SeverityInformational, ev_Severity = severityName SeverityInformational,
       ev_StatusID = StatusSuccess, ev_Status = statusName StatusSuccess,
       ev_StatusDetail = ''Provenance attestation passed'',
       ev_AgentID = agentID, ev_Actor = actor actorUser ''nexiscore'',
       ev_Resource = resource toolName ''mcp_tool'', ev_Action = ''attestation'',
       ev_SigStatus = ''verified'', ev_Metadata = nexiscoreMetadata,
       ev_RawData = NoRaw, ev_FindingType = '''', ev_FindingUID = '''' \<rparr>"

text \<open>The loop \<open>for k, v := range extraContext { rawMap[k] = v }\<close> over a map holding the reason.\<close>

definition kill_raw_map :: "string \<Rightarrow> (string, string) gomap \<Rightarrow> (string, json) gomap" where
  "kill_raw_map reason extraContext =
     fold (\<lambda>(k, v) m. gm_put m k (JStr v)) extraContext (gm_put [] ''kill_reason'' (JStr reason))"

definition NewKillSwitchEvent ::
  "int64 \<Rightarrow> int64 \<Rightarrow> string \<Rightarrow> string \<Rightarrow> (string, string) gomap \<Rightarrow> OCSFEvent" where
  "NewKillSwitchEvent t u agentID reason extraContext =
     \<lparr> ev_ClassUID = ClassSecurityFinding, ev_ClassName = ''Security Finding'',
       ev_ActivityID = ActivityTerminate, ev_ActivityName = activityName ActivityTerminate,
       ev_Time = t,
       ev_SeverityID = SeverityCritical, ev_Severity = severityName SeverityCritical,
       ev_StatusID = StatusFailure, ev_Status = statusName StatusFailure,
       ev_StatusDetail = ''Kill-switch protocol triggered: '' @ reason,
       ev_AgentID = agentID, ev_Actor = actor ''system'' ''nexiscore'',
       ev_Resource = resource ''nexiscore_process'' ''process'', ev_Action = ''kill_switch'',
       ev_SigStatus = ''n/a'', ev_Metadata = nexiscoreMetadata,
       ev_RawData = RawMap (JObj (kill_raw_map reason extraContext)),
       ev_FindingType = ''Runtime Tampering Detected'',
       ev_FindingUID = ''NEXIS-KILLSWITCH-'' @ dec64 u \<rparr>"

definition NewAgentRouteEvent ::
  "int64 \<Rightarrow> string \<Rightarrow> string \<Rightarrow> bool \<Rightarrow> string \<Rightarrow> OCSFEvent" where
  "NewAgentRouteEvent t fromAgentID toAgentID permitted reason =
     (let actID = (if permitted then ActivityAllow else ActivityDeny);
          statusID = (if permitted then StatusSuccess else StatusFailure);
          sevID = (if permitted then SeverityInformational else SeverityMedium) in
     \<lparr> ev_ClassUID = ClassApplicationActivity, ev_ClassName = ''Application Activity'',
       ev_ActivityID = actID, ev_ActivityName = activityName actID,
       ev_Time = t,
       ev_SeverityID = sevID, ev_Severity = severityName sevID,
       ev_StatusID = statusID, ev_Status = statusName statusID, ev_StatusDetail = reason,
       ev_AgentID = fromAgentID, ev_Actor = actor fromAgentID ''agent_router'',
       ev_Resource = resource toAgentID ''agent'', ev_Action = ''inter_agent_route'',
       ev_SigStatus = ''n/a'', ev_Metadata = nexiscoreMetadata,
       ev_RawData = NoRaw, ev_FindingType = '''', ev_FindingUID = '''' \<rparr>)"

definition NewDLPFindingEvent ::
  "int64 \<Rightarrow> int64 \<Rightarrow> string \<Rightarrow> string \<Rightarrow> nat \<Rightarrow> string list \<Rightarrow> OCSFEvent" where
  "NewDLPFindingEvent t u agentID targetDomain findingCount patterns =
     \<lparr> ev_ClassUID = ClassSecurityFinding, ev_ClassName = ''Security Finding'',
       ev_ActivityID = ActivityEncode, ev_ActivityName = activityName ActivityEncode,
       ev_Time = t,
       ev_SeverityID = SeverityHigh, ev_Severity = severityName SeverityHigh,
       ev_StatusID = StatusSuccess, ev_Status = statusName StatusSuccess,
       ev_StatusDetail = ''DLP pipeline redacted '' @ dec_nat findingCount
                           @ '' sensitive finding(s) before egress'',
       ev_AgentID = agentID, ev_Actor = actor ''egress_proxy'' ''nexiscore'',
       ev_Resource = resource targetDomain ''egress_endpoint'', ev_Action = ''dlp_redact'',
       ev_SigStatus = ''n/a'', ev_Metadata = nexiscoreMetadata,
       ev_RawData = RawMap (JObj [(''finding_count'', JNum (int findingCount)),
                                  (''patterns_hit'', JArr (map JStr patterns)),
                                  (''target_domain'', JStr targetDomain)]),
       ev_FindingType = ''Data Loss Prevention'',
       ev_FindingUID = ''NEXIS-DLP-'' @ dec64 u \<rparr>"

definition NewEgressBlockEvent ::
  "int64 \<Rightarrow> int64 \<Rightarrow> string \<Rightarrow> string \<Rightarrow> string \<Rightarrow> OCSFEvent" where
  "NewEgressBlockEvent t u agentID destination reason =
     \<lparr> ev_ClassUID = ClassSecurityFinding, ev_ClassName = ''Security Finding'',
       ev_ActivityID = ActivityDeny, ev_ActivityName = activityName ActivityDeny,
       ev_Time = t,
       ev_SeverityID = SeverityHigh, ev_Severity = severityName SeverityHigh,
       ev_StatusID = StatusFailure, ev_Status = statusName StatusFailure,
       ev_StatusDetail = ''Egress blocked to unauthorized destination: '' @ destination,
       ev_AgentID = agentID, ev_Actor = actor ''egress_proxy'' ''nexiscore'',
       ev_Resource = resource destination ''egress_endpoint'', ev_Action = ''egress_block'',
       ev_SigStatus = ''n/a'', ev_Metadata = nexiscoreMetadata,
       ev_RawData = RawMap (JObj [(''destination'', JStr destination), (''reason'', JStr reason)]),
       ev_FindingType = ''Unauthorized Egress Attempt'',
       ev_FindingUID = ''NEXIS-EGRESS-'' @ dec64 u \<rparr>"

definition NewMemoryTamperEvent :: "int64 \<Rightarrow> int64 \<Rightarrow> string \<Rightarrow> string \<Rightarrow> OCSFEvent" where
  "NewMemoryTamperEvent t u agentID detail =
     \<lparr> ev_ClassUID = ClassSecurityFinding, ev_ClassName = ''Security Finding'',
       ev_ActivityID = ActivityTerminate, ev_ActivityName = activityName ActivityTerminate,
       ev_Time = t,
       ev_SeverityID = SeverityCritical, ev_Severity = severityName SeverityCritical,
       ev_StatusID = StatusFailure, ev_Status = statusName StatusFailure,
       ev_StatusDetail = ''Binary .text segment hash mismatch: '' @ detail,
       ev_AgentID = agentID, ev_Actor = actor ''system'' ''memcheck'',
       ev_Resource = resource ''/proc/self/exe'' ''process_binary'',
       ev_Action = ''memory_integrity_fail'',
       ev_SigStatus = ''n/a'', ev_Metadata = nexiscoreMetadata,
       ev_RawData = RawMap (JObj [(''detail'', JStr detail)]),
       ev_FindingType = ''Memory Tampering'',
       ev_FindingUID = ''NEXIS-MEMTAMPER-'' @ dec64 u \<rparr>"

definition NewSandboxLaunchEvent ::
  "int64 \<Rightarrow> string \<Rightarrow> string \<Rightarrow> int \<Rightarrow> int \<Rightarrow> string \<Rightarrow> OCSFEvent" where
  "NewSandboxLaunchEvent t agentID toolName pid statusID detail =
     \<lparr> ev_ClassUID = ClassApplicationActivity, ev_ClassName = ''Application Activity'',
       ev_ActivityID = ActivityExecute, ev_ActivityName = activityName ActivityExecute,
       ev_Time = t,
       ev_SeverityID = SeverityInformational, ev_Severity = severityName SeverityInformational,
       ev_StatusID = statusID, ev_Status = statusName statusID, ev_StatusDetail = detail,
       ev_AgentID = agentID, ev_Actor = actor ''sandbox_manager'' ''nexiscore'',
       ev_Resource = \<lparr> rs_Name = toolName, rs_Type = ''sandbox_container'',
                       rs_UID = ''pid:'' @ dec_int pid \<rparr>,
       ev_Action = ''sandbox_launch'',
       ev_SigStatus = ''n/a'', ev_Metadata = nexiscoreMetadata,
       ev_RawData = RawMap (JObj [(''sandbox_pid'', JNum pid)]),
       ev_FindingType = '''', ev_FindingUID = '''' \<rparr>"

lemmas event_defs =
  NewToolCallEvent_def NewValidationFailEvent_def NewAttestationEvent_def NewKillSwitchEvent_def
  NewAgentRouteEvent_def NewDLPFindingEvent_def NewEgressBlockEvent_def NewMemoryTamperEvent_def
  NewSandboxLaunchEvent_def

subsection \<open>Well-formed events\<close>

text \<open>
  The schema the struct's comments promise: identifiers and names agree, the class is one of the
  two, and the finding fields are set exactly for security findings.
\<close>

definition event_ok :: "OCSFEvent \<Rightarrow> bool" where
  "event_ok e \<longleftrightarrow>
     ((ev_ClassUID e = ClassApplicationActivity \<and> ev_ClassName e = ''Application Activity'')
      \<or> (ev_ClassUID e = ClassSecurityFinding \<and> ev_ClassName e = ''Security Finding''))
     \<and> ev_ActivityName e = activityName (ev_ActivityID e) \<and> ev_ActivityName e \<noteq> ''Unknown''
     \<and> ev_Severity e = severityName (ev_SeverityID e) \<and> ev_Severity e \<noteq> ''Unknown''
     \<and> ev_Status e = statusName (ev_StatusID e)
     \<and> (ev_FindingType e \<noteq> '''' \<longleftrightarrow> ev_ClassUID e = ClassSecurityFinding)
     \<and> (ev_FindingUID e \<noteq> '''' \<longleftrightarrow> ev_ClassUID e = ClassSecurityFinding)
     \<and> ev_SigStatus e \<in> {''verified'', ''failed'', ''n/a''}
     \<and> ev_Metadata e = nexiscoreMetadata"

text \<open>The events the program can build.\<close>

inductive built :: "OCSFEvent \<Rightarrow> bool" where
  tool: "built (NewToolCallEvent t a b c st d)"
| validation: "built (NewValidationFailEvent t u a b r p)"
| attestation: "built (NewAttestationEvent t a b c)"
| kill: "built (NewKillSwitchEvent t u a r ctx)"
| route: "built (NewAgentRouteEvent t a b p r)"
| dlp: "built (NewDLPFindingEvent t u a d n ps)"
| block: "built (NewEgressBlockEvent t u a d r)"
| tamper: "built (NewMemoryTamperEvent t u a d)"
| sandbox: "built (NewSandboxLaunchEvent t a b pid st d)"

lemma Marshal_fails_iff:
  "Marshal U e = None \<longleftrightarrow>
     (\<exists>reason. ev_RawData e = RawError reason \<and> \<not> json_valid (error_text U reason))"
  by (cases "ev_RawData e") (auto simp: Marshal_def raw_json_def)

subsection \<open>Properties\<close>

text \<open>
  Every event a constructor builds obeys the OCSF schema, and the only one that can fail to
  marshal is the validation-failure event, the one whose raw data is formatted by hand.
\<close>

theorem built_event_ok:
  assumes "built e"
  shows "event_ok e
    \<and> (Marshal U e = None \<longrightarrow> ev_Action e = ''validation_fail'' \<and> ev_RawData e = RawError (ev_StatusDetail e))"
  using assms
  by (cases rule: built.cases)
     (simp_all add: event_ok_def event_defs class_defs activity_defs severity_defs status_defs
        name_defs Let_def Marshal_fails_iff)

theorem built_event_ok_witness:
  "event_ok (NewSandboxLaunchEvent 5 ''a'' ''python'' 7 StatusSuccess ''exit_code=0'')"
  using built_event_ok [OF built.sandbox [of 5 "''a''" "''python''" 7 StatusSuccess "''exit_code=0''"]]
  by blast

text \<open>
  A validation-failure event is lost when its reason holds a rune whose escape in Go is not one of JSON:
  a stray byte, one of certain control characters, or a code point above the basic plane that Go does not
  print. With any other reason, and a non-empty payload, it marshals.
\<close>

theorem validation_event_marshals_iff:
  assumes "rawPayload \<noteq> []"
  shows "Marshal U (NewValidationFailEvent t u agentID actorUser reason rawPayload) \<noteq> None
     \<longleftrightarrow> (\<forall>x \<in> set (runes reason). json_rune U x)"
  using assms by (simp add: Marshal_fails_iff NewValidationFailEvent_def error_text_valid)

theorem validation_event_marshals_iff_witness:
  "\<forall>U t u. Marshal U (NewValidationFailEvent t u ''gateway'' ''10.0.0.9'' [CHR ''k'', CHR 0x07] ''{}'') = None"
proof -
  have "''{}'' \<noteq> []" by simp
  note m = validation_event_marshals_iff [OF this, of _ _ _ "''gateway''" "''10.0.0.9''" "[CHR ''k'', CHR 0x07]"]
  have "\<not> json_rune U (7, [CHR 0x07])" for U by (simp add: json_rune_def quote_json_safe_def)
  then have "\<not> (\<forall>x \<in> set (runes [CHR ''k'', CHR 0x07]). json_rune U x)" for U by (simp add: runes_ascii ascii_def)
  then show ?thesis using m by blast
qed

text \<open>Where it marshals, the tree under \<open>raw_data\<close> is what a reader of the hand-written text gets.\<close>

theorem raw_error_reads_back:
  "raw_json U (RawError reason) =
     (if json_valid (error_text U reason)
      then map_option (\<lambda>j. [(''raw_data'', j)]) (json_parse (error_text U reason)) else None)"
  by (simp add: raw_json_def error_text_parsed)

end
