(* ===== verification/Siem.thy ===== *)
theory Siem
  imports Ocsf
begin

text \<open>
  \<open>telemetry/siem.go\<close>: the Splunk HEC forwarder. The HTTP exchange is the environment: \<open>net k\<close> is
  what attempt \<open>k\<close> of one flush meets. Each critical section of the source is one function, so that
  the interleavings of workers, ticker and shutdown are sequences of these functions.
\<close>

record SIEMConfig =
  sc_EndpointURL :: string
  sc_Token :: string
  sc_TLSSkipVerify :: bool
  sc_BatchSize :: int
  sc_FlushInterval :: time
  sc_MaxRetries :: int
  sc_DeadLetterPath :: string
  sc_Index :: string
  sc_Sourcetype :: string

definition DefaultSIEMConfig :: "string \<Rightarrow> string \<Rightarrow> SIEMConfig" where
  "DefaultSIEMConfig url token =
     \<lparr> sc_EndpointURL = url, sc_Token = token, sc_TLSSkipVerify = False, sc_BatchSize = 50,
       sc_FlushInterval = 2 * second, sc_MaxRetries = 3,
       sc_DeadLetterPath = ''siem_deadletter.jsonl'', sc_Index = '''',
       sc_Sourcetype = ''nexiscore:ocsf'' \<rparr>"

text \<open>One entry of the dead-letter file. A line is an entry, or empty when its event did not marshal.\<close>

record dl_entry =
  dl_reason :: string
  dl_time :: time
  dl_event :: json

type_synonym dl_line = "dl_entry option"

text \<open>\<open>sf_deadletter\<close>: the file's lines, \<open>None\<close> for a nil handle; \<open>sf_dlOpen\<close>: the handle is open.\<close>

record SIEMForwarder =
  sf_cfg :: SIEMConfig
  sf_batch :: "OCSFEvent list"
  sf_stopCh :: bool
  sf_hostname :: string
  sf_flushed :: int64
  sf_failed :: int64
  sf_deadletter :: "dl_line list option"
  sf_dlOpen :: bool

text \<open>The defaults \<open>NewSIEMForwarder\<close> fills in once the endpoint is known.\<close>

definition siem_fill :: "SIEMConfig \<Rightarrow> SIEMConfig" where
  "siem_fill c =
     (let c1 = (if sc_BatchSize c \<le> 0 then c\<lparr>sc_BatchSize := 50\<rparr> else c);
          c2 = (if sc_FlushInterval c1 \<le> 0 then c1\<lparr>sc_FlushInterval := 2 * second\<rparr> else c1);
          c3 = (if sc_MaxRetries c2 \<le> 0 then c2\<lparr>sc_MaxRetries := 3\<rparr> else c2);
          c4 = (if sc_DeadLetterPath c3 = ''''
                then c3\<lparr>sc_DeadLetterPath := ''siem_deadletter.jsonl''\<rparr> else c3)
      in if sc_Sourcetype c4 = '''' then c4\<lparr>sc_Sourcetype := ''nexiscore:ocsf''\<rparr> else c4)"

text \<open>
  \<open>NewSIEMForwarder\<close>: \<open>envURL\<close> and \<open>envToken\<close> are the two environment variables, \<open>opened\<close> the result
  of opening the dead-letter file (its lines so far). \<open>Inr None\<close> is the nil forwarder without error.
  \<open>OpenFailed path err\<close> is the wrapped error for a file that does not open.
\<close>

datatype open_error = OpenFailed string string

definition NewSIEMForwarder ::
  "string \<Rightarrow> string \<Rightarrow> string \<Rightarrow> (string + dl_line list) \<Rightarrow> SIEMConfig \<Rightarrow>
     open_error + SIEMForwarder option"
where
  "NewSIEMForwarder envURL envToken host opened cfg0 =
     (let cfg1 = (if sc_EndpointURL cfg0 = '''' then cfg0\<lparr>sc_EndpointURL := envURL\<rparr> else cfg0);
          cfg2 = (if sc_Token cfg1 = '''' then cfg1\<lparr>sc_Token := envToken\<rparr> else cfg1)
      in if sc_EndpointURL cfg2 = '''' then Inr None
         else case opened of
           Inl e \<Rightarrow> Inl (OpenFailed (sc_DeadLetterPath (siem_fill cfg2)) e)
         | Inr ls \<Rightarrow> Inr (Some
             \<lparr> sf_cfg = siem_fill cfg2, sf_batch = [], sf_stopCh = False, sf_hostname = host,
               sf_flushed = 0, sf_failed = 0, sf_deadletter = Some ls, sf_dlOpen = True \<rparr>))"

subsection \<open>Sending one batch\<close>

datatype post_result = ReqError string | NetError string | Status nat

datatype flush_end = Delivered nat | GaveUp "string option"

definition backoff :: "nat \<Rightarrow> time" where
  "backoff attempt = int (attempt * attempt) * 500 * millisecond"

text \<open>
  The retry loop: how it ends, how many requests were sent and the sleeps between them, given the
  loop variable and the last error.
\<close>

function flush_attempts ::
  "(nat \<Rightarrow> post_result) \<Rightarrow> int \<Rightarrow> nat \<Rightarrow> string option \<Rightarrow> flush_end \<times> nat \<times> time list" where
  "flush_attempts net maxRetries attempt lastErr =
     (if int attempt \<le> maxRetries then
        (case net attempt of
           ReqError e \<Rightarrow> (GaveUp (Some e), 0, [])
         | NetError e \<Rightarrow>
             (let (r, n, bs) = flush_attempts net maxRetries (Suc attempt) (Some e)
              in (r, Suc n, backoff attempt # bs))
         | Status code \<Rightarrow>
             if code = 200 \<or> code = 204 then (Delivered code, 1, [])
             else
               (let e = ''HTTP '' @ dec_nat code in
                if 400 \<le> code \<and> code < 500 then (GaveUp (Some e), 1, [])
                else
                  (let (r, n, bs) = flush_attempts net maxRetries (Suc attempt) (Some e)
                   in (r, Suc n, backoff attempt # bs))))
      else (GaveUp lastErr, 0, []))"
  by pat_completeness auto
termination
  by (relation "measure (\<lambda>(net, m, a, e). nat (m + 1 - int a))") auto

declare flush_attempts.simps [simp del]

text \<open>
  \<open>buildHECBody\<close>: the wrapped events, or the error of the first that does not marshal, which is one with raw
  data that is not JSON.
\<close>

definition hec_wrapper :: "SIEMForwarder \<Rightarrow> OCSFEvent \<Rightarrow> json \<Rightarrow> json" where
  "hec_wrapper f ev j = JObj
     ([(''time'', JDec (sint (ev_Time ev)) 3)]
      @ omitempty ''host'' (sf_hostname f) @ omitempty ''source'' ''nexiscore''
      @ omitempty ''sourcetype'' (sc_Sourcetype (sf_cfg f)) @ omitempty ''index'' (sc_Index (sf_cfg f))
      @ [(''event'', j)])"

definition marshal_error_text :: "unicode \<Rightarrow> OCSFEvent \<Rightarrow> string" where
  "marshal_error_text U ev =
     (case ev_RawData ev of RawError reason \<Rightarrow> uni_rawError U (error_text U reason) | _ \<Rightarrow> '''')"

fun buildHECBody :: "unicode \<Rightarrow> SIEMForwarder \<Rightarrow> OCSFEvent list \<Rightarrow> string + json list" where
  "buildHECBody U f [] = Inr []"
| "buildHECBody U f (ev # evs) =
     (case Marshal U ev of
        None \<Rightarrow> Inl (''failed marshalling event: '' @ marshal_error_text U ev)
      | Some j \<Rightarrow> map_sum id ((#) (hec_wrapper f ev j)) (buildHECBody U f evs))"

definition deadLetter ::
  "unicode \<Rightarrow> clock \<Rightarrow> SIEMForwarder \<Rightarrow> OCSFEvent list \<Rightarrow> string \<Rightarrow> SIEMForwarder" where
  "deadLetter U clk f events reason =
     (let f1 = f\<lparr>sf_failed := sf_failed f + of_nat (length events)\<rparr> in
      case sf_deadletter f1 of
        None \<Rightarrow> f1
      | Some ls \<Rightarrow>
          if sf_dlOpen f1
          then f1\<lparr>sf_deadletter := Some (ls @ map (\<lambda>(i, ev).
                 map_option (\<lambda>j. \<lparr> dl_reason = reason, dl_time = clk i, dl_event = j \<rparr>)
                   (Marshal U ev))
                 (enumerate 0 events))\<rparr>
          else f1)"

definition show_err :: "string option \<Rightarrow> string" where
  "show_err e = (case e of None \<Rightarrow> ''<nil>'' | Some m \<Rightarrow> m)"

text \<open>\<open>flush\<close>: one POST per attempt, the dead-letter file when there is nothing to send or nobody takes it.\<close>

definition siem_flush ::
  "unicode \<Rightarrow> (nat \<Rightarrow> post_result) \<Rightarrow> clock \<Rightarrow> SIEMForwarder \<Rightarrow> OCSFEvent list \<Rightarrow> SIEMForwarder" where
  "siem_flush U net clk f events =
     (if length events = 0 then f
      else case buildHECBody U f events of
        Inl e \<Rightarrow> deadLetter U clk f events (''marshal_error: '' @ e)
      | Inr body \<Rightarrow>
          (case fst (flush_attempts net (sc_MaxRetries (sf_cfg f)) 1 None) of
             Delivered code \<Rightarrow> f\<lparr>sf_flushed := sf_flushed f + of_nat (length events)\<rparr>
           | GaveUp lastErr \<Rightarrow>
               deadLetter U clk f events (''retries_exhausted: '' @ show_err lastErr)))"

subsection \<open>Batching\<close>

text \<open>The locked part of \<open>Enqueue\<close>: the forwarder and the batch to flush, empty when there is none.\<close>

definition enqueue_locked :: "SIEMForwarder \<Rightarrow> OCSFEvent \<Rightarrow> SIEMForwarder \<times> OCSFEvent list" where
  "enqueue_locked f ev =
     (let b = sf_batch f @ [ev];
          shouldFlush = (int (length b) \<ge> sc_BatchSize (sf_cfg f))
      in if shouldFlush then (f\<lparr>sf_batch := []\<rparr>, b) else (f\<lparr>sf_batch := b\<rparr>, []))"

definition Enqueue ::
  "unicode \<Rightarrow> (nat \<Rightarrow> post_result) \<Rightarrow> clock \<Rightarrow> SIEMForwarder \<Rightarrow> OCSFEvent \<Rightarrow> SIEMForwarder" where
  "Enqueue U net clk f ev =
     (let (f', toFlush) = enqueue_locked f ev
      in if toFlush \<noteq> [] then siem_flush U net clk f' toFlush else f')"

text \<open>One tick of \<open>backgroundFlusher\<close>, its locked part, and the locked part of \<open>Shutdown\<close>.\<close>

definition take_batch :: "SIEMForwarder \<Rightarrow> SIEMForwarder \<times> OCSFEvent list" where
  "take_batch f =
     (if length (sf_batch f) = 0 then (f, []) else (f\<lparr>sf_batch := []\<rparr>, sf_batch f))"

definition flusher_tick ::
  "unicode \<Rightarrow> (nat \<Rightarrow> post_result) \<Rightarrow> clock \<Rightarrow> SIEMForwarder \<Rightarrow> SIEMForwarder" where
  "flusher_tick U net clk f =
     (let (f', toFlush) = take_batch f
      in if toFlush = [] then f' else siem_flush U net clk f' toFlush)"

text \<open>\<open>Shutdown\<close>: \<open>None\<close> is the panic of closing \<open>stopCh\<close> twice.\<close>

definition siem_Shutdown ::
  "unicode \<Rightarrow> (nat \<Rightarrow> post_result) \<Rightarrow> clock \<Rightarrow> SIEMForwarder \<Rightarrow> SIEMForwarder option" where
  "siem_Shutdown U net clk f =
     (if sf_stopCh f then None
      else
        (let f1 = f\<lparr>sf_stopCh := True\<rparr>;
             remaining = sf_batch f1;
             f2 = f1\<lparr>sf_batch := []\<rparr>;
             f3 = (if length remaining > 0 then siem_flush U net clk f2 remaining else f2)
         in Some (if sf_deadletter f3 \<noteq> None then f3\<lparr>sf_dlOpen := False\<rparr> else f3)))"

subsection \<open>Lemmas\<close>

lemma flush_attempts_sent:
  "fst (snd (flush_attempts net m a e)) \<le> nat (m + 1 - int a)"
proof (induction net m a e rule: flush_attempts.induct)
  case (1 net m a e)
  show ?case
  proof (cases "int a \<le> m")
    case True
    with 1 show ?thesis
      by (subst flush_attempts.simps)
         (fastforce simp: Let_def split: post_result.splits prod.splits)
  next
    case False
    then show ?thesis by (subst flush_attempts.simps) simp
  qed
qed

lemma flush_attempts_delivered:
  "fst (flush_attempts net m a e) = Delivered c \<Longrightarrow>
     \<exists>k \<ge> a. int k \<le> m \<and> net k = Status c \<and> (c = 200 \<or> c = 204)"
proof (induction net m a e rule: flush_attempts.induct)
  case (1 net m a e)
  show ?case
  proof (cases "int a \<le> m")
    case True
    with 1 show ?thesis
      by (subst (asm) (3) flush_attempts.simps)
         (force simp: Let_def split: post_result.splits prod.splits if_splits dest: Suc_leD)
  next
    case False
    with "1.prems" show ?thesis by (subst (asm) flush_attempts.simps) simp
  qed
qed

lemma siem_fill_BatchSize: "sc_BatchSize (siem_fill c) = (if sc_BatchSize c \<le> 0 then 50 else sc_BatchSize c)"
  by (simp add: siem_fill_def Let_def)

lemma NewSIEMForwarder_fresh:
  assumes "NewSIEMForwarder envURL envToken host opened cfg = Inr (Some f)"
  shows "sf_flushed f = 0" and "sf_failed f = 0" and "sf_batch f = []"
    and "0 < sc_BatchSize (sf_cfg f)"
proof -
  obtain c ls where "f = \<lparr> sf_cfg = siem_fill c, sf_batch = [], sf_stopCh = False, sf_hostname = host,
      sf_flushed = 0, sf_failed = 0, sf_deadletter = Some ls, sf_dlOpen = True \<rparr>"
  proof -
    define c1 where "c1 = (if sc_EndpointURL cfg = [] then cfg\<lparr>sc_EndpointURL := envURL\<rparr> else cfg)"
    define c2 where "c2 = (if sc_Token c1 = [] then c1\<lparr>sc_Token := envToken\<rparr> else c1)"
    from assms have "(if sc_EndpointURL c2 = [] then Inr None
         else case opened of
           Inl e \<Rightarrow> Inl (OpenFailed (sc_DeadLetterPath (siem_fill c2)) e)
         | Inr ls \<Rightarrow> Inr (Some
             \<lparr> sf_cfg = siem_fill c2, sf_batch = [], sf_stopCh = False, sf_hostname = host,
               sf_flushed = 0, sf_failed = 0, sf_deadletter = Some ls, sf_dlOpen = True \<rparr>)) = Inr (Some f)"
      unfolding NewSIEMForwarder_def Let_def c1_def [symmetric] c2_def [symmetric] .
    then show ?thesis
      using that [of c2] by (cases "sc_EndpointURL c2 = []"; cases opened) auto
  qed
  then show "sf_flushed f = 0" and "sf_failed f = 0" and "sf_batch f = []"
    and "0 < sc_BatchSize (sf_cfg f)"
    by (simp_all add: siem_fill_BatchSize)
qed

lemma deadLetter_lines:
  assumes "sf_deadletter f = Some ls" and "sf_dlOpen f"
  shows "\<exists>new. deadLetter U clk f evs reason
        = f\<lparr>sf_failed := sf_failed f + of_nat (length evs), sf_deadletter := Some (ls @ new)\<rparr>
      \<and> length new = length evs \<and> (\<forall>l. Some l \<in> set new \<longrightarrow> dl_reason l = reason)
      \<and> map (map_option dl_event) new = map (Marshal U) evs"
proof -
  let ?new = "map (\<lambda>(i, ev). map_option (\<lambda>j. \<lparr> dl_reason = reason, dl_time = clk i, dl_event = j \<rparr>) (Marshal U ev))
    (enumerate 0 evs)"
  have "map (\<lambda>x. Marshal U (snd x)) (enumerate n evs) = map (Marshal U) evs" for n
    by (induction evs arbitrary: n) simp_all
  then have "map (map_option dl_event) ?new = map (Marshal U) evs"
    by (simp add: comp_def case_prod_beta option.map_comp option.map_ident)
  moreover have "\<forall>l. Some l \<in> set ?new \<longrightarrow> dl_reason l = reason"
    by (auto simp: map_option_case split: option.splits)
  moreover have "length ?new = length evs" by simp
  moreover have "deadLetter U clk f evs reason
        = f\<lparr>sf_failed := sf_failed f + of_nat (length evs), sf_deadletter := Some (ls @ ?new)\<rparr>"
    using assms by (simp add: deadLetter_def Let_def)
  ultimately show ?thesis by blast
qed

lemma siem_flush_cases:
  assumes "evs \<noteq> []"
  shows "(\<exists>k c. 1 \<le> k \<and> int k \<le> sc_MaxRetries (sf_cfg f) \<and> net k = Status c \<and> (c = 200 \<or> c = 204)
          \<and> siem_flush U net clk f evs = f\<lparr>sf_flushed := sf_flushed f + of_nat (length evs)\<rparr>)
       \<or> (\<exists>reason. siem_flush U net clk f evs = deadLetter U clk f evs reason)"
proof (cases "buildHECBody U f evs")
  case (Inl e)
  with assms show ?thesis by (auto simp: siem_flush_def)
next
  case (Inr body)
  show ?thesis
  proof (cases "fst (flush_attempts net (sc_MaxRetries (sf_cfg f)) 1 None)")
    case (Delivered c)
    with assms Inr flush_attempts_delivered [OF this] show ?thesis
      by (auto simp: siem_flush_def)
  next
    case (GaveUp e)
    with assms Inr show ?thesis by (auto simp: siem_flush_def)
  qed
qed

lemma siem_flush_frame [simp]:
  "sf_cfg (siem_flush U net clk f evs) = sf_cfg f"
  "sf_batch (siem_flush U net clk f evs) = sf_batch f"
  "sf_stopCh (siem_flush U net clk f evs) = sf_stopCh f"
  by (simp_all add: siem_flush_def deadLetter_def Let_def split: sum.split option.split flush_end.split)

lemma siem_flush_counts:
  "sf_flushed (siem_flush U net clk f evs) + sf_failed (siem_flush U net clk f evs)
     = sf_flushed f + sf_failed f + of_nat (length evs)"
  by (simp add: siem_flush_def deadLetter_def Let_def split: sum.split option.split flush_end.split)

lemma enqueue_locked_parts:
  "enqueue_locked f ev = (f', b) \<Longrightarrow>
     b @ sf_batch f' = sf_batch f @ [ev] \<and> sf_flushed f' = sf_flushed f \<and> sf_failed f' = sf_failed f
     \<and> sf_cfg f' = sf_cfg f"
  by (auto simp: enqueue_locked_def Let_def split: if_splits)

lemma take_batch_parts:
  "take_batch f = (f', b) \<Longrightarrow>
     b = sf_batch f \<and> sf_batch f' = [] \<and> sf_flushed f' = sf_flushed f \<and> sf_failed f' = sf_failed f
     \<and> sf_cfg f' = sf_cfg f"
  by (auto simp: take_batch_def split: if_splits)

lemma enqueue_locked_bound:
  assumes "0 < sc_BatchSize (sf_cfg f)" and "int (length (sf_batch f)) < sc_BatchSize (sf_cfg f)"
  shows "int (length (sf_batch (fst (enqueue_locked f ev)))) < sc_BatchSize (sf_cfg f)"
    and "int (length (snd (enqueue_locked f ev))) \<le> sc_BatchSize (sf_cfg f)"
  using assms by (auto simp: enqueue_locked_def Let_def)

subsection \<open>Interleavings\<close>

text \<open>
  The forwarder with the batches that were taken out under the lock and are still being flushed
  (by workers, by the ticker, by shutdown), and the number of events enqueued so far.
\<close>

record siem_sys =
  ss_f :: SIEMForwarder
  ss_inflight :: "OCSFEvent list list"
  ss_total :: nat

inductive siem_step :: "unicode \<Rightarrow> siem_sys \<Rightarrow> siem_sys \<Rightarrow> bool" for U where
  enq: "enqueue_locked (ss_f s) ev = (f', b) \<Longrightarrow>
     siem_step U s \<lparr> ss_f = f', ss_inflight = ss_inflight s @ (if b \<noteq> [] then [b] else []),
                     ss_total = Suc (ss_total s) \<rparr>"
| take: "take_batch (ss_f s) = (f', b) \<Longrightarrow>
     siem_step U s (s\<lparr>ss_f := f', ss_inflight := ss_inflight s @ (if b \<noteq> [] then [b] else [])\<rparr>)"
| deliver: "ss_inflight s = xs @ b # ys \<Longrightarrow>
     siem_step U s (s\<lparr>ss_f := siem_flush U net clk (ss_f s) b, ss_inflight := xs @ ys\<rparr>)"

inductive siem_reach :: "unicode \<Rightarrow> SIEMForwarder \<Rightarrow> siem_sys \<Rightarrow> bool" for U f0 where
  start: "siem_reach U f0 \<lparr> ss_f = f0, ss_inflight = [], ss_total = 0 \<rparr>"
| step: "siem_reach U f0 s \<Longrightarrow> siem_step U s s' \<Longrightarrow> siem_reach U f0 s'"

inductive_cases siem_stepE: "siem_step U s s'"

definition siem_count :: "siem_sys \<Rightarrow> int64" where
  "siem_count s = sf_flushed (ss_f s) + sf_failed (ss_f s)
     + of_nat (length (sf_batch (ss_f s))) + of_nat (length (concat (ss_inflight s)))"

lemma siem_step_count:
  assumes "siem_step U s s'"
  shows "siem_count s' - of_nat (ss_total s') = siem_count s - of_nat (ss_total s)"
  using assms
proof (cases rule: siem_step.cases)
  case (enq ev f' b)
  have parts: "b @ sf_batch f' = sf_batch (ss_f s) @ [ev]" "sf_flushed f' = sf_flushed (ss_f s)"
      "sf_failed f' = sf_failed (ss_f s)"
    using enqueue_locked_parts [OF enq(2)] by auto
  from arg_cong [OF parts(1), of length]
  have "length b + length (sf_batch f') = Suc (length (sf_batch (ss_f s)))" by simp
  then have "of_nat (length b) + of_nat (length (sf_batch f'))
      = (of_nat (length (sf_batch (ss_f s))) + 1 :: int64)"
    by (metis Suc_eq_plus1 of_nat_1 of_nat_add)
  moreover have "length (concat (if b \<noteq> [] then [b] else [])) = length b" by simp
  ultimately show ?thesis
    using parts by (simp add: siem_count_def enq(1) algebra_simps split del: if_split)
next
  case (take f' b)
  with take_batch_parts [OF take(2)] show ?thesis
    by (simp add: siem_count_def)
next
  case (deliver xs b ys net clk)
  have "sf_flushed (siem_flush U net clk (ss_f s) b) + sf_failed (siem_flush U net clk (ss_f s) b)
     = sf_flushed (ss_f s) + sf_failed (ss_f s) + of_nat (length b)"
    by (rule siem_flush_counts)
  with deliver show ?thesis by (simp add: siem_count_def algebra_simps)
qed

definition batches_ok :: "int \<Rightarrow> siem_sys \<Rightarrow> bool" where
  "batches_ok n s \<longleftrightarrow>
     sc_BatchSize (sf_cfg (ss_f s)) = n \<and> int (length (sf_batch (ss_f s))) < n
     \<and> (\<forall>b \<in> set (ss_inflight s). b \<noteq> [] \<and> int (length b) \<le> n)"

lemma siem_step_batches:
  assumes "siem_step U s s'" and "0 < n" and "batches_ok n s"
  shows "batches_ok n s'"
  using assms(1)
proof (cases rule: siem_step.cases)
  case (enq ev f' b)
  with assms(2,3) enqueue_locked_bound [of "ss_f s" ev] enqueue_locked_parts [OF enq(2)]
  show ?thesis by (auto simp: batches_ok_def)
next
  case (take f' b)
  with assms(2,3) take_batch_parts [OF take(2)] show ?thesis
    by (auto simp: batches_ok_def)
next
  case (deliver xs b ys net clk)
  with assms(2,3) show ?thesis by (auto simp: batches_ok_def)
qed

subsection \<open>Properties\<close>

text \<open>
  C10: no event is lost or duplicated between the batch, the batches being sent and the two
  counters. In every interleaving of enqueues, ticks and deliveries from a fresh forwarder, the
  number of events enqueued is flushed plus dead-lettered plus waiting plus in flight (as 64-bit
  counters), the pending batch stays below the batch size and no request carries more than it.
\<close>

theorem siem_conservation:
  assumes "siem_reach U f0 s"
    and "NewSIEMForwarder envURL envToken host opened cfg = Inr (Some f0)"
  shows "siem_count s = of_nat (ss_total s) \<and> batches_ok (sc_BatchSize (sf_cfg f0)) s"
proof -
  note f0 = NewSIEMForwarder_fresh [OF assms(2)]
  have "siem_count s - of_nat (ss_total s) = 0 \<and> batches_ok (sc_BatchSize (sf_cfg f0)) s"
    using assms(1)
  proof (induction rule: siem_reach.induct)
    case start
    then show ?case using f0 by (simp add: siem_count_def batches_ok_def)
  next
    case (step s s')
    with siem_step_count siem_step_batches f0(4) show ?case by metis
  qed
  then show ?thesis by simp
qed

theorem siem_conservation_witness:
  "let f0 = \<lparr> sf_cfg = siem_fill (DefaultSIEMConfig ''https://splunk:8088'' ''tok''), sf_batch = [],
              sf_stopCh = False, sf_hostname = ''h'', sf_flushed = 0, sf_failed = 0,
              sf_deadletter = Some [], sf_dlOpen = True \<rparr>;
       ev = NewAttestationEvent 1 ''a'' ''u'' ''t'';
       s = \<lparr> ss_f = f0\<lparr>sf_batch := [ev]\<rparr>, ss_inflight = [], ss_total = 1 \<rparr>
   in siem_count s = 1 \<and> batches_ok 50 s"
proof -
  let ?c = "DefaultSIEMConfig ''https://splunk:8088'' ''tok''"
  let ?f0 = "\<lparr> sf_cfg = siem_fill ?c, sf_batch = [],
              sf_stopCh = False, sf_hostname = ''h'', sf_flushed = 0, sf_failed = 0,
              sf_deadletter = Some [], sf_dlOpen = True \<rparr>"
  let ?ev = "NewAttestationEvent 1 ''a'' ''u'' ''t''"
  have new: "NewSIEMForwarder [] [] ''h'' (Inr []) ?c = Inr (Some ?f0)"
    by (simp add: NewSIEMForwarder_def DefaultSIEMConfig_def)
  have fifty: "sc_BatchSize (siem_fill ?c) = 50"
    by (simp add: siem_fill_BatchSize DefaultSIEMConfig_def)
  have e: "enqueue_locked (ss_f \<lparr> ss_f = ?f0, ss_inflight = [], ss_total = 0 \<rparr>) ?ev
      = (?f0\<lparr>sf_batch := [?ev]\<rparr>, [])"
    by (simp add: enqueue_locked_def fifty)
  have r: "siem_reach undefined ?f0 \<lparr> ss_f = ?f0\<lparr>sf_batch := [?ev]\<rparr>, ss_inflight = [], ss_total = 1 \<rparr>"
    using siem_reach.step [OF siem_reach.start siem_step.enq [OF e]] by simp
  show ?thesis
    using siem_conservation [OF r new] fifty by (simp add: Let_def)
qed

text \<open>
  C39: flushing terminates within the retry budget and never claims a delivery that did not happen.
  At most \<open>MaxRetries\<close> requests are sent; the delivered counter grows only when some attempt within
  the budget was answered 200 or 204, by the size of the batch; otherwise the whole batch is
  dead-lettered, every event with its own line (an empty one when it does not marshal), and the
  failed counter grows by that size.
\<close>

theorem siem_flush_outcome:
  assumes "evs \<noteq> []" and "sf_deadletter f = Some ls" and "sf_dlOpen f"
  shows "fst (snd (flush_attempts net (sc_MaxRetries (sf_cfg f)) 1 None)) \<le> nat (sc_MaxRetries (sf_cfg f))
    \<and> ((\<exists>k c. 1 \<le> k \<and> int k \<le> sc_MaxRetries (sf_cfg f) \<and> net k = Status c \<and> (c = 200 \<or> c = 204)
          \<and> siem_flush U net clk f evs = f\<lparr>sf_flushed := sf_flushed f + of_nat (length evs)\<rparr>)
       \<or> (\<exists>reason new. siem_flush U net clk f evs
              = f\<lparr>sf_failed := sf_failed f + of_nat (length evs), sf_deadletter := Some (ls @ new)\<rparr>
            \<and> length new = length evs \<and> (\<forall>l. Some l \<in> set new \<longrightarrow> dl_reason l = reason)
            \<and> map (map_option dl_event) new = map (Marshal U) evs))"
  using siem_flush_cases [OF assms(1), of f net U clk] deadLetter_lines [OF assms(2,3)]
    flush_attempts_sent [of net "sc_MaxRetries (sf_cfg f)" 1 None]
  by (metis add_diff_cancel_right' of_nat_1)

theorem siem_flush_outcome_witness:
  "let f = \<lparr> sf_cfg = DefaultSIEMConfig ''https://splunk:8088'' ''tok'', sf_batch = [],
             sf_stopCh = False, sf_hostname = ''h'', sf_flushed = 0, sf_failed = 0,
             sf_deadletter = Some [], sf_dlOpen = True \<rparr>;
       net = (\<lambda>k. if k < 3 then NetError ''timeout'' else Status 200)
   in fst (flush_attempts net 3 1 None) = Delivered 200
      \<and> fst (snd (flush_attempts net 3 1 None)) \<le> 3"
proof -
  let ?f = "\<lparr> sf_cfg = DefaultSIEMConfig ''https://splunk:8088'' ''tok'', sf_batch = [],
             sf_stopCh = False, sf_hostname = ''h'', sf_flushed = 0, sf_failed = 0,
             sf_deadletter = Some [], sf_dlOpen = True \<rparr>"
  let ?net = "\<lambda>k. if k < 3 then NetError ''timeout'' else Status 200"
  have "fst (snd (flush_attempts ?net 3 1 None)) \<le> 3"
    using siem_flush_outcome [of "[NewAttestationEvent 1 ''a'' ''u'' ''t'']" ?f "[]" ?net]
    by (simp add: DefaultSIEMConfig_def)
  moreover have "fst (flush_attempts ?net 3 1 None) = Delivered 200"
    by (simp add: flush_attempts.simps Let_def case_prod_beta)
  ultimately show ?thesis by (simp add: Let_def)
qed

end
