(* ===== verification/Engine.thy ===== *)
theory Engine
  imports Siem
begin

text \<open>
  \<open>telemetry/engine.go\<close>: the asynchronous event dispatcher. The operations are functions on the
  engine's record; the worker pool, the submitters and shutdown interleave as a step relation over
  the engine, the workers and the submitters that have counted their event and not yet sent it.
\<close>

record EngineConfig =
  ec_WorkerCount :: int
  ec_ChannelBufferSize :: int
  ec_LocalLogPath :: string
  ec_ShutdownGrace :: time

definition DefaultEngineConfig :: EngineConfig where
  "DefaultEngineConfig =
     \<lparr> ec_WorkerCount = 4, ec_ChannelBufferSize = 8192, ec_LocalLogPath = ''nexiscore_ocsf.jsonl'',
       ec_ShutdownGrace = 5 * second \<rparr>"

text \<open>
  \<open>te_once\<close> is the \<open>sync.Once\<close> of \<open>Shutdown\<close>; \<open>te_logFile\<close> the lines written (\<open>None\<close>: no local log);
  \<open>te_stderr\<close> the events that got the immediate log line for critical ones.
\<close>

record TelemetryEngine =
  te_cfg :: EngineConfig
  te_queue :: "OCSFEvent list"
  te_once :: bool
  te_stopCh :: bool
  te_forwarder :: "SIEMForwarder option"
  te_submitted :: int64
  te_dropped :: int64
  te_processed :: int64
  te_logFile :: "json list option"
  te_logOpen :: bool
  te_stderr :: "OCSFEvent list"

definition engine_fill :: "EngineConfig \<Rightarrow> EngineConfig" where
  "engine_fill c =
     (let c1 = (if ec_WorkerCount c \<le> 0 then c\<lparr>ec_WorkerCount := 4\<rparr> else c);
          c2 = (if ec_ChannelBufferSize c1 \<le> 0 then c1\<lparr>ec_ChannelBufferSize := 8192\<rparr> else c1)
      in if ec_ShutdownGrace c2 \<le> 0 then c2\<lparr>ec_ShutdownGrace := 5 * second\<rparr> else c2)"

text \<open>\<open>opened\<close>: the result of opening the log file, its lines so far.\<close>

definition NewTelemetryEngine ::
  "(string + json list) \<Rightarrow> EngineConfig \<Rightarrow> SIEMForwarder option \<Rightarrow> open_error + TelemetryEngine" where
  "NewTelemetryEngine opened cfg0 forwarder =
     (let cfg = engine_fill cfg0;
          e = \<lparr> te_cfg = cfg, te_queue = [], te_once = False, te_stopCh = False,
                te_forwarder = forwarder, te_submitted = 0, te_dropped = 0, te_processed = 0,
                te_logFile = None, te_logOpen = False, te_stderr = [] \<rparr>
      in if ec_LocalLogPath cfg \<noteq> ''''
         then (case opened of
                 Inl err \<Rightarrow> Inl (OpenFailed (ec_LocalLogPath cfg) err)
               | Inr ls \<Rightarrow> Inr (e\<lparr>te_logFile := Some ls, te_logOpen := True\<rparr>))
         else Inr e)"

definition queue_cap :: "TelemetryEngine \<Rightarrow> nat" where
  "queue_cap e = nat (ec_ChannelBufferSize (te_cfg e))"

subsection \<open>Submitting\<close>

text \<open>The counter, then the non-blocking send of \<open>Submit\<close>.\<close>

definition submit_count :: "TelemetryEngine \<Rightarrow> TelemetryEngine" where
  "submit_count e = e\<lparr>te_submitted := te_submitted e + 1\<rparr>"

definition submit_send :: "TelemetryEngine \<Rightarrow> OCSFEvent \<Rightarrow> TelemetryEngine" where
  "submit_send e event =
     (if length (te_queue e) < queue_cap e
      then e\<lparr>te_queue := te_queue e @ [event]\<rparr>
      else e\<lparr>te_dropped := te_dropped e + 1\<rparr>)"

definition Submit :: "TelemetryEngine \<Rightarrow> OCSFEvent \<Rightarrow> TelemetryEngine" where
  "Submit e event = submit_send (submit_count e) event"

definition engine_Metrics :: "TelemetryEngine \<Rightarrow> int64 \<times> int64 \<times> int64" where
  "engine_Metrics e = (te_submitted e, te_processed e, te_dropped e)"

subsection \<open>Processing\<close>

definition engine_process ::
  "unicode \<Rightarrow> (nat \<Rightarrow> post_result) \<Rightarrow> clock \<Rightarrow> TelemetryEngine \<Rightarrow> OCSFEvent \<Rightarrow> TelemetryEngine" where
  "engine_process U net clk e event =
     (let e0 = e\<lparr>te_processed := te_processed e + 1\<rparr> in
      case Marshal U event of
        None \<Rightarrow> e0
      | Some data \<Rightarrow>
          (let e1 = (case te_logFile e0 of
                       None \<Rightarrow> e0
                     | Some ls \<Rightarrow>
                         if te_logOpen e0 then e0\<lparr>te_logFile := Some (ls @ [data])\<rparr> else e0);
               e2 = (case te_forwarder e1 of
                       None \<Rightarrow> e1
                     | Some f \<Rightarrow> e1\<lparr>te_forwarder := Some (Enqueue U net clk f event)\<rparr>)
           in if ev_SeverityID event \<ge> SeverityCritical
              then e2\<lparr>te_stderr := te_stderr e2 @ [event]\<rparr> else e2))"

subsection \<open>Shutdown\<close>

text \<open>
  What follows the wait for the workers: the log file is synced and closed, the forwarder shut down.
\<close>

definition engine_close ::
  "unicode \<Rightarrow> (nat \<Rightarrow> post_result) \<Rightarrow> clock \<Rightarrow> TelemetryEngine \<Rightarrow> TelemetryEngine" where
  "engine_close U net clk e =
     (let e1 = (if te_logFile e \<noteq> None then e\<lparr>te_logOpen := False\<rparr> else e) in
      case te_forwarder e1 of
        None \<Rightarrow> e1
      | Some f \<Rightarrow>
          (case siem_Shutdown U net clk f of
             None \<Rightarrow> e1
           | Some f' \<Rightarrow> e1\<lparr>te_forwarder := Some f'\<rparr>))"

text \<open>
  \<open>Shutdown\<close> as its caller sees it when nobody else submits meanwhile: the workers process the first
  \<open>drained\<close> queued events before the grace runs out (all of them, when it does not).
\<close>

definition engine_Shutdown ::
  "unicode \<Rightarrow> (nat \<Rightarrow> post_result) \<Rightarrow> clock \<Rightarrow> nat \<Rightarrow> TelemetryEngine \<Rightarrow> TelemetryEngine" where
  "engine_Shutdown U net clk drained e =
     (if te_once e then e
      else
        (let e1 = e\<lparr>te_once := True, te_stopCh := True\<rparr>;
             now = take drained (te_queue e1);
             e2 = fold (\<lambda>ev e. engine_process U net clk e ev) now
                    (e1\<lparr>te_queue := drop drained (te_queue e1)\<rparr>)
         in engine_close U net clk e2))"

subsection \<open>The global engine\<close>

record global_tel =
  gt_engine :: "TelemetryEngine option"
  gt_fallback :: "OCSFEvent list"

definition SetGlobalEngine :: "global_tel \<Rightarrow> TelemetryEngine option \<Rightarrow> global_tel" where
  "SetGlobalEngine g e = g\<lparr>gt_engine := e\<rparr>"

definition SubmitGlobal :: "global_tel \<Rightarrow> OCSFEvent \<Rightarrow> global_tel" where
  "SubmitGlobal g event =
     (case gt_engine g of
        Some e \<Rightarrow> g\<lparr>gt_engine := Some (Submit e event)\<rparr>
      | None \<Rightarrow> g\<lparr>gt_fallback := gt_fallback g @ [event]\<rparr>)"

text \<open>
  The contract the modules that emit events rely on: a submission is counted, and the event is
  either accepted at the end or counted as dropped; nothing else changes.
\<close>

locale event_sink =
  fixes submit :: "'s \<Rightarrow> OCSFEvent \<Rightarrow> 's"
    and accepted :: "'s \<Rightarrow> OCSFEvent list"
    and offered :: "'s \<Rightarrow> int64"
    and dropped :: "'s \<Rightarrow> int64"
  assumes submit_cases:
      "(accepted (submit s e) = accepted s @ [e] \<and> dropped (submit s e) = dropped s)
       \<or> (accepted (submit s e) = accepted s \<and> dropped (submit s e) = dropped s + 1)"
    and submit_offered: "offered (submit s e) = offered s + 1"
begin

lemma fold_offered: "offered (fold (\<lambda>e s. submit s e) es s) = offered s + of_nat (length es)"
  by (induction es arbitrary: s) (simp_all add: submit_offered)

lemma fold_balance:
  "offered (fold (\<lambda>e s. submit s e) es s) - dropped (fold (\<lambda>e s. submit s e) es s)
     - of_nat (length (accepted (fold (\<lambda>e s. submit s e) es s)))
   = offered s - dropped s - of_nat (length (accepted s))"
proof (induction es arbitrary: s)
  case Nil
  then show ?case by simp
next
  case (Cons e es)
  have "offered (submit s e) - dropped (submit s e) - of_nat (length (accepted (submit s e)))
      = offered s - dropped s - of_nat (length (accepted s))"
    using submit_cases [of s e] submit_offered [of s e] by auto
  with Cons.IH [of "submit s e"] show ?case by simp
qed

lemma fold_accepted_prefix:
  "\<exists>new. accepted (fold (\<lambda>e s. submit s e) es s) = accepted s @ new \<and> set new \<subseteq> set es"
proof (induction es arbitrary: s)
  case Nil
  then show ?case by simp
next
  case (Cons e es)
  from Cons.IH [of "submit s e"] submit_cases [of s e] show ?case by fastforce
qed

end

interpretation engine: event_sink Submit te_queue te_submitted te_dropped
  by unfold_locales (auto simp: Submit_def submit_count_def submit_send_def)

definition gt_accepted :: "global_tel \<Rightarrow> OCSFEvent list" where
  "gt_accepted g = (case gt_engine g of Some e \<Rightarrow> te_queue e | None \<Rightarrow> gt_fallback g)"

definition gt_offered :: "global_tel \<Rightarrow> int64" where
  "gt_offered g =
     (case gt_engine g of Some e \<Rightarrow> te_submitted e | None \<Rightarrow> of_nat (length (gt_fallback g)))"

definition gt_dropped :: "global_tel \<Rightarrow> int64" where
  "gt_dropped g = (case gt_engine g of Some e \<Rightarrow> te_dropped e | None \<Rightarrow> 0)"

interpretation gsink: event_sink SubmitGlobal gt_accepted gt_offered gt_dropped
proof unfold_locales
  fix g :: global_tel and ev
  show "(gt_accepted (SubmitGlobal g ev) = gt_accepted g @ [ev]
          \<and> gt_dropped (SubmitGlobal g ev) = gt_dropped g)
       \<or> (gt_accepted (SubmitGlobal g ev) = gt_accepted g
          \<and> gt_dropped (SubmitGlobal g ev) = gt_dropped g + 1)"
  proof (cases "gt_engine g")
    case None
    then show ?thesis by (simp add: SubmitGlobal_def gt_accepted_def gt_dropped_def)
  next
    case (Some e)
    then show ?thesis
      using engine.submit_cases [of e ev]
      by (simp add: SubmitGlobal_def gt_accepted_def gt_dropped_def)
  qed
  show "gt_offered (SubmitGlobal g ev) = gt_offered g + 1"
    by (cases "gt_engine g")
       (simp_all add: SubmitGlobal_def gt_offered_def engine.submit_offered)
qed

text \<open>\<open>Shutdown\<close> runs once.\<close>

lemma engine_process_frame [simp]:
  "te_once (engine_process U net clk e ev) = te_once e"
  "te_stopCh (engine_process U net clk e ev) = te_stopCh e"
  "te_queue (engine_process U net clk e ev) = te_queue e"
  "te_submitted (engine_process U net clk e ev) = te_submitted e"
  "te_dropped (engine_process U net clk e ev) = te_dropped e"
  "te_cfg (engine_process U net clk e ev) = te_cfg e"
  "te_processed (engine_process U net clk e ev) = te_processed e + 1"
  by (simp_all add: engine_process_def Let_def split: option.split)

lemma engine_close_frame [simp]:
  "te_once (engine_close U net clk e) = te_once e"
  "te_stopCh (engine_close U net clk e) = te_stopCh e"
  "te_queue (engine_close U net clk e) = te_queue e"
  "te_submitted (engine_close U net clk e) = te_submitted e"
  "te_dropped (engine_close U net clk e) = te_dropped e"
  "te_cfg (engine_close U net clk e) = te_cfg e"
  "te_processed (engine_close U net clk e) = te_processed e"
  by (simp_all add: engine_close_def Let_def split: option.split)

lemma fold_process_frame:
  "te_once (fold (\<lambda>ev e. engine_process U net clk e ev) evs e) = te_once e"
  "te_queue (fold (\<lambda>ev e. engine_process U net clk e ev) evs e) = te_queue e"
  "te_submitted (fold (\<lambda>ev e. engine_process U net clk e ev) evs e) = te_submitted e"
  "te_dropped (fold (\<lambda>ev e. engine_process U net clk e ev) evs e) = te_dropped e"
  "te_processed (fold (\<lambda>ev e. engine_process U net clk e ev) evs e)
     = te_processed e + of_nat (length evs)"
  by (induction evs arbitrary: e) simp_all

interpretation shutdown: once_cell "engine_Shutdown U net clk" te_once
  for U net clk
  by unfold_locales (simp_all add: engine_Shutdown_def Let_def fold_process_frame)

subsection \<open>Workers\<close>

text \<open>
  Where a worker goroutine is: waiting in the outer \<open>select\<close>, processing an event, in the drain
  loop after it has seen \<open>stopCh\<close>, processing there, or returned.
\<close>

datatype worker = Waiting | Busy OCSFEvent | Draining | DrainBusy OCSFEvent | Exited

record engine_sys =
  es_e :: TelemetryEngine
  es_workers :: "worker list"
  es_pending :: "OCSFEvent list"

definition start_sys :: "TelemetryEngine \<Rightarrow> engine_sys" where
  "start_sys e =
     \<lparr> es_e = e, es_workers = replicate (nat (ec_WorkerCount (te_cfg e))) Waiting, es_pending = [] \<rparr>"

text \<open>
  The steps: a submitter counts its event; a submitter sends or drops it; a waiting worker receives;
  it processes; it notices the closed \<open>stopCh\<close>; the drain loop receives, processes, or finds the
  queue empty and returns; \<open>Shutdown\<close> closes \<open>stopCh\<close>; \<open>Shutdown\<close> goes on, whether the workers have
  all returned or the grace is over, and closes the sinks.
\<close>

inductive engine_step :: "unicode \<Rightarrow> engine_sys \<Rightarrow> engine_sys \<Rightarrow> bool" for U where
  count: "engine_step U s (s\<lparr>es_e := submit_count (es_e s), es_pending := es_pending s @ [ev]\<rparr>)"
| send: "es_pending s = ps @ ev # qs \<Longrightarrow>
     engine_step U s (s\<lparr>es_e := submit_send (es_e s) ev, es_pending := ps @ qs\<rparr>)"
| recv: "i < length (es_workers s) \<Longrightarrow> es_workers s ! i = Waiting \<Longrightarrow> te_queue (es_e s) = ev # q \<Longrightarrow>
     engine_step U s (s\<lparr>es_e := (es_e s)\<lparr>te_queue := q\<rparr>, es_workers := (es_workers s)[i := Busy ev]\<rparr>)"
| work: "i < length (es_workers s) \<Longrightarrow> es_workers s ! i = Busy ev \<Longrightarrow>
     engine_step U s (s\<lparr>es_e := engine_process U net clk (es_e s) ev,
                        es_workers := (es_workers s)[i := Waiting]\<rparr>)"
| stop: "i < length (es_workers s) \<Longrightarrow> es_workers s ! i = Waiting \<Longrightarrow> te_stopCh (es_e s) \<Longrightarrow>
     engine_step U s (s\<lparr>es_workers := (es_workers s)[i := Draining]\<rparr>)"
| drain_recv: "i < length (es_workers s) \<Longrightarrow> es_workers s ! i = Draining \<Longrightarrow>
     te_queue (es_e s) = ev # q \<Longrightarrow>
     engine_step U s (s\<lparr>es_e := (es_e s)\<lparr>te_queue := q\<rparr>,
                        es_workers := (es_workers s)[i := DrainBusy ev]\<rparr>)"
| drain_work: "i < length (es_workers s) \<Longrightarrow> es_workers s ! i = DrainBusy ev \<Longrightarrow>
     engine_step U s (s\<lparr>es_e := engine_process U net clk (es_e s) ev,
                        es_workers := (es_workers s)[i := Draining]\<rparr>)"
| drain_exit: "i < length (es_workers s) \<Longrightarrow> es_workers s ! i = Draining \<Longrightarrow>
     te_queue (es_e s) = [] \<Longrightarrow>
     engine_step U s (s\<lparr>es_workers := (es_workers s)[i := Exited]\<rparr>)"
| begin_shutdown: "\<not> te_once (es_e s) \<Longrightarrow>
     engine_step U s (s\<lparr>es_e := (es_e s)\<lparr>te_once := True, te_stopCh := True\<rparr>\<rparr>)"
| end_shutdown: "te_once (es_e s) \<Longrightarrow>
     engine_step U s (s\<lparr>es_e := engine_close U net clk (es_e s)\<rparr>)"

inductive engine_reach :: "unicode \<Rightarrow> engine_sys \<Rightarrow> engine_sys \<Rightarrow> bool" for U s0 where
  refl: "engine_reach U s0 s0"
| step: "engine_reach U s0 s \<Longrightarrow> engine_step U s s' \<Longrightarrow> engine_reach U s0 s'"

fun in_hand :: "worker \<Rightarrow> nat" where
  "in_hand (Busy ev) = 1"
| "in_hand (DrainBusy ev) = 1"
| "in_hand w = 0"

definition hands :: "worker list \<Rightarrow> nat" where
  "hands ws = sum_list (map in_hand ws)"

lemma hands_update:
  "i < length ws \<Longrightarrow> hands (ws[i := w]) + in_hand (ws ! i) = hands ws + in_hand w"
proof (induction ws arbitrary: i)
  case Nil
  then show ?case by simp
next
  case (Cons a ws)
  then show ?case by (cases i) (auto simp: hands_def)
qed

lemma hands_update_word:
  "i < length ws \<Longrightarrow> (of_nat (hands (ws[i := w])) :: int64)
     = of_nat (hands ws) + of_nat (in_hand w) - of_nat (in_hand (ws ! i))"
  using arg_cong [OF hands_update [of i ws w], of "of_nat :: nat \<Rightarrow> int64"]
  by (simp add: algebra_simps)

text \<open>The books of the engine: every counted event is in exactly one place.\<close>

definition engine_balance :: "engine_sys \<Rightarrow> int64" where
  "engine_balance s =
     te_processed (es_e s) + te_dropped (es_e s) + of_nat (length (te_queue (es_e s)))
     + of_nat (hands (es_workers s)) + of_nat (length (es_pending s))"

definition engine_inv :: "engine_sys \<Rightarrow> bool" where
  "engine_inv s \<longleftrightarrow>
     te_submitted (es_e s) = engine_balance s
     \<and> length (te_queue (es_e s)) \<le> queue_cap (es_e s)"

lemma engine_step_inv:
  assumes "engine_step U s s'" and "engine_inv s"
  shows "engine_inv s'"
  using assms
  by (cases rule: engine_step.cases)
     (auto simp: engine_inv_def engine_balance_def submit_count_def submit_send_def queue_cap_def
        hands_update_word)

lemma engine_reach_inv: "engine_reach U s0 s \<Longrightarrow> engine_inv s0 \<Longrightarrow> engine_inv s"
  by (induction rule: engine_reach.induct) (auto intro: engine_step_inv)

lemma hands_replicate [simp]: "hands (replicate n Waiting) = 0"
  by (simp add: hands_def sum_list_replicate)

lemma engine_fill_pos:
  "0 < ec_WorkerCount (engine_fill c)" "0 < ec_ChannelBufferSize (engine_fill c)"
  by (simp_all add: engine_fill_def Let_def)

lemma NewTelemetryEngine_fresh:
  assumes "NewTelemetryEngine opened cfg fwd = Inr e"
  shows "te_queue e = []" "te_submitted e = 0" "te_processed e = 0" "te_dropped e = 0"
    "te_cfg e = engine_fill cfg" "\<not> te_once e" "\<not> te_stopCh e"
  using assms by (auto simp: NewTelemetryEngine_def Let_def split: if_splits sum.splits)

lemma NewTelemetryEngine_ok: "\<exists>e. NewTelemetryEngine (Inr ls) cfg fwd = Inr e"
  by (cases "ec_LocalLogPath (engine_fill cfg) = []") (simp_all add: NewTelemetryEngine_def Let_def)

lemma start_inv: "NewTelemetryEngine opened cfg fwd = Inr e \<Longrightarrow> engine_inv (start_sys e)"
  by (simp add: engine_inv_def engine_balance_def start_sys_def NewTelemetryEngine_fresh)

definition all_exited :: "engine_sys \<Rightarrow> bool" where
  "all_exited s \<longleftrightarrow> (\<forall>w \<in> set (es_workers s). w = Exited)"

lemma hands_exited: "all_exited s \<Longrightarrow> hands (es_workers s) = 0"
  unfolding all_exited_def hands_def sum_list_eq_0_iff by force

lemma last_exit_drained:
  assumes "engine_step U s s'" and "\<not> all_exited s" and "all_exited s'"
  shows "te_queue (es_e s') = []"
  using assms
proof (cases rule: engine_step.cases)
  case (recv i ev q)
  with assms(3) show ?thesis by (force simp: all_exited_def dest: set_update_memI [of i])
next
  case (work i ev net clk)
  with assms(3) show ?thesis by (force simp: all_exited_def dest: set_update_memI [of i])
next
  case (stop i)
  with assms(3) show ?thesis by (force simp: all_exited_def dest: set_update_memI [of i])
next
  case (drain_recv i ev q)
  with assms(3) show ?thesis by (force simp: all_exited_def dest: set_update_memI [of i])
next
  case (drain_work i ev net clk)
  with assms(3) show ?thesis by (force simp: all_exited_def dest: set_update_memI [of i])
qed (use assms in \<open>auto simp: all_exited_def\<close>)

lemma exited_step:
  assumes "engine_step U s s'" and "all_exited s"
  shows "all_exited s' \<and> te_processed (es_e s') = te_processed (es_e s)
     \<and> (\<exists>new. te_queue (es_e s') = te_queue (es_e s) @ new)"
proof -
  have w: "i < length (es_workers s) \<Longrightarrow> es_workers s ! i = Exited" for i
    using assms(2) by (simp add: all_exited_def)
  from assms(1) show ?thesis
    by (cases rule: engine_step.cases)
       (use assms(2) in \<open>auto dest: w simp: all_exited_def submit_count_def submit_send_def\<close>)
qed

lemma exited_reach:
  "engine_reach U s s' \<Longrightarrow> all_exited s \<Longrightarrow>
     all_exited s' \<and> te_processed (es_e s') = te_processed (es_e s)
     \<and> (\<exists>new. te_queue (es_e s') = te_queue (es_e s) @ new)"
proof (induction rule: engine_reach.induct)
  case refl
  then show ?case by simp
next
  case (step t t')
  with exited_step [OF step.hyps(2)] show ?case by fastforce
qed

subsection \<open>Properties\<close>

text \<open>
  C9: the engine's books balance. From a fresh engine, in every interleaving of submitters, workers
  and shutdown, the submitted counter equals processed plus dropped plus queued plus in a worker's
  hands plus counted but not yet sent, and the queue never exceeds the channel's capacity.
\<close>

theorem engine_conservation:
  assumes "NewTelemetryEngine opened cfg fwd = Inr e"
    and "engine_reach U (start_sys e) s"
  shows "te_submitted (es_e s) = te_processed (es_e s) + te_dropped (es_e s)
       + of_nat (length (te_queue (es_e s))) + of_nat (hands (es_workers s))
       + of_nat (length (es_pending s))
     \<and> length (te_queue (es_e s)) \<le> queue_cap (es_e s)"
  using engine_reach_inv [OF assms(2) start_inv [OF assms(1)]]
  by (simp add: engine_inv_def engine_balance_def)

theorem engine_conservation_witness:
  "\<exists>e (s :: engine_sys). NewTelemetryEngine (Inr []) DefaultEngineConfig None = Inr e
     \<and> es_pending s \<noteq> [] \<and> te_submitted (es_e s) = te_processed (es_e s) + te_dropped (es_e s) + 1"
proof -
  obtain e where e: "NewTelemetryEngine (Inr []) DefaultEngineConfig None = Inr e"
    using NewTelemetryEngine_ok by blast
  note r = engine_reach.step [OF engine_reach.refl
      engine_step.count [of undefined "start_sys e" "NewAttestationEvent 1 ''a'' ''u'' ''t''"]]
  let ?s = "(start_sys e)\<lparr>es_e := submit_count (es_e (start_sys e)),
      es_pending := es_pending (start_sys e) @ [NewAttestationEvent 1 ''a'' ''u'' ''t'']\<rparr>"
  have "es_pending ?s \<noteq> []" by simp
  moreover have "te_submitted (es_e ?s) = te_processed (es_e ?s) + te_dropped (es_e ?s) + 1"
    using engine_conservation [OF e r]
    by (simp add: start_sys_def submit_count_def NewTelemetryEngine_fresh [OF e])
  ultimately show ?thesis using e by blast
qed

text \<open>
  Draining is complete, and final. When the last worker returns, the queue is empty and no
  worker holds an event, so the counters account for everything sent. From then on no step ever
  processes anything: an event sent after that stays in the queue for good, neither processed nor
  counted as dropped.
\<close>

theorem shutdown_drains_then_loses:
  assumes "engine_inv s" and "engine_step U s s'" and "\<not> all_exited s" and "all_exited s'"
  shows "te_queue (es_e s') = [] \<and> hands (es_workers s') = 0
     \<and> te_submitted (es_e s') = te_processed (es_e s') + te_dropped (es_e s')
          + of_nat (length (es_pending s'))
     \<and> (\<forall>t. engine_reach U s' t \<longrightarrow> te_processed (es_e t) = te_processed (es_e s')
          \<and> (\<forall>u. engine_reach U t u \<longrightarrow> (\<exists>new. te_queue (es_e u) = te_queue (es_e t) @ new)))"
proof -
  have inv: "engine_inv s'" using assms(1,2) engine_step_inv by blast
  have q: "te_queue (es_e s') = []" using assms(2-4) by (rule last_exit_drained)
  have h: "hands (es_workers s') = 0" using assms(4) by (rule hands_exited)
  have "te_submitted (es_e s') = te_processed (es_e s') + te_dropped (es_e s')
      + of_nat (length (es_pending s'))"
    using inv q h by (simp add: engine_inv_def engine_balance_def)
  with q h exited_reach assms(4) show ?thesis by blast
qed

theorem shutdown_drains_then_loses_witness:
  "\<exists>e. NewTelemetryEngine (Inr []) (DefaultEngineConfig\<lparr>ec_WorkerCount := 1\<rparr>) None = Inr e
     \<and> te_submitted e = te_processed e + te_dropped e"
proof -
  obtain e where e: "NewTelemetryEngine (Inr []) (DefaultEngineConfig\<lparr>ec_WorkerCount := 1\<rparr>) None = Inr e"
    using NewTelemetryEngine_ok by blast
  let ?s = "\<lparr> es_e = e, es_workers = [Draining], es_pending = [] \<rparr>"
  note fresh = NewTelemetryEngine_fresh [OF e]
  have inv: "engine_inv ?s"
    by (simp add: engine_inv_def engine_balance_def hands_def fresh)
  have st: "engine_step undefined ?s (?s\<lparr>es_workers := (es_workers ?s)[0 := Exited]\<rparr>)"
    by (rule engine_step.drain_exit) (simp_all add: fresh)
  show ?thesis
    using shutdown_drains_then_loses [OF inv st] e by (simp add: all_exited_def)
qed

text \<open>
  Processing writes an event everywhere or nowhere. An event that marshals is appended to the
  open log as its JSON and handed to the forwarder's batch; one that does not marshal is counted as
  processed and leaves the log, the forwarder and the critical log lines untouched.
\<close>

theorem process_all_or_nothing:
  "(case Marshal U event of
      None \<Rightarrow> engine_process U net clk e event = e\<lparr>te_processed := te_processed e + 1\<rparr>
    | Some j \<Rightarrow>
        te_logFile (engine_process U net clk e event)
          = (if te_logOpen e then map_option (\<lambda>ls. ls @ [j]) (te_logFile e) else te_logFile e)
        \<and> te_forwarder (engine_process U net clk e event)
          = map_option (\<lambda>f. Enqueue U net clk f event) (te_forwarder e)
        \<and> te_stderr (engine_process U net clk e event)
          = (if ev_SeverityID event \<ge> SeverityCritical then te_stderr e @ [event] else te_stderr e))"
  by (simp add: engine_process_def Let_def split: option.split)


subsection \<open>Liveness of the shutdown\<close>

text \<open>The moves of the workers, apart from those of submitters and of \<open>Shutdown\<close>.\<close>

inductive worker_step :: "unicode \<Rightarrow> engine_sys \<Rightarrow> engine_sys \<Rightarrow> bool" for U where
  recv: "i < length (es_workers s) \<Longrightarrow> es_workers s ! i = Waiting \<Longrightarrow> te_queue (es_e s) = ev # q \<Longrightarrow>
     worker_step U s (s\<lparr>es_e := (es_e s)\<lparr>te_queue := q\<rparr>, es_workers := (es_workers s)[i := Busy ev]\<rparr>)"
| work: "i < length (es_workers s) \<Longrightarrow> es_workers s ! i = Busy ev \<Longrightarrow>
     worker_step U s (s\<lparr>es_e := engine_process U net clk (es_e s) ev,
                        es_workers := (es_workers s)[i := Waiting]\<rparr>)"
| stop: "i < length (es_workers s) \<Longrightarrow> es_workers s ! i = Waiting \<Longrightarrow> te_stopCh (es_e s) \<Longrightarrow>
     worker_step U s (s\<lparr>es_workers := (es_workers s)[i := Draining]\<rparr>)"
| drain_recv: "i < length (es_workers s) \<Longrightarrow> es_workers s ! i = Draining \<Longrightarrow> te_queue (es_e s) = ev # q \<Longrightarrow>
     worker_step U s (s\<lparr>es_e := (es_e s)\<lparr>te_queue := q\<rparr>, es_workers := (es_workers s)[i := DrainBusy ev]\<rparr>)"
| drain_work: "i < length (es_workers s) \<Longrightarrow> es_workers s ! i = DrainBusy ev \<Longrightarrow>
     worker_step U s (s\<lparr>es_e := engine_process U net clk (es_e s) ev,
                        es_workers := (es_workers s)[i := Draining]\<rparr>)"
| drain_exit: "i < length (es_workers s) \<Longrightarrow> es_workers s ! i = Draining \<Longrightarrow> te_queue (es_e s) = [] \<Longrightarrow>
     worker_step U s (s\<lparr>es_workers := (es_workers s)[i := Exited]\<rparr>)"

text \<open>The other steps leave the workers as they are; only a submitter's send lengthens the queue.\<close>

lemma engine_step_split:
  assumes "engine_step U s s'"
  shows "worker_step U s s' \<or>
     es_workers s' = es_workers s \<and> length (te_queue (es_e s)) \<le> length (te_queue (es_e s'))"
  using assms
  by (cases rule: engine_step.cases) (auto intro: worker_step.intros simp: submit_count_def submit_send_def)

lemma stop_stays:
  assumes "engine_step U s s'" and "te_stopCh (es_e s)"
  shows "te_stopCh (es_e s')"
  using assms by (cases rule: engine_step.cases) (auto simp: submit_count_def submit_send_def)

text \<open>What is left to do: a queued event costs two moves, a worker as many as it needs to return.\<close>

fun moves_left :: "worker \<Rightarrow> nat" where
  "moves_left (Busy ev) = 3"
| "moves_left Waiting = 2"
| "moves_left (DrainBusy ev) = 2"
| "moves_left Draining = 1"
| "moves_left Exited = 0"

definition work_left :: "engine_sys \<Rightarrow> nat" where
  "work_left s = 2 * length (te_queue (es_e s)) + sum_list (map moves_left (es_workers s))"

lemma moves_update:
  "i < length ws \<Longrightarrow> sum_list (map moves_left (ws[i := w])) + moves_left (ws ! i)
     = sum_list (map moves_left ws) + moves_left w"
proof (induction ws arbitrary: i)
  case Nil
  then show ?case by simp
next
  case (Cons a ws)
  then show ?case by (cases i) auto
qed

lemma worker_moves:
  assumes "worker_step U s s'"
  obtains i w where "i < length (es_workers s)" "es_workers s' = (es_workers s)[i := w]"
    "2 * length (te_queue (es_e s')) + moves_left w < 2 * length (te_queue (es_e s)) + moves_left (es_workers s ! i)"
  using assms by (cases rule: worker_step.cases) (simp_all add: that)

lemma worker_step_decreases:
  assumes "worker_step U s s'"
  shows "work_left s' < work_left s"
proof -
  obtain i w where i: "i < length (es_workers s)" "es_workers s' = (es_workers s)[i := w]"
    and q: "2 * length (te_queue (es_e s')) + moves_left w
      < 2 * length (te_queue (es_e s)) + moves_left (es_workers s ! i)"
    using worker_moves [OF assms] by blast
  then show ?thesis using moves_update [OF i(1), of w] by (simp add: work_left_def)
qed

lemma exited_no_move: "all_exited s \<Longrightarrow> \<not> worker_step U s s'"
proof
  assume e: "all_exited s" and w: "worker_step U s s'"
  have "i < length (es_workers s) \<Longrightarrow> es_workers s ! i = Exited" for i using e by (simp add: all_exited_def)
  with w show False by (cases rule: worker_step.cases) auto
qed

text \<open>No deadlock: after the close some worker can move until all have returned.\<close>

lemma worker_can_move:
  assumes "te_stopCh (es_e s)" and "\<not> all_exited s"
  shows "\<exists>s'. worker_step U s s'"
proof -
  obtain i where i: "i < length (es_workers s)" "es_workers s ! i \<noteq> Exited"
    using assms(2) by (auto simp: all_exited_def in_set_conv_nth)
  show ?thesis
  proof (cases "es_workers s ! i")
    case Draining
    then show ?thesis using i by (cases "te_queue (es_e s)") (blast intro: worker_step.intros)+
  qed (use i assms(1) in \<open>blast intro: worker_step.intros\<close>)+
qed


lemma fair_run_ends:
  assumes run: "\<And>n. engine_step U (r n) (r (Suc n)) \<or> r (Suc n) = r n"
    and quiet: "\<And>n. length (te_queue (es_e (r (Suc n)))) \<le> length (te_queue (es_e (r n)))"
    and fair: "\<And>n. \<exists>s. worker_step U (r n) s \<Longrightarrow> \<exists>m\<ge>n. worker_step U (r m) (r (Suc m))"
    and closed: "te_stopCh (es_e (r 0))"
  shows "\<exists>n. all_exited (r n)"
proof -
  have stop: "te_stopCh (es_e (r n))" for n
  proof (induction n)
    case (Suc n)
    then show ?case using run [of n] stop_stays by metis
  qed (rule closed)
  have le: "work_left (r (Suc n)) \<le> work_left (r n)" for n
  proof -
    from run [of n] show ?thesis
    proof
      assume e: "engine_step U (r n) (r (Suc n))"
      from engine_step_split [OF e] show ?thesis
        using worker_step_decreases quiet [of n] by (fastforce simp: work_left_def)
    qed simp
  qed
  have mono: "work_left (r m) \<le> work_left (r n)" if "n \<le> m" for n m
    using le that by (rule lift_Suc_antimono_le)
  have "\<exists>m. all_exited (r m)" if "work_left (r n) \<le> k" for n k
    using that
  proof (induction k arbitrary: n rule: less_induct)
    case (less k)
    show ?case
    proof (cases "all_exited (r n)")
      case False
      then obtain m where m: "n \<le> m" "worker_step U (r m) (r (Suc m))"
        using fair worker_can_move [OF stop] by blast
      have "work_left (r (Suc m)) < k"
        using worker_step_decreases [OF m(2)] mono [OF m(1)] less.prems by linarith
      from less.IH [OF this order.refl] show ?thesis .
    qed blast
  qed
  then show ?thesis by blast
qed

text \<open>
  C11: the shutdown drains. Take any infinite run of the engine whose \<open>stopCh\<close> is closed at some moment:
  steps of submitters, workers and \<open>Shutdown\<close> in any order, idling included. If from some moment on no
  submitter fills the queue, and the workers are scheduled (whenever one of them can move, one of them
  later does), then all workers return; at the first such moment the queue is empty, no event is
  in a worker's hands, and every event sent has been processed or counted as dropped.
\<close>

theorem shutdown_completes:
  assumes "engine_inv (r 0)" and "\<not> all_exited (r 0)"
    and "\<forall>n. engine_step U (r n) (r (Suc n)) \<or> r (Suc n) = r n"
    and "te_stopCh (es_e (r k))"
    and "\<forall>n\<ge>k. length (te_queue (es_e (r (Suc n)))) \<le> length (te_queue (es_e (r n)))"
    and "\<forall>n. (\<exists>s. worker_step U (r n) s) \<longrightarrow> (\<exists>m\<ge>n. worker_step U (r m) (r (Suc m)))"
  shows "\<exists>n. all_exited (r n) \<and> (\<forall>m<n. \<not> all_exited (r m))
     \<and> te_queue (es_e (r n)) = [] \<and> hands (es_workers (r n)) = 0
     \<and> te_submitted (es_e (r n)) = te_processed (es_e (r n)) + te_dropped (es_e (r n))
          + of_nat (length (es_pending (r n)))"
proof -
  have fair: "\<exists>m\<ge>n. worker_step U (r (m + k)) (r (Suc m + k))" if "\<exists>s. worker_step U (r (n + k)) s" for n
  proof -
    from assms(6) that have "\<exists>m\<ge>n + k. worker_step U (r m) (r (Suc m))" by simp
    then obtain m where "m \<ge> n + k" "worker_step U (r m) (r (Suc m))" by blast
    then show ?thesis by (intro exI [of _ "m - k"]) simp
  qed
  have "\<exists>n. all_exited (r (n + k))"
    by (rule fair_run_ends [of U "\<lambda>n. r (n + k)"]) (use assms(3-5) fair in simp_all)
  then obtain n where n: "all_exited (r n)" "\<forall>m<n. \<not> all_exited (r m)"
    using exists_least_iff [of "\<lambda>n. all_exited (r n)"] by blast
  obtain p where p: "n = Suc p" using n(1) assms(2) by (cases n) auto
  have inv: "engine_inv (r m)" for m
  proof (induction m)
    case (Suc m)
    then show ?case using assms(3) engine_step_inv by metis
  qed (rule assms(1))
  have "engine_step U (r p) (r n)" using assms(3) n p by (metis lessI)
  then have q: "te_queue (es_e (r n)) = []" using last_exit_drained n p by blast
  have h: "hands (es_workers (r n)) = 0" using n(1) by (rule hands_exited)
  from inv [of n] q h have "te_submitted (es_e (r n)) = te_processed (es_e (r n)) + te_dropped (es_e (r n))
      + of_nat (length (es_pending (r n)))" by (simp add: engine_inv_def engine_balance_def)
  with n q h show ?thesis by blast
qed

text \<open>One worker with one event queued at the close: it receives, processes, and returns.\<close>

definition demo_drain :: "TelemetryEngine \<Rightarrow> OCSFEvent \<Rightarrow> nat \<Rightarrow> engine_sys" where
  "demo_drain e ev n =
     (let q = e\<lparr>te_queue := [ev], te_submitted := 1, te_stopCh := True, te_once := True\<rparr>;
          p = engine_process undefined undefined undefined (q\<lparr>te_queue := []\<rparr>) ev
      in if n = 0 then \<lparr> es_e = q, es_workers = [Waiting], es_pending = [] \<rparr>
         else if n = 1 then \<lparr> es_e = q, es_workers = [Draining], es_pending = [] \<rparr>
         else if n = 2 then \<lparr> es_e = q\<lparr>te_queue := []\<rparr>, es_workers = [DrainBusy ev], es_pending = [] \<rparr>
         else if n = 3 then \<lparr> es_e = p, es_workers = [Draining], es_pending = [] \<rparr>
         else \<lparr> es_e = p, es_workers = [Exited], es_pending = [] \<rparr>)"

lemma demo_drain_steps:
  "n < 4 \<Longrightarrow> worker_step undefined (demo_drain e ev n) (demo_drain e ev (Suc n))"
  "4 \<le> n \<Longrightarrow> demo_drain e ev n = demo_drain e ev 4"
proof -
  have 0: "worker_step undefined (demo_drain e ev 0) (demo_drain e ev 1)"
    using worker_step.stop [of 0 "demo_drain e ev 0"] by (simp add: demo_drain_def Let_def)
  have 1: "worker_step undefined (demo_drain e ev 1) (demo_drain e ev 2)"
    using worker_step.drain_recv [of 0 "demo_drain e ev 1" ev "[]"] by (simp add: demo_drain_def Let_def)
  have 2: "worker_step undefined (demo_drain e ev 2) (demo_drain e ev 3)"
    using worker_step.drain_work [of 0 "demo_drain e ev 2" ev undefined undefined undefined]
    by (simp add: demo_drain_def Let_def)
  have 3: "worker_step undefined (demo_drain e ev 3) (demo_drain e ev 4)"
    using worker_step.drain_exit [of 0 "demo_drain e ev 3"] by (simp add: demo_drain_def Let_def)
  show "worker_step undefined (demo_drain e ev n) (demo_drain e ev (Suc n))" if "n < 4"
  proof -
    from that consider "n = 0" | "n = 1" | "n = 2" | "n = 3" by linarith
    then show ?thesis using 0 1 2 3 by cases (simp_all add: numeral_2_eq_2 numeral_3_eq_3 eval_nat_numeral)
  qed
  show "4 \<le> n \<Longrightarrow> demo_drain e ev n = demo_drain e ev 4"
    by (simp add: demo_drain_def Let_def)
qed

lemma worker_step_engine: "worker_step U s s' \<Longrightarrow> engine_step U s s'"
  by (erule worker_step.cases) (auto intro: engine_step.intros)

theorem shutdown_completes_witness:
  "\<forall>ev. \<exists>e r. NewTelemetryEngine (Inr []) (DefaultEngineConfig\<lparr>ec_WorkerCount := 1\<rparr>) None = Inr e
     \<and> te_queue (es_e (r 0)) = [ev] \<and> (\<exists>n :: nat. all_exited (r n) \<and> te_queue (es_e (r n)) = [])"
proof
  fix ev
  obtain e where e: "NewTelemetryEngine (Inr []) (DefaultEngineConfig\<lparr>ec_WorkerCount := 1\<rparr>) None = Inr e"
    using NewTelemetryEngine_ok by blast
  let ?r = "demo_drain e ev"
  have i: "engine_inv (?r 0)"
    by (simp add: demo_drain_def engine_inv_def engine_balance_def hands_def queue_cap_def Let_def
        NewTelemetryEngine_fresh [OF e] engine_fill_def DefaultEngineConfig_def)
  have run: "\<forall>n. engine_step undefined (?r n) (?r (Suc n)) \<or> ?r (Suc n) = ?r n"
    by (metis demo_drain_steps worker_step_engine le_Suc_eq not_less)
  have q: "\<forall>n\<ge>0. length (te_queue (es_e (?r (Suc n)))) \<le> length (te_queue (es_e (?r n)))"
    by (simp add: demo_drain_def Let_def)
  have "all_exited (?r 4)" by (simp add: demo_drain_def all_exited_def Let_def)
  then have over: "\<not> worker_step undefined (?r n) s" if "4 \<le> n" for n s
    unfolding demo_drain_steps(2) [OF that] by (rule exited_no_move)
  have fair: "\<forall>n. (\<exists>s. worker_step undefined (?r n) s) \<longrightarrow> (\<exists>m\<ge>n. worker_step undefined (?r m) (?r (Suc m)))"
    using demo_drain_steps(1) over by (meson not_less order_refl)
  have c: "te_stopCh (es_e (?r 0))" and n: "\<not> all_exited (?r 0)" and q0: "te_queue (es_e (?r 0)) = [ev]"
    by (simp_all add: demo_drain_def all_exited_def Let_def)
  from shutdown_completes [OF i n run c q fair] e q0 show "\<exists>e r. NewTelemetryEngine (Inr [])
      (DefaultEngineConfig\<lparr>ec_WorkerCount := 1\<rparr>) None = Inr e
      \<and> te_queue (es_e (r 0)) = [ev] \<and> (\<exists>n :: nat. all_exited (r n) \<and> te_queue (es_e (r n)) = [])" by blast
qed

end
