(* ===== verification/Router.thy ===== *)
theory Router
  imports Registry Policy Engine
begin

text \<open>
  \<open>agent/router.go\<close>: the mTLS virtual router. \<open>crypto/tls\<close> over \<open>net.Pipe\<close> is the environment of one
  exchange, \<open>tls_env\<close>: what each call of each end returns. The two ends run concurrently and both
  assign the shared \<open>routeErr\<close> and \<open>response\<close>; \<open>tx_clientLast\<close> says whose assignment came last.
\<close>

type_synonym RouteHandler = "string \<Rightarrow> bytes \<Rightarrow> string + bytes"

record AgentRouter =
  rt_registry :: AgentRegistry
  rt_policy :: PolicyManager
  rt_handlers :: "(string, RouteHandler) gomap"

definition NewAgentRouter :: "AgentRegistry \<Rightarrow> PolicyManager \<Rightarrow> AgentRouter" where
  "NewAgentRouter registry policy =
     \<lparr> rt_registry = registry, rt_policy = policy, rt_handlers = [] \<rparr>"

definition RegisterHandler :: "string \<Rightarrow> RouteHandler \<Rightarrow> AgentRouter \<Rightarrow> AgentRouter" where
  "RegisterHandler agentID handler r = r\<lparr>rt_handlers := gm_put (rt_handlers r) agentID handler\<rparr>"

subsection \<open>Errors\<close>

datatype route_error =
    SenderUnknown string
  | DestinationUnknown string
  | RouteDenied string
  | NoHandler string
  | FromCertParse string
  | ToCertParse string
  | ServerDeadline string
  | ServerHandshake string
  | ServerRead string
  | HandlerError string
  | ServerWrite string
  | ClientDeadline string
  | ClientHandshake string
  | ClientWrite string
  | ClientRead string

fun route_error_text :: "unicode \<Rightarrow> route_error \<Rightarrow> string" where
  "route_error_text U (SenderUnknown a) = ''router: sender agent '' @ go_quote U a @ '' not registered''"
| "route_error_text U (DestinationUnknown a) =
     ''router: destination agent '' @ go_quote U a @ '' not registered''"
| "route_error_text U (RouteDenied reason) = ''router: '' @ reason"
| "route_error_text U (NoHandler a) = ''router: no handler registered for agent '' @ go_quote U a"
| "route_error_text U (FromCertParse e) = ''router: failed parsing from-agent cert: '' @ e"
| "route_error_text U (ToCertParse e) = ''router: failed parsing to-agent cert: '' @ e"
| "route_error_text U (ServerDeadline e) = ''router: server deadline set failed: '' @ e"
| "route_error_text U (ServerHandshake e) = ''router: mTLS server handshake failed: '' @ e"
| "route_error_text U (ServerRead e) = ''router: server read failed: '' @ e"
| "route_error_text U (HandlerError e) = ''router: handler error: '' @ e"
| "route_error_text U (ServerWrite e) = ''router: server write failed: '' @ e"
| "route_error_text U (ClientDeadline e) = ''router: client deadline set failed: '' @ e"
| "route_error_text U (ClientHandshake e) = ''router: mTLS client handshake failed: '' @ e"
| "route_error_text U (ClientWrite e) = ''router: client write failed: '' @ e"
| "route_error_text U (ClientRead e) = ''router: client read response failed: '' @ e"

subsection \<open>One exchange\<close>

record server_cfg =
  sv_Certificate :: tls_certificate
  sv_ClientCAs :: "x509_cert list"
  sv_RequireClientCert :: bool
  sv_MinVersion :: nat
  sv_VerifyPeer :: "bytes list \<Rightarrow> verify_error option"

record client_cfg =
  cl_Certificate :: tls_certificate
  cl_RootCAs :: "x509_cert list"
  cl_ServerName :: string
  cl_MinVersion :: nat
  cl_InsecureSkipVerify :: bool
  cl_VerifyPeer :: "bytes list \<Rightarrow> verify_error option"

text \<open>
  A handshake succeeds with the raw certificates the peer presented. A stream is the bytes the
  connection delivers and the error it ends with, \<open>None\<close> for EOF.
\<close>

record tls_env =
  tx_srvDeadline :: "string option"
  tx_srvHandshake :: "server_cfg \<Rightarrow> string + bytes list"
  tx_srvStream :: "bytes \<times> string option"
  tx_srvWrite :: "bytes \<Rightarrow> string option"
  tx_cliDeadline :: "string option"
  tx_cliHandshake :: "client_cfg \<Rightarrow> string + bytes list"
  tx_cliWrite :: "bytes \<Rightarrow> string option"
  tx_cliStream :: "bytes \<times> string option"
  tx_clientLast :: bool

definition route_limit :: nat where "route_limit = 2 ^ 20"

text \<open>What one end leaves behind: the error it assigned, the response it assigned, its handler calls.\<close>

record side =
  sd_err :: "route_error option"
  sd_response :: "bytes option"
  sd_calls :: "(string \<times> bytes) list"

definition side_fails :: "route_error \<Rightarrow> (string \<times> bytes) list \<Rightarrow> side" where
  "side_fails e calls = \<lparr> sd_err = Some e, sd_response = None, sd_calls = calls \<rparr>"

definition server_config ::
  "(bytes \<Rightarrow> string + x509_cert) \<Rightarrow> AgentIdentity \<Rightarrow> x509_cert list \<Rightarrow> server_cfg" where
  "server_config parse toAgent certPool =
     \<lparr> sv_Certificate = ai_TLSCert toAgent, sv_ClientCAs = certPool, sv_RequireClientCert = True,
       sv_MinVersion = 0x0304, sv_VerifyPeer = makeSPIFFEVerifier parse spiffeTrustDomain \<rparr>"

definition client_config ::
  "(bytes \<Rightarrow> string + x509_cert) \<Rightarrow> AgentIdentity \<Rightarrow> string \<Rightarrow> x509_cert list \<Rightarrow> client_cfg" where
  "client_config parse fromAgent toAgentID certPool =
     \<lparr> cl_Certificate = ai_TLSCert fromAgent, cl_RootCAs = certPool, cl_ServerName = toAgentID,
       cl_MinVersion = 0x0304, cl_InsecureSkipVerify = True,
       cl_VerifyPeer = makeSPIFFEVerifier parse spiffeTrustDomain \<rparr>"

text \<open>The goroutine of step 6.\<close>

definition server_side ::
  "tls_env \<Rightarrow> server_cfg \<Rightarrow> RouteHandler \<Rightarrow> string \<Rightarrow> side" where
  "server_side X cfg handler fromAgentID =
     (case tx_srvDeadline X of
        Some e \<Rightarrow> side_fails (ServerDeadline e) []
      | None \<Rightarrow>
     (case tx_srvHandshake X cfg of
        Inl e \<Rightarrow> side_fails (ServerHandshake e) []
      | Inr _ \<Rightarrow>
     (case read_limited route_limit (tx_srvStream X) of
        Inl e \<Rightarrow> side_fails (ServerRead e) []
      | Inr incoming \<Rightarrow>
     (case handler fromAgentID incoming of
        Inl e \<Rightarrow> side_fails (HandlerError e) [(fromAgentID, incoming)]
      | Inr resp \<Rightarrow>
     (case tx_srvWrite X resp of
        Some e \<Rightarrow> side_fails (ServerWrite e) [(fromAgentID, incoming)]
      | None \<Rightarrow> \<lparr> sd_err = None, sd_response = Some resp,
                  sd_calls = [(fromAgentID, incoming)] \<rparr>)))))"

text \<open>The function of step 7; \<open>io.ReadAll\<close> never returns \<open>io.EOF\<close> as an error.\<close>

definition client_side :: "tls_env \<Rightarrow> client_cfg \<Rightarrow> bytes \<Rightarrow> side" where
  "client_side X cfg payload =
     (case tx_cliDeadline X of
        Some e \<Rightarrow> side_fails (ClientDeadline e) []
      | None \<Rightarrow>
     (case tx_cliHandshake X cfg of
        Inl e \<Rightarrow> side_fails (ClientHandshake e) []
      | Inr _ \<Rightarrow>
     (case tx_cliWrite X payload of
        Some e \<Rightarrow> side_fails (ClientWrite e) []
      | None \<Rightarrow>
     (case read_limited route_limit (tx_cliStream X) of
        Inl e \<Rightarrow> side_fails (ClientRead e) []
      | Inr resp \<Rightarrow> \<lparr> sd_err = None, sd_response = Some resp, sd_calls = [] \<rparr>))))"

text \<open>A shared variable after both ends have run: the last assignment, if any.\<close>

definition last_assigned :: "bool \<Rightarrow> 'a option \<Rightarrow> 'a option \<Rightarrow> 'a option" where
  "last_assigned clientLast srv cli =
     (if clientLast then (case cli of None \<Rightarrow> srv | Some x \<Rightarrow> Some x)
      else (case srv of None \<Rightarrow> cli | Some x \<Rightarrow> Some x))"

subsection \<open>RouteContext\<close>

record route_outcome =
  ro_result :: "route_error + bytes"
  ro_calls :: "(string \<times> bytes) list"
  ro_tel :: global_tel

definition deny_reason :: "AgentIdentity \<Rightarrow> AgentIdentity \<Rightarrow> string" where
  "deny_reason fromAgent toAgent =
     ''route '' @ ai_SPIFFEID fromAgent @ '' '' @ arrow @ '' '' @ ai_SPIFFEID toAgent
       @ '' denied by ACL policy''"

definition success_reason :: "AgentIdentity \<Rightarrow> AgentIdentity \<Rightarrow> bytes \<Rightarrow> string" where
  "success_reason fromAgent toAgent payload =
     ''mTLS context exchange '' @ ai_SPIFFEID fromAgent @ '' '' @ arrow @ '' '' @ ai_SPIFFEID toAgent
       @ '' succeeded ('' @ dec_nat (length payload) @ '' bytes)''"

text \<open>Steps 5 to 9, once both identities, the handler and the pool are known.\<close>

definition route_exchange ::
  "unicode \<Rightarrow> (bytes \<Rightarrow> string + x509_cert) \<Rightarrow> tls_env \<Rightarrow> int64 \<Rightarrow> global_tel \<Rightarrow> RouteHandler
     \<Rightarrow> AgentIdentity \<Rightarrow> AgentIdentity \<Rightarrow> x509_cert list \<Rightarrow> string \<Rightarrow> string \<Rightarrow> bytes \<Rightarrow> route_outcome"
where
  "route_exchange U parse X now g handler fromAgent toAgent certPool fromAgentID toAgentID payload =
     (let srv = server_side X (server_config parse toAgent certPool) handler fromAgentID;
          cli = client_side X (client_config parse fromAgent toAgentID certPool) payload;
          routeErr = last_assigned (tx_clientLast X) (sd_err srv) (sd_err cli);
          response = last_assigned (tx_clientLast X) (sd_response srv) (sd_response cli)
      in case routeErr of
           Some e \<Rightarrow>
             \<lparr> ro_result = Inl e, ro_calls = sd_calls srv,
               ro_tel = SubmitGlobal g
                 (NewAgentRouteEvent now fromAgentID toAgentID False (route_error_text U e)) \<rparr>
         | None \<Rightarrow>
             \<lparr> ro_result = Inr (case response of None \<Rightarrow> [] | Some b \<Rightarrow> b), ro_calls = sd_calls srv,
               ro_tel = SubmitGlobal g
                 (NewAgentRouteEvent now fromAgentID toAgentID True
                    (success_reason fromAgent toAgent payload)) \<rparr>)"

definition route_early :: "route_error \<Rightarrow> global_tel \<Rightarrow> route_outcome" where
  "route_early e g = \<lparr> ro_result = Inl e, ro_calls = [], ro_tel = g \<rparr>"

definition RouteContext ::
  "unicode \<Rightarrow> (bytes \<Rightarrow> string + x509_cert) \<Rightarrow> tls_env \<Rightarrow> int64 \<Rightarrow> global_tel \<Rightarrow> AgentRouter
     \<Rightarrow> string \<Rightarrow> string \<Rightarrow> bytes \<Rightarrow> route_outcome" where
  "RouteContext U parse X now g r fromAgentID toAgentID payload =
     (case Lookup (rt_registry r) fromAgentID of
        None \<Rightarrow> route_early (SenderUnknown fromAgentID) g
      | Some fromAgent \<Rightarrow>
     (case Lookup (rt_registry r) toAgentID of
        None \<Rightarrow> route_early (DestinationUnknown toAgentID) g
      | Some toAgent \<Rightarrow>
     (if \<not> IsRoutePermitted (rt_policy r) (ai_SPIFFEID fromAgent) (ai_SPIFFEID toAgent)
      then (let reason = deny_reason fromAgent toAgent in
        \<lparr> ro_result = Inl (RouteDenied reason), ro_calls = [],
          ro_tel = SubmitGlobal g (NewAgentRouteEvent now fromAgentID toAgentID False reason) \<rparr>)
      else
     (case gm_get (rt_handlers r) toAgentID of
        None \<Rightarrow> route_early (NoHandler toAgentID) g
      | Some handler \<Rightarrow>
     (case parse (ai_CertDER fromAgent) of
        Inl e \<Rightarrow> route_early (FromCertParse e) g
      | Inr fromCert \<Rightarrow>
     (case parse (ai_CertDER toAgent) of
        Inl e \<Rightarrow> route_early (ToCertParse e) g
      | Inr toCert \<Rightarrow>
          route_exchange U parse X now g handler fromAgent toAgent [fromCert, toCert]
            fromAgentID toAgentID payload))))))"

subsection \<open>Lemmas\<close>

lemma uri_accepted_iff:
  "uri_accepted d us \<longleftrightarrow> (\<exists>u \<in> set us. u_Scheme u = ''spiffe'' \<and> u_Host u = d)"
  by (induction us) auto

lemma verifier_accepts_iff:
  "makeSPIFFEVerifier parse d raws = None \<longleftrightarrow>
     (\<exists>raw rest cert. raws = raw # rest \<and> parse raw = Inr cert
        \<and> (\<exists>u \<in> set (xc_URIs cert). u_Scheme u = ''spiffe'' \<and> u_Host u = d))"
  by (auto simp: makeSPIFFEVerifier_def uri_accepted_iff split: list.splits sum.splits)

lemma server_calls:
  "sd_calls (server_side X cfg h f) =
     (if tx_srvDeadline X = None \<and> isl (tx_srvHandshake X cfg) = False
         \<and> isl (read_limited route_limit (tx_srvStream X)) = False
      then [(f, take route_limit (fst (tx_srvStream X)))] else [])"
  by (auto simp: server_side_def side_fails_def dest: read_limited_prefix
      split: option.splits sum.splits)

lemma server_ok:
  "sd_err (server_side X cfg h f) = None \<Longrightarrow>
     \<exists>resp. h f (take route_limit (fst (tx_srvStream X))) = Inr resp
       \<and> sd_response (server_side X cfg h f) = Some resp
       \<and> sd_calls (server_side X cfg h f) = [(f, take route_limit (fst (tx_srvStream X)))]"
  by (auto simp: server_side_def side_fails_def dest: read_limited_prefix
      split: option.splits sum.splits)

lemma client_ok:
  "sd_err (client_side X cfg p) = None \<Longrightarrow>
     sd_response (client_side X cfg p) = Some (take route_limit (fst (tx_cliStream X)))"
  by (auto simp: client_side_def side_fails_def dest: read_limited_prefix
      split: option.splits sum.splits)

lemma last_assigned_None [simp]: "last_assigned b x y = None \<longleftrightarrow> x = None \<and> y = None"
  by (auto simp: last_assigned_def split: option.splits)

lemma last_assigned_Some [simp]:
  "last_assigned b (Some x) (Some y) = (if b then Some y else Some x)"
  by (simp add: last_assigned_def)

text \<open>How \<open>RouteContext\<close> can get as far as the exchange.\<close>

definition route_admitted ::
  "(bytes \<Rightarrow> string + x509_cert) \<Rightarrow> AgentRouter \<Rightarrow> string \<Rightarrow> string \<Rightarrow>
     (AgentIdentity \<times> AgentIdentity \<times> RouteHandler \<times> x509_cert \<times> x509_cert) option" where
  "route_admitted parse r f t =
     (case (Lookup (rt_registry r) f, Lookup (rt_registry r) t, gm_get (rt_handlers r) t) of
        (Some fa, Some ta, Some h) \<Rightarrow>
          if IsRoutePermitted (rt_policy r) (ai_SPIFFEID fa) (ai_SPIFFEID ta)
          then (case (parse (ai_CertDER fa), parse (ai_CertDER ta)) of
                  (Inr fc, Inr tc) \<Rightarrow> Some (fa, ta, h, fc, tc) | _ \<Rightarrow> None)
          else None
      | _ \<Rightarrow> None)"

lemma RouteContext_admitted:
  "route_admitted parse r f t = Some (fa, ta, h, fc, tc) \<Longrightarrow>
     RouteContext U parse X now g r f t payload =
       route_exchange U parse X now g h fa ta [fc, tc] f t payload"
  by (auto simp: RouteContext_def route_admitted_def split: option.splits if_splits sum.splits)

lemma RouteContext_rejected:
  "route_admitted parse r f t = None \<Longrightarrow>
     ro_calls (RouteContext U parse X now g r f t payload) = []
     \<and> (\<exists>e. ro_result (RouteContext U parse X now g r f t payload) = Inl e)"
  by (auto simp: RouteContext_def route_admitted_def route_early_def Let_def
      split: option.splits if_splits sum.splits)

lemma route_admittedD:
  assumes "reg_reach (rt_registry r)" and "route_admitted parse r f t = Some (fa, ta, h, fc, tc)"
  shows "Lookup (rt_registry r) f = Some fa" and "Lookup (rt_registry r) t = Some ta"
    and "gm_get (rt_handlers r) t = Some h"
    and "IsRoutePermitted (rt_policy r) (spiffe_of f) (spiffe_of t)"
proof -
  from assms(2) show f: "Lookup (rt_registry r) f = Some fa" and t: "Lookup (rt_registry r) t = Some ta"
    and "gm_get (rt_handlers r) t = Some h"
    by (auto simp: route_admitted_def split: option.splits if_splits sum.splits)
  have "ai_SPIFFEID fa = spiffe_of f" "ai_SPIFFEID ta = spiffe_of t"
    using reg_inv_agent [OF reg_reach_inv [OF assms(1)]] f t unfolding Lookup_def by blast+
  with assms(2) show "IsRoutePermitted (rt_policy r) (spiffe_of f) (spiffe_of t)"
    by (auto simp: route_admitted_def split: option.splits if_splits sum.splits)
qed

lemma route_exchange_calls:
  "ro_calls (route_exchange U parse X now g h fa ta pool f t p) =
     sd_calls (server_side X (server_config parse ta pool) h f)"
  by (simp add: route_exchange_def Let_def split: option.split)

lemma route_exchange_ok:
  assumes "ro_result (route_exchange U parse X now g h fa ta pool f t p) = Inr out"
  shows "\<exists>resp. h f (take route_limit (fst (tx_srvStream X))) = Inr resp
     \<and> ro_calls (route_exchange U parse X now g h fa ta pool f t p)
         = [(f, take route_limit (fst (tx_srvStream X)))]
     \<and> out = (if tx_clientLast X then take route_limit (fst (tx_cliStream X)) else resp)"
proof -
  let ?srv = "server_side X (server_config parse ta pool) h f"
  let ?cli = "client_side X (client_config parse fa t pool) p"
  from assms have e: "sd_err ?srv = None" "sd_err ?cli = None"
    by (auto simp: route_exchange_def Let_def split: option.splits)
  with assms server_ok [OF e(1)] client_ok [OF e(2)] show ?thesis
    by (auto simp: route_exchange_def Let_def split: option.splits if_splits)
qed

subsection \<open>Properties\<close>

text \<open>
  C2: nothing is delivered without authorisation. Whenever \<open>RouteContext\<close> invokes a handler, both
  agents are registered, the ACL permits the route between the SPIFFE URIs of exactly the two ids
  the caller named, the handler is the destination's, the payload it sees is at most 1 MiB, and,
  when the TLS library runs the configured verifier before a handshake succeeds, the peer presented
  a certificate with a SPIFFE URI of the trust domain.
\<close>

theorem delivery_authorised:
  assumes "reg_reach (rt_registry r)"
    and "(f', b) \<in> set (ro_calls (RouteContext U parse X now g r f t payload))"
    and "\<And>cfg raws. tx_srvHandshake X cfg = Inr raws \<Longrightarrow> sv_VerifyPeer cfg raws = None"
  shows "f' = f \<and> length b \<le> 2 ^ 20
     \<and> Lookup (rt_registry r) f \<noteq> None \<and> Lookup (rt_registry r) t \<noteq> None
     \<and> gm_get (rt_handlers r) t \<noteq> None
     \<and> IsRoutePermitted (rt_policy r) (spiffe_of f) (spiffe_of t)
     \<and> (\<exists>cfg raws cert u. tx_srvHandshake X cfg = Inr raws \<and> raws \<noteq> [] \<and> parse (hd raws) = Inr cert
          \<and> u \<in> set (xc_URIs cert) \<and> u_Scheme u = ''spiffe'' \<and> u_Host u = ''nexiscore.local'')"
proof -
  from assms(2) obtain fa ta h fc tc where a: "route_admitted parse r f t = Some (fa, ta, h, fc, tc)"
    using RouteContext_rejected [of parse r f t U X now g payload]
    by (cases "route_admitted parse r f t") auto
  let ?cfg = "server_config parse ta [fc, tc]"
  from assms(2) have c: "(f', b) \<in> set (sd_calls (server_side X ?cfg h f))"
    by (simp add: RouteContext_admitted [OF a] route_exchange_calls)
  then obtain raws where hs: "tx_srvHandshake X ?cfg = Inr raws"
    and fb: "f' = f" "b = take route_limit (fst (tx_srvStream X))"
    by (cases "tx_srvHandshake X ?cfg") (auto simp: server_calls split: if_splits)
  from assms(3) [OF hs] have "makeSPIFFEVerifier parse ''nexiscore.local'' raws = None"
    by (simp add: server_config_def spiffeTrustDomain_def)
  with hs have "\<exists>cfg raws cert u. tx_srvHandshake X cfg = Inr raws \<and> raws \<noteq> [] \<and> parse (hd raws) = Inr cert
          \<and> u \<in> set (xc_URIs cert) \<and> u_Scheme u = ''spiffe'' \<and> u_Host u = ''nexiscore.local''"
    by (fastforce simp: verifier_accepts_iff)
  with fb route_admittedD [OF assms(1) a] show ?thesis by (simp add: route_limit_def)
qed

text \<open>A registry with two agents, a policy between them and an exchange that succeeds.\<close>

definition demo_router :: AgentRouter where
  "demo_router =
     \<lparr> rt_registry = registry_insert (demo_identity ''b'' 0)
         (registry_insert (demo_identity ''a'' 0) NewAgentRegistry),
       rt_policy = \<lparr> pm_policyPath = ''p'',
         pm_routes = [\<lparr> pr_From = spiffe_of ''a'', pr_To = ''*'', pr_Comment = [] \<rparr>],
         pm_lastModTime = 0, pm_pollInterval = 10 * second, pm_stopCh = False \<rparr>,
       rt_handlers = [(''b'', \<lambda>f p. Inr (f @ p))] \<rparr>"

definition demo_tls :: tls_env where
  "demo_tls =
     \<lparr> tx_srvDeadline = None,
       tx_srvHandshake = (\<lambda>c. if sv_VerifyPeer c [''a''] = None then Inr [''a''] else Inl ''bad''),
       tx_srvStream = (''hi'', None), tx_srvWrite = (\<lambda>b. None), tx_cliDeadline = None,
       tx_cliHandshake = (\<lambda>c. if cl_VerifyPeer c [''b''] = None then Inr [''b''] else Inl ''bad''),
       tx_cliWrite = (\<lambda>b. None), tx_cliStream = (''ahi'', None), tx_clientLast = True \<rparr>"

lemma demo_router_reach: "reg_reach (rt_registry demo_router)"
  using reg_reach.step [OF demo_reach [of "''a''" 0] reg_step.register [of _ "demo_env ''b'' 0" None]]
  by (simp add: Register_insert demo_register demo_router_def)

lemma demo_admitted:
  "\<exists>h fc tc. route_admitted demo_cert demo_router ''a'' ''b''
     = Some (demo_identity ''a'' 0, demo_identity ''b'' 0, h, fc, tc)"
  by (simp add: route_admitted_def demo_router_def Lookup_def registry_insert_def NewAgentRegistry_def
      demo_identity_def gm_get_def gm_put_def IsRoutePermitted_def demo_cert_def)

lemma demo_verified: "makeSPIFFEVerifier demo_cert spiffeTrustDomain [a] = None"
  by (simp add: makeSPIFFEVerifier_def demo_cert_def demo_parse_def spiffe_of_def spiffeTrustDomain_def)

lemma demo_calls:
  "ro_calls (RouteContext U demo_cert demo_tls now g demo_router ''a'' ''b'' ''hi'') = [(''a'', ''hi'')]"
proof -
  obtain h fc tc where "route_admitted demo_cert demo_router ''a'' ''b''
     = Some (demo_identity ''a'' 0, demo_identity ''b'' 0, h, fc, tc)"
    using demo_admitted by blast
  then show ?thesis
    by (simp add: RouteContext_admitted route_exchange_calls server_calls demo_tls_def server_config_def
        demo_verified read_limited_def route_limit_def)
qed

theorem delivery_authorised_witness:
  "IsRoutePermitted (rt_policy demo_router) (spiffe_of ''a'') (spiffe_of ''b'')
     \<and> (''a'', ''hi'') \<in> set (ro_calls (RouteContext undefined demo_cert demo_tls 0
           \<lparr> gt_engine = None, gt_fallback = [] \<rparr> demo_router ''a'' ''b'' ''hi''))"
proof -
  have "(''a'', ''hi'') \<in> set (ro_calls (RouteContext undefined demo_cert demo_tls 0
           \<lparr> gt_engine = None, gt_fallback = [] \<rparr> demo_router ''a'' ''b'' ''hi''))"
    by (simp add: demo_calls)
  moreover have "tx_srvHandshake demo_tls cfg = Inr raws \<Longrightarrow> sv_VerifyPeer cfg raws = None" for cfg raws
    by (auto simp: demo_tls_def split: if_splits)
  ultimately show ?thesis using delivery_authorised [OF demo_router_reach] by blast
qed

text \<open>
  The embedded default policy isolates agents. With no policy file on disk, a payload from any
  agent other than the supervisor and the introspection agent never reaches a handler, and the
  caller gets an error.
\<close>

theorem default_policy_isolates:
  assumes "reg_reach (rt_registry r)"
    and "unmarshal DefaultPolicyYAML = Inr default_policy" and "fv_stat v = StatNotExist"
    and "NewPolicyManager unmarshal path v = Inr (rt_policy r)"
    and "f \<noteq> ''supervisor''" and "f \<noteq> ''introspection''"
  shows "ro_calls (RouteContext U parse X now g r f t payload) = []
     \<and> (\<exists>e. ro_result (RouteContext U parse X now g r f t payload) = Inl e)"
proof -
  have "pm_routes (rt_policy r) = pf_Routes default_policy"
    using assms(2-4) by (rule NewPolicyManager_default)
  then have "\<not> IsRoutePermitted (rt_policy r) (spiffe_of f) (spiffe_of t)"
    using assms(5,6)
    by (simp add: IsRoutePermitted_def default_policy_def Let_def spiffe_of_def spiffeTrustDomain_def)
  then have "route_admitted parse r f t = None"
    using route_admittedD(4) [OF assms(1)] by (cases "route_admitted parse r f t") auto
  then show ?thesis by (rule RouteContext_rejected)
qed

theorem default_policy_isolates_witness:
  "\<exists>pm. pm_routes pm \<noteq> [] \<and> ro_calls (RouteContext undefined demo_cert demo_tls 0
      \<lparr> gt_engine = None, gt_fallback = [] \<rparr> (demo_router\<lparr>rt_policy := pm\<rparr>) ''a'' ''b'' ''hi'') = []"
proof -
  let ?v = "\<lparr> fv_stat = StatNotExist, fv_read = Inl ''none'' \<rparr> :: fs_view"
  obtain pm where pm: "NewPolicyManager (\<lambda>_. Inr default_policy) ''p'' ?v = Inr pm"
    by (simp add: NewPolicyManager_def policy_load_defs)
  have "pm_routes pm = pf_Routes default_policy"
    by (rule NewPolicyManager_default [OF _ _ pm]) simp_all
  then have "pm_routes pm \<noteq> []" by (simp add: default_policy_def)
  moreover have "reg_reach (rt_registry (demo_router\<lparr>rt_policy := pm\<rparr>))"
    using demo_router_reach by simp
  ultimately show ?thesis
    using default_policy_isolates [where r = "demo_router\<lparr>rt_policy := pm\<rparr>" and f = "''a''" and v = ?v
        and unmarshal = "\<lambda>_. Inr default_policy" and path = "''p''"] pm by auto
qed

text \<open>
  C35: end-to-end delivery. When the pipe carries what each end writes, a successful \<open>RouteContext\<close>
  means that the destination's handler ran exactly once, on the payload cut at 1 MiB, succeeded,
  and that the caller got its response, cut at 1 MiB when the client's read came last.
\<close>

theorem route_success_delivers:
  assumes "ro_result (RouteContext U parse X now g r f t payload) = Inr out"
    and "fst (tx_srvStream X) = payload"
    and "\<And>h resp. gm_get (rt_handlers r) t = Some h \<Longrightarrow> h f (take (2 ^ 20) payload) = Inr resp \<Longrightarrow>
           fst (tx_cliStream X) = resp"
  shows "\<exists>h resp. gm_get (rt_handlers r) t = Some h \<and> h f (take (2 ^ 20) payload) = Inr resp
     \<and> ro_calls (RouteContext U parse X now g r f t payload) = [(f, take (2 ^ 20) payload)]
     \<and> out = (if tx_clientLast X then take (2 ^ 20) resp else resp)"
proof -
  obtain fa ta h fc tc where a: "route_admitted parse r f t = Some (fa, ta, h, fc, tc)"
  proof (cases "route_admitted parse r f t")
    case None
    from RouteContext_rejected [OF None, of U X now g payload] assms(1) show ?thesis by simp
  next
    case (Some a)
    then show ?thesis using that by (cases a) auto
  qed
  have h: "gm_get (rt_handlers r) t = Some h"
    using a by (auto simp: route_admitted_def split: option.splits if_splits sum.splits)
  from assms(1) have "ro_result (route_exchange U parse X now g h fa ta [fc, tc] f t payload) = Inr out"
    by (simp add: RouteContext_admitted [OF a])
  from route_exchange_ok [OF this] obtain resp where
    resp: "h f (take (2 ^ 20) payload) = Inr resp"
    and calls: "ro_calls (route_exchange U parse X now g h fa ta [fc, tc] f t payload)
         = [(f, take (2 ^ 20) payload)]"
    and out: "out = (if tx_clientLast X then take (2 ^ 20) (fst (tx_cliStream X)) else resp)"
    unfolding assms(2) route_limit_def by blast
  from assms(3) [OF h resp] h resp calls out show ?thesis
    by (simp add: RouteContext_admitted [OF a])
qed

lemma demo_result:
  "ro_result (RouteContext U demo_cert demo_tls now g demo_router ''a'' ''b'' ''hi'') = Inr ''ahi''"
proof -
  obtain h fc tc where a: "route_admitted demo_cert demo_router ''a'' ''b''
     = Some (demo_identity ''a'' 0, demo_identity ''b'' 0, h, fc, tc)"
    using demo_admitted by blast
  then have h: "h = (\<lambda>f p. Inr (f @ p))"
    by (auto simp: route_admitted_def demo_router_def gm_get_def split: option.splits if_splits sum.splits)
  have srv: "server_side demo_tls (server_config demo_cert i pool) h ''a''
      = \<lparr> sd_err = None, sd_response = Some ''ahi'', sd_calls = [(''a'', ''hi'')] \<rparr>" for i pool
    by (simp add: server_side_def demo_tls_def server_config_def demo_verified read_limited_def
        route_limit_def h)
  have cli: "client_side demo_tls (client_config demo_cert i t pool) p
      = \<lparr> sd_err = None, sd_response = Some ''ahi'', sd_calls = [] \<rparr>" for i t pool p
    by (simp add: client_side_def demo_tls_def client_config_def demo_verified read_limited_def
        route_limit_def)
  show ?thesis
    by (simp add: RouteContext_admitted [OF a] route_exchange_def Let_def srv cli last_assigned_def)
qed

theorem route_success_delivers_witness:
  "\<exists>h resp. gm_get (rt_handlers demo_router) ''b'' = Some h \<and> h ''a'' ''hi'' = Inr resp \<and> resp = ''ahi''"
proof -
  have "gm_get (rt_handlers demo_router) ''b'' = Some h \<Longrightarrow> h ''a'' (take (2 ^ 20) ''hi'') = Inr resp \<Longrightarrow>
      fst (tx_cliStream demo_tls) = resp" for h resp
    by (auto simp: demo_router_def demo_tls_def gm_get_def)
  moreover have "fst (tx_srvStream demo_tls) = ''hi''" by (simp add: demo_tls_def)
  ultimately obtain h resp where "gm_get (rt_handlers demo_router) ''b'' = Some h"
      "h ''a'' (take (2 ^ 20) ''hi'') = Inr resp"
      "''ahi'' = (if tx_clientLast demo_tls then take (2 ^ 20) resp else resp)"
    using route_success_delivers [OF demo_result] by blast
  then show ?thesis by (auto simp: demo_router_def gm_get_def)
qed

text \<open>
  What telemetry a call leaves. An ACL denial or a failed exchange submits exactly one deny event
  carrying the reason, a success exactly one allow event; but a call that fails because an agent is
  unknown, has no handler or has an unreadable certificate submits nothing at all, although every
  routing decision is documented to be emitted.
\<close>

fun route_silent :: "route_error \<Rightarrow> bool" where
  "route_silent (SenderUnknown a) = True"
| "route_silent (DestinationUnknown a) = True"
| "route_silent (NoHandler a) = True"
| "route_silent (FromCertParse e) = True"
| "route_silent (ToCertParse e) = True"
| "route_silent e = False"

fun event_reason :: "unicode \<Rightarrow> route_error \<Rightarrow> string" where
  "event_reason U (RouteDenied reason) = reason"
| "event_reason U e = route_error_text U e"

lemma exchange_not_silent:
  "ro_result (route_exchange U parse X now g h fa ta pool f t p) = Inl e \<Longrightarrow>
     \<not> route_silent e \<and> event_reason U e = route_error_text U e"
  by (auto simp: route_exchange_def Let_def last_assigned_def server_side_def client_side_def
      side_fails_def split: option.splits sum.splits if_splits)

lemma exchange_tel:
  "ro_tel (route_exchange U parse X now g h fa ta pool f t p) =
     (case ro_result (route_exchange U parse X now g h fa ta pool f t p) of
        Inl e \<Rightarrow> SubmitGlobal g (NewAgentRouteEvent now f t False (route_error_text U e))
      | Inr out \<Rightarrow> SubmitGlobal g (NewAgentRouteEvent now f t True (success_reason fa ta p)))"
  by (simp add: route_exchange_def Let_def split: option.splits)

theorem route_telemetry:
  "(case ro_result (RouteContext U parse X now g r f t payload) of
      Inl e \<Rightarrow> ro_tel (RouteContext U parse X now g r f t payload) =
        (if route_silent e then g
         else SubmitGlobal g (NewAgentRouteEvent now f t False (event_reason U e)))
    | Inr out \<Rightarrow> (\<exists>fa ta. Lookup (rt_registry r) f = Some fa \<and> Lookup (rt_registry r) t = Some ta
        \<and> ro_tel (RouteContext U parse X now g r f t payload) =
            SubmitGlobal g (NewAgentRouteEvent now f t True (success_reason fa ta payload))))
   \<and> gt_offered (ro_tel (RouteContext U parse X now g r f t payload)) =
       (case ro_result (RouteContext U parse X now g r f t payload) of
          Inl e \<Rightarrow> if route_silent e then gt_offered g else gt_offered g + 1
        | Inr out \<Rightarrow> gt_offered g + 1)"
proof (cases "route_admitted parse r f t")
  case None
  then show ?thesis
    by (auto simp: RouteContext_def route_admitted_def route_early_def Let_def gsink.submit_offered
        split: option.splits if_splits sum.splits)
next
  case (Some a)
  obtain fa ta h fc tc where a: "a = (fa, ta, h, fc, tc)" by (cases a)
  from Some have l: "Lookup (rt_registry r) f = Some fa" "Lookup (rt_registry r) t = Some ta"
    by (auto simp: a route_admitted_def split: option.splits if_splits sum.splits)
  show ?thesis
    unfolding RouteContext_admitted [OF Some [unfolded a]] exchange_tel
    using exchange_not_silent [of U parse X now g h fa ta "[fc, tc]" f t payload]
    by (auto simp: l gsink.submit_offered split: sum.splits)
qed

end
