(* ===== verification/KillSwitch.thy ===== *)
theory KillSwitch
  imports Engine
begin

text \<open>
  \<open>integrity/killswitch.go\<close>: the process-wide kill-switch. The process is explicit: its telemetry, its
  standard error and the exit code it ended with. The kill-switch and the memory monitor hold either
  no engine or the engine that \<open>main\<close> installs as the global one, so a reference to it is enough.
\<close>

datatype engine_ref = NilEngine | TheEngine

record process =
  pr_tel :: global_tel
  pr_stderr :: "string list"
  pr_exit :: "int option"

text \<open>A method call on the referenced engine.\<close>

definition on_engine :: "(TelemetryEngine \<Rightarrow> TelemetryEngine) \<Rightarrow> process \<Rightarrow> process" where
  "on_engine op p = p\<lparr>pr_tel := (pr_tel p)\<lparr>gt_engine := map_option op (gt_engine (pr_tel p))\<rparr>\<rparr>"

record KillSwitch =
  ks_once :: bool
  ks_agentID :: string
  ks_engine :: engine_ref
  ks_triggered :: bool

definition NewKillSwitch :: "string \<Rightarrow> engine_ref \<Rightarrow> KillSwitch" where
  "NewKillSwitch agentID engine =
     \<lparr> ks_once = False, ks_agentID = agentID, ks_engine = engine, ks_triggered = False \<rparr>"

subsection \<open>The banner\<close>

text \<open>\<open>%-ns\<close>: padded on the right to \<open>n\<close> runes. The box drawing characters are three bytes each.\<close>

definition pad_right :: "nat \<Rightarrow> string \<Rightarrow> string" where
  "pad_right n s = s @ replicate (n - length (runes s)) (CHR '' '')"

definition box :: "nat \<Rightarrow> string" where
  "box b = [CHR 0xE2, CHR 0x95, char_of b]"

definition rule_line :: "nat \<Rightarrow> nat \<Rightarrow> string" where
  "rule_line l r = box l @ concat (replicate 62 (box 0x90)) @ box r @ [CHR 0x0A]"

definition field_line :: "string \<Rightarrow> string \<Rightarrow> string" where
  "field_line k v = box 0x91 @ ''  '' @ pad_right 8 k @ '': '' @ pad_right 52 v @ box 0x91 @ [CHR 0x0A]"

definition kill_banner :: "string \<Rightarrow> string \<Rightarrow> (string, string) gomap \<Rightarrow> string list" where
  "kill_banner agentID reason kctx =
     [[CHR 0x0A], rule_line 0x94 0x97,
      box 0x91 @ ''  NEXISCORE KILL-SWITCH TRIGGERED                             '' @ box 0x91 @ [CHR 0x0A],
      rule_line 0xA0 0xA3, field_line ''Reason  '' reason, field_line ''AgentID '' agentID]
     @ map (\<lambda>(k, v). field_line k v) kctx @ [rule_line 0x9A 0x9D, [CHR 0x0A]]"

subsection \<open>Triggering\<close>

text \<open>
  What one trigger meets: Unicode tables, HTTP answers and clock of the engine's shutdown, how many
  queued events the workers get to before the grace runs out, and the two clock readings of the event.
\<close>

record kill_env =
  ke_U :: unicode
  ke_net :: "nat \<Rightarrow> post_result"
  ke_clk :: clock
  ke_drained :: nat
  ke_time :: int64
  ke_uid :: int64

definition kill_event :: "kill_env \<Rightarrow> KillSwitch \<Rightarrow> string \<Rightarrow> (string, string) gomap \<Rightarrow> OCSFEvent" where
  "kill_event E ks reason kctx =
     NewKillSwitchEvent (ke_time E) (ke_uid E) (ks_agentID ks) reason kctx"

text \<open>The function passed to \<open>once.Do\<close>; \<open>os.Exit\<close> is its last call.\<close>

definition trigger_body ::
  "kill_env \<Rightarrow> string \<Rightarrow> (string, string) gomap \<Rightarrow> KillSwitch \<times> process \<Rightarrow> KillSwitch \<times> process" where
  "trigger_body E reason kctx kp =
     (let ks = (fst kp)\<lparr>ks_triggered := True\<rparr>;
          p1 = (snd kp)\<lparr>pr_stderr := pr_stderr (snd kp) @ kill_banner (ks_agentID ks) reason kctx\<rparr>;
          event = kill_event E ks reason kctx;
          p2 = (case ks_engine ks of
                  TheEngine \<Rightarrow>
                    on_engine (engine_Shutdown (ke_U E) (ke_net E) (ke_clk E) (ke_drained E))
                      (on_engine (\<lambda>e. Submit e event) p1)
                | NilEngine \<Rightarrow> p1\<lparr>pr_tel := SubmitGlobal (pr_tel p1) event\<rparr>)
      in (ks, p2\<lparr>pr_exit := Some 137\<rparr>))"

definition Trigger ::
  "kill_env \<times> string \<times> (string, string) gomap \<Rightarrow> KillSwitch \<times> process \<Rightarrow> KillSwitch \<times> process" where
  "Trigger a kp =
     (case a of (E, reason, kctx) \<Rightarrow>
        if ks_once (fst kp) then kp
        else trigger_body E reason kctx ((fst kp)\<lparr>ks_once := True\<rparr>, snd kp))"

definition HasTriggered :: "KillSwitch \<Rightarrow> bool" where
  "HasTriggered ks = ks_triggered ks"

text \<open>The package variable \<open>globalKS\<close>, nil until \<open>main\<close> registers its kill-switch, beside the process.\<close>

definition RegisterGlobal :: "KillSwitch \<Rightarrow> KillSwitch option \<times> process \<Rightarrow> KillSwitch option \<times> process" where
  "RegisterGlobal ks gp = (Some ks, snd gp)"

text \<open>
  \<open>TriggerGlobal\<close>, given the registered kill-switch if there is one. \<open>log.Fatalf\<close> writes its line and
  exits with status 1.
\<close>

definition log_Fatal :: "string \<Rightarrow> process \<Rightarrow> process" where
  "log_Fatal line p = p\<lparr>pr_stderr := pr_stderr p @ [line], pr_exit := Some 1\<rparr>"

definition TriggerGlobal ::
  "kill_env \<Rightarrow> string \<Rightarrow> (string, string) gomap \<Rightarrow> KillSwitch option \<times> process
     \<Rightarrow> KillSwitch option \<times> process" where
  "TriggerGlobal E reason kctx gp =
     (case fst gp of
        Some ks \<Rightarrow> (let (ks', p') = Trigger (E, reason, kctx) (ks, snd gp) in (Some ks', p'))
      | None \<Rightarrow> (None, log_Fatal
          (''[KILLSWITCH][EMERGENCY] No global kill-switch registered. Terminating. Reason: '' @ reason)
          (snd gp)))"

subsection \<open>Lemmas\<close>

lemma trigger_body_simps [simp]:
  "ks_once (fst (trigger_body E reason kctx kp)) = ks_once (fst kp)"
  "ks_triggered (fst (trigger_body E reason kctx kp))"
  "pr_exit (snd (trigger_body E reason kctx kp)) = Some 137"
  by (simp_all add: trigger_body_def Let_def)

interpretation kill: once_cell Trigger "\<lambda>kp. ks_once (fst kp)"
  by unfold_locales (auto simp: Trigger_def split: prod.splits)

lemma kill_event_marshals: "\<exists>j. Marshal U (kill_event E ks reason kctx) = Some j"
  by (simp add: kill_event_def NewKillSwitchEvent_def Marshal_def raw_json_def)

lemma kill_event_severity: "ev_SeverityID (kill_event E ks reason kctx) = SeverityCritical"
  by (simp add: kill_event_def NewKillSwitchEvent_def)

lemma trigger_engine:
  assumes "ks_engine ks = TheEngine" and "gt_engine (pr_tel p) = Some e" and "\<not> ks_once ks"
  shows "gt_engine (pr_tel (snd (Trigger (E, reason, kctx) (ks, p)))) =
    Some (engine_Shutdown (ke_U E) (ke_net E) (ke_clk E) (ke_drained E)
            (Submit e (kill_event E ks reason kctx)))"
  using assms by (simp add: Trigger_def trigger_body_def Let_def on_engine_def kill_event_def)

text \<open>What shutting down leaves of the log and of the critical lines when every queued event is processed.\<close>

lemma process_logs:
  assumes "te_logFile e = Some ls" and "te_logOpen e" and "Marshal U ev = Some j"
  shows "te_logFile (engine_process U net clk e ev) = Some (ls @ [j])"
    and "te_logOpen (engine_process U net clk e ev)"
  using assms by (auto simp: engine_process_def Let_def split: option.split)

lemma process_keeps_log:
  assumes "te_logFile e = Some ls" and "te_logOpen e"
  shows "\<exists>new. te_logFile (engine_process U net clk e ev) = Some (ls @ new)"
    and "te_logOpen (engine_process U net clk e ev)"
  using assms by (auto simp: engine_process_def Let_def split: option.split)

lemma fold_process_logs:
  assumes "te_logFile e = Some ls" and "te_logOpen e"
  shows "\<exists>new. te_logFile (fold (\<lambda>ev e. engine_process U net clk e ev) evs e) = Some (ls @ new)
     \<and> te_logOpen (fold (\<lambda>ev e. engine_process U net clk e ev) evs e)"
  using assms
proof (induction evs arbitrary: e ls)
  case Nil
  then show ?case by simp
next
  case (Cons ev evs)
  obtain n where n: "te_logFile (engine_process U net clk e ev) = Some (ls @ n)"
    using process_keeps_log(1) [OF Cons.prems] by blast
  from Cons.IH [OF n process_keeps_log(2) [OF Cons.prems]] show ?case by auto
qed

lemma engine_close_log: "te_logFile (engine_close U net clk e) = te_logFile e"
  by (auto simp: engine_close_def Let_def split: option.split)

lemma shutdown_logs_last:
  assumes "te_queue e = q @ [ev]" and "length q < n" and "\<not> te_once e"
    and "te_logFile e = Some ls" and "te_logOpen e" and "Marshal U ev = Some j"
  shows "\<exists>new. te_logFile (engine_Shutdown U net clk n e) = Some (ls @ new @ [j])"
proof -
  let ?e1 = "e\<lparr>te_once := True, te_stopCh := True, te_queue := drop n (te_queue e)\<rparr>"
  let ?f = "fold (\<lambda>ev e. engine_process U net clk e ev) q ?e1"
  have t: "take n (te_queue e) = q @ [ev]" using assms(1,2) by simp
  obtain new where f: "te_logFile ?f = Some (ls @ new)" "te_logOpen ?f"
    using fold_process_logs [of ?e1 ls U net clk q] assms(4,5) by auto
  have "te_logFile (engine_process U net clk ?f ev) = Some ((ls @ new) @ [j])"
    using f assms(6) by (rule process_logs)
  then show ?thesis
    using assms(3) t by (simp add: engine_Shutdown_def Let_def engine_close_log)
qed

lemma trigger_offered:
  assumes "\<not> ks_once ks" and "ks_engine ks = NilEngine \<or> gt_engine (pr_tel p) \<noteq> None"
  shows "gt_offered (pr_tel (snd (Trigger a (ks, p)))) = gt_offered (pr_tel p) + 1"
proof -
  obtain E reason kctx where a: "a = (E, reason, kctx)" by (cases a)
  show ?thesis
  proof (cases "ks_engine ks")
    case NilEngine
    then show ?thesis
      using assms(1) by (simp add: a Trigger_def trigger_body_def Let_def gsink.submit_offered)
  next
    case TheEngine
    with assms(2) obtain e where e: "gt_engine (pr_tel p) = Some e" by auto
    show ?thesis
      using trigger_engine [OF TheEngine e assms(1), of E reason kctx]
      by (simp add: a gt_offered_def e engine_Shutdown_def Let_def fold_process_frame
          engine.submit_offered split: if_splits)
  qed
qed

subsection \<open>Properties\<close>

text \<open>
  C13: the kill-switch fires exactly once. However many callers trigger it, in whatever order and with
  whatever reasons, the process ends with status 137, the switch stays triggered, the state is the
  one the first call left, and exactly one event was offered to telemetry.
\<close>

theorem kill_switch_fires_once:
  assumes "\<not> ks_once ks"
  shows "fold Trigger (a # as) (ks, p) = Trigger a (ks, p)
     \<and> pr_exit (snd (fold Trigger (a # as) (ks, p))) = Some 137
     \<and> HasTriggered (fst (fold Trigger (a # as) (ks, p)))
     \<and> (ks_engine ks = NilEngine \<or> gt_engine (pr_tel p) \<noteq> None \<longrightarrow>
          gt_offered (pr_tel (snd (fold Trigger (a # as) (ks, p)))) = gt_offered (pr_tel p) + 1)"
proof -
  obtain E reason kctx where a: "a = (E, reason, kctx)" by (cases a)
  have "fold Trigger (a # as) (ks, p) = Trigger a (ks, p)" by (rule kill.calls_once)
  moreover have "gt_offered (pr_tel (snd (Trigger a (ks, p)))) = gt_offered (pr_tel p) + 1"
    if "ks_engine ks = NilEngine \<or> gt_engine (pr_tel p) \<noteq> None"
    by (rule trigger_offered [OF assms that])
  ultimately show ?thesis
    using assms by (simp add: a Trigger_def HasTriggered_def)
qed

definition demo_process :: "TelemetryEngine option \<Rightarrow> process" where
  "demo_process e = \<lparr> pr_tel = \<lparr> gt_engine = e, gt_fallback = [] \<rparr>, pr_stderr = [], pr_exit = None \<rparr>"

definition demo_kill_env :: kill_env where
  "demo_kill_env = \<lparr> ke_U = \<lparr> uni_lower = (\<lambda>n. n), uni_digit = (\<lambda>n. False), uni_print = (\<lambda>n. True), uni_rawError = (\<lambda>s. []) \<rparr>,
     ke_net = (\<lambda>k. Status 200), ke_clk = (\<lambda>i. 0), ke_drained = 1, ke_time = 5, ke_uid = 5 \<rparr>"

theorem kill_switch_fires_once_witness:
  "pr_exit (snd (fold Trigger [(demo_kill_env, ''a'', []), (demo_kill_env, ''b'', [])]
      (NewKillSwitch ''gw'' NilEngine, demo_process None))) = Some 137"
proof -
  have "\<not> ks_once (NewKillSwitch ''gw'' NilEngine)" by (simp add: NewKillSwitch_def)
  from kill_switch_fires_once [OF this, of "(demo_kill_env, ''a'', [])" "[(demo_kill_env, ''b'', [])]"
      "demo_process None"]
  show ?thesis by blast
qed



text \<open>
  The status \<open>TriggerGlobal\<close> ends the process with. With a registered, unfired kill-switch it is
  137; with none it is 1, since \<open>log.Fatalf\<close> exits with that status, although the documentation
  promises an exit with 137 there too, and no event is emitted.
\<close>

theorem trigger_global_exit:
  "(gk = Some ks \<longrightarrow> \<not> ks_once ks \<longrightarrow>
      pr_exit (snd (TriggerGlobal E reason kctx (gk, p))) = Some 137)
   \<and> (gk = None \<longrightarrow>
      pr_exit (snd (TriggerGlobal E reason kctx (gk, p))) = Some 1
      \<and> pr_tel (snd (TriggerGlobal E reason kctx (gk, p))) = pr_tel p)"
  by (auto simp: TriggerGlobal_def log_Fatal_def Trigger_def case_prod_beta Let_def)

theorem trigger_global_exit_witness:
  "pr_exit (snd (TriggerGlobal demo_kill_env ''r'' [] (None, demo_process None))) = Some 1"
  using trigger_global_exit [of None _ demo_kill_env "''r''" "[]" "demo_process None"] by blast

end
