(* ===== verification/Memcheck.thy ===== *)
theory Memcheck
  imports KillSwitch Hex
begin

text \<open>
  \<open>integrity/memcheck.go\<close>: the monitor that re-hashes the running binary. SHA-256 is a parameter;
  the contents of \<open>/proc/self/maps\<close> and \<open>/proc/self/exe\<close> are arguments, one reading per call. The
  monitor shares the kill-switch and the engine with the rest of the process.
\<close>

subsection \<open>The mappings\<close>

record TextSegmentInfo =
  ts_StartAddr :: string
  ts_EndAddr :: string
  ts_Pathname :: string

text \<open>\<open>bufio.ScanLines\<close>: lines without their terminator, a trailing empty line is not a token.\<close>

definition drop_cr :: "string \<Rightarrow> string" where
  "drop_cr l = (if l \<noteq> [] \<and> last l = CHR 0x0D then butlast l else l)"

function scan_lines :: "string \<Rightarrow> string list" where
  "scan_lines s =
     (if s = [] then []
      else if CHR 0x0A \<in> set s
      then takeWhile (\<lambda>c. c \<noteq> CHR 0x0A) s # scan_lines (tl (dropWhile (\<lambda>c. c \<noteq> CHR 0x0A) s))
      else [s])"
  by pat_completeness auto
termination
proof (relation "measure length")
  show "wf (measure length)" by simp
  fix s :: string
  assume "s \<noteq> []" and "CHR 0x0A \<in> set s"
  moreover have "length (dropWhile (\<lambda>c. c \<noteq> CHR 0x0A) s) \<le> length s" by (rule length_dropWhile_le)
  ultimately show "(tl (dropWhile (\<lambda>c. c \<noteq> CHR 0x0A) s), s) \<in> measure length"
    by (cases s) auto
qed

declare scan_lines.simps [simp del]

text \<open>The scanner's buffer: a line of 65536 bytes or more ends the scan with an error.\<close>

definition max_token :: nat where "max_token = 64 * 1024"

text \<open>The body of the loop on one line; \<open>None\<close> is a \<open>continue\<close> or a mapping that is not recorded.\<close>

definition text_segment :: "string \<Rightarrow> TextSegmentInfo option" where
  "text_segment line =
     (let fields = Fields line in
      if length fields < 2 then None
      else
        (let perms = fields ! 1 in
         if \<not> str_contains perms ''r'' \<or> \<not> str_contains perms ''x'' then None
         else
           (let parts = split2 (CHR ''-'') (fields ! 0) in
            if length parts \<noteq> 2 then None
            else
              (let pathname = (if length fields \<ge> 6 then fields ! 5 else [])
               in if pathname \<noteq> [] \<and> \<not> HasPrefix pathname ''[''
                  then Some \<lparr> ts_StartAddr = parts ! 0, ts_EndAddr = parts ! 1,
                              ts_Pathname = pathname \<rparr>
                  else None))))"

datatype memcheck_error = OpenMaps string | ScanMaps string | OpenExe string | HashExe string

text \<open>\<open>maps\<close>: the error of opening the file, or its contents and the error reading ended with.\<close>

definition parseTextSegments ::
  "string + (bytes \<times> string option) \<Rightarrow> memcheck_error + TextSegmentInfo list" where
  "parseTextSegments maps =
     (case maps of
        Inl e \<Rightarrow> Inl (OpenMaps e)
      | Inr (content, err) \<Rightarrow>
          (let ls = scan_lines content in
           if \<exists>l \<in> set ls. length l \<ge> max_token
           then Inl (ScanMaps ''bufio.Scanner: token too long'')
           else case err of
             Some e \<Rightarrow> Inl (ScanMaps e)
           | None \<Rightarrow> Inr (List.map_filter (text_segment \<circ> drop_cr) ls)))"

subsection \<open>The binary\<close>

datatype exe_reading = ExeNoOpen string | ExeNoRead string | ExeBytes bytes

definition hashSelfExe :: "(bytes \<Rightarrow> bytes) \<Rightarrow> exe_reading \<Rightarrow> memcheck_error + string" where
  "hashSelfExe sha256 exe =
     (case exe of
        ExeNoOpen e \<Rightarrow> Inl (OpenExe e)
      | ExeNoRead e \<Rightarrow> Inl (HashExe e)
      | ExeBytes b \<Rightarrow> Inr (EncodeToString (sha256 b)))"

subsection \<open>The monitor\<close>

record MemoryIntegrityMonitor =
  mm_agentID :: string
  mm_baselineHash :: string
  mm_textSegments :: "TextSegmentInfo list"
  mm_engine :: engine_ref
  mm_once :: bool
  mm_stopCh :: bool
  mm_checksPerformed :: int64
  mm_tamperDetected :: int64

definition NewMemoryIntegrityMonitor ::
  "(bytes \<Rightarrow> bytes) \<Rightarrow> string + (bytes \<times> string option) \<Rightarrow> exe_reading \<Rightarrow> string \<Rightarrow> engine_ref
     \<Rightarrow> memcheck_error + MemoryIntegrityMonitor" where
  "NewMemoryIntegrityMonitor sha256 maps exe agentID engine =
     (case parseTextSegments maps of
        Inl e \<Rightarrow> Inl e
      | Inr segments \<Rightarrow>
     (case hashSelfExe sha256 exe of
        Inl e \<Rightarrow> Inl e
      | Inr baseline \<Rightarrow> Inr
          \<lparr> mm_agentID = agentID, mm_baselineHash = baseline, mm_textSegments = segments,
            mm_engine = engine, mm_once = False, mm_stopCh = False, mm_checksPerformed = 0,
            mm_tamperDetected = 0 \<rparr>))"

text \<open>\<open>StartPeriodicCheck\<close>: whether this call starts the checker. \<open>Stop\<close>: \<open>None\<close> is the second close.\<close>

definition StartPeriodicCheck :: "MemoryIntegrityMonitor \<Rightarrow> bool \<times> MemoryIntegrityMonitor" where
  "StartPeriodicCheck m = (\<not> mm_once m, m\<lparr>mm_once := True\<rparr>)"

definition monitor_Stop :: "MemoryIntegrityMonitor \<Rightarrow> MemoryIntegrityMonitor option" where
  "monitor_Stop m = (if mm_stopCh m then None else Some (m\<lparr>mm_stopCh := True\<rparr>))"

definition BaselineHash :: "MemoryIntegrityMonitor \<Rightarrow> string" where
  "BaselineHash m = mm_baselineHash m"

definition monitor_Metrics :: "MemoryIntegrityMonitor \<Rightarrow> int64 \<times> int64" where
  "monitor_Metrics m = (mm_checksPerformed m, mm_tamperDetected m)"

text \<open>
  One check. \<open>t\<close> and \<open>u\<close> are the clock readings of the tamper event, \<open>E\<close> the environment of the
  trigger. Slicing a hash shorter than 16 characters panics, which ends the process with status 2.
\<close>

type_synonym guarded = "MemoryIntegrityMonitor \<times> KillSwitch \<times> process"

definition go_panic :: "process \<Rightarrow> process" where
  "go_panic p = p\<lparr>pr_exit := Some 2\<rparr>"

definition tamper_detail :: "string \<Rightarrow> string \<Rightarrow> string" where
  "tamper_detail baseline current =
     ''baseline='' @ take 16 baseline @ ''...'' @ '' current='' @ take 16 current @ ''...''"

definition tamper_context :: "string \<Rightarrow> string \<Rightarrow> (string, string) gomap" where
  "tamper_context baseline current =
     [(''baseline'', baseline), (''current'', current), (''detail'', tamper_detail baseline current)]"

definition performCheck ::
  "(bytes \<Rightarrow> bytes) \<Rightarrow> kill_env \<Rightarrow> int64 \<Rightarrow> int64 \<Rightarrow> exe_reading \<Rightarrow> guarded \<Rightarrow> guarded" where
  "performCheck sha256 E t u exe g =
     (case g of (m0, ks, p) \<Rightarrow>
        (let m = m0\<lparr>mm_checksPerformed := mm_checksPerformed m0 + 1\<rparr> in
         case hashSelfExe sha256 exe of
           Inl e \<Rightarrow> (m, ks, p)
         | Inr current \<Rightarrow>
             if current = mm_baselineHash m
             then (if length current < 16 then (m, ks, go_panic p) else (m, ks, p))
             else
               (let m' = m\<lparr>mm_tamperDetected := mm_tamperDetected m + 1\<rparr> in
                if length (mm_baselineHash m) < 16 \<or> length current < 16
                then (m', ks, go_panic p)
                else
                  (let detail = tamper_detail (mm_baselineHash m) current;
                       p1 = (case mm_engine m of
                               NilEngine \<Rightarrow> p
                             | TheEngine \<Rightarrow>
                                 on_engine (\<lambda>e. Submit e (NewMemoryTamperEvent t u (mm_agentID m) detail)) p);
                       (ks', p2) = Trigger (E, ''binary_hash_mismatch'',
                                     tamper_context (mm_baselineHash m) current) (ks, p1)
                   in (m', ks', p2)))))"

text \<open>
  The checker goroutine: one check per tick, each with what it meets, until the stop channel closes
  or the process is gone.
\<close>

datatype checker_event = CheckTick kill_env int64 int64 exe_reading | CheckStop

fun checker :: "(bytes \<Rightarrow> bytes) \<Rightarrow> checker_event list \<Rightarrow> guarded \<Rightarrow> guarded" where
  "checker sha256 [] g = g"
| "checker sha256 (CheckStop # es) g = g"
| "checker sha256 (CheckTick E t u exe # es) g =
     (if pr_exit (snd (snd g)) \<noteq> None then g
      else checker sha256 es (performCheck sha256 E t u exe g))"

subsection \<open>Lemmas\<close>

lemma EncodeToString_inj: "EncodeToString a = EncodeToString b \<longleftrightarrow> a = b"
  by (metis hex_roundtrip sum.inject(2))

lemma length_EncodeToString: "length (EncodeToString b) = 2 * length b"
  by (induction b) (simp_all add: EncodeToString_def)

text \<open>A monitor started on a binary.\<close>

definition baselined :: "(bytes \<Rightarrow> bytes) \<Rightarrow> bytes \<Rightarrow> MemoryIntegrityMonitor \<Rightarrow> bool" where
  "baselined sha256 b0 m \<longleftrightarrow> mm_baselineHash m = EncodeToString (sha256 b0)"

lemma NewMonitor_baselined:
  "NewMemoryIntegrityMonitor sha256 maps (ExeBytes b0) agentID engine = Inr m \<Longrightarrow>
     baselined sha256 b0 m \<and> mm_checksPerformed m = 0 \<and> mm_tamperDetected m = 0"
  by (auto simp: NewMemoryIntegrityMonitor_def baselined_def hashSelfExe_def split: sum.splits)

text \<open>Whether a reading differs from the baseline.\<close>

definition tampered :: "(bytes \<Rightarrow> bytes) \<Rightarrow> bytes \<Rightarrow> exe_reading \<Rightarrow> bool" where
  "tampered sha256 b0 exe \<longleftrightarrow>
     (case exe of ExeBytes b \<Rightarrow> sha256 b \<noteq> sha256 b0 | _ \<Rightarrow> False)"

lemma performCheck_clean:
  assumes "baselined sha256 b0 m" and "\<And>b. length (sha256 b) = 32" and "\<not> tampered sha256 b0 exe"
  shows "performCheck sha256 E t u exe (m, ks, p) =
    (m\<lparr>mm_checksPerformed := mm_checksPerformed m + 1\<rparr>, ks, p)"
proof (cases exe)
  case (ExeBytes b)
  with assms(3) have "sha256 b = sha256 b0" by (simp add: tampered_def)
  moreover have "length (EncodeToString (sha256 b)) = 64" by (simp add: length_EncodeToString assms(2))
  ultimately show ?thesis
    using assms(1) ExeBytes by (simp add: performCheck_def hashSelfExe_def baselined_def)
qed (simp_all add: performCheck_def hashSelfExe_def)

lemma performCheck_tampered:
  assumes "baselined sha256 b0 m" and "\<And>b. length (sha256 b) = 32" and "tampered sha256 b0 exe"
    and "\<not> ks_once ks"
  shows "\<exists>ks' p'. performCheck sha256 E t u exe (m, ks, p) =
      (m\<lparr>mm_checksPerformed := mm_checksPerformed m + 1,
         mm_tamperDetected := mm_tamperDetected m + 1\<rparr>, ks', p')
      \<and> pr_exit p' = Some 137 \<and> HasTriggered ks'"
proof -
  obtain b where b: "exe = ExeBytes b" "sha256 b \<noteq> sha256 b0"
    using assms(3) by (cases exe) (auto simp: tampered_def)
  have l: "length (EncodeToString (sha256 x)) = 64" for x by (simp add: length_EncodeToString assms(2))
  have n: "EncodeToString (sha256 b) \<noteq> mm_baselineHash m"
    using b(2) assms(1) by (simp add: baselined_def EncodeToString_inj)
  have k: "\<exists>ks' p'. Trigger (E, r, c) (ks, q) = (ks', p') \<and> pr_exit p' = Some 137 \<and> HasTriggered ks'"
    for r c q
  proof -
    have "pr_exit (snd (Trigger (E, r, c) (ks, q))) = Some 137"
      and "HasTriggered (fst (Trigger (E, r, c) (ks, q)))"
      using assms(4) by (simp_all add: Trigger_def HasTriggered_def)
    then show ?thesis by (cases "Trigger (E, r, c) (ks, q)") simp
  qed
  show ?thesis
    using assms(1) n l b(1)
    by (simp add: performCheck_def hashSelfExe_def baselined_def Let_def case_prod_beta k)
qed

fun tick_readings :: "checker_event list \<Rightarrow> exe_reading list" where
  "tick_readings [] = []"
| "tick_readings (CheckStop # es) = []"
| "tick_readings (CheckTick E t u exe # es) = exe # tick_readings es"

text \<open>The readings a run looks at: up to and including the first that differs.\<close>

definition looked_at :: "(exe_reading \<Rightarrow> bool) \<Rightarrow> exe_reading list \<Rightarrow> nat" where
  "looked_at P rs = length (takeWhile (\<lambda>r. \<not> P r) rs) + (if \<exists>r \<in> set rs. P r then 1 else 0)"

lemma checker_dead: "pr_exit (snd (snd g)) \<noteq> None \<Longrightarrow> checker sha256 es g = g"
  by (induction sha256 es g rule: checker.induct) simp_all

lemma checker_run:
  assumes "\<And>b. length (sha256 b) = 32" and "baselined sha256 b0 m" and "\<not> ks_once ks"
    and "pr_exit p = None"
  shows "\<exists>ks' p'. checker sha256 es (m, ks, p) =
      (m\<lparr>mm_checksPerformed := mm_checksPerformed m
             + of_nat (looked_at (tampered sha256 b0) (tick_readings es)),
         mm_tamperDetected := mm_tamperDetected m
             + (if \<exists>r \<in> set (tick_readings es). tampered sha256 b0 r then 1 else 0)\<rparr>, ks', p')
    \<and> (if \<exists>r \<in> set (tick_readings es). tampered sha256 b0 r
       then pr_exit p' = Some 137 \<and> HasTriggered ks' else ks' = ks \<and> p' = p)"
  using assms(2)
proof (induction es arbitrary: m)
  case Nil
  then show ?case by (simp add: looked_at_def)
next
  case (Cons e es)
  show ?case
  proof (cases e)
    case CheckStop
    then show ?thesis by (simp add: looked_at_def)
  next
    case (CheckTick E t u exe)
    show ?thesis
    proof (cases "tampered sha256 b0 exe")
      case True
      obtain ks' p' where c: "performCheck sha256 E t u exe (m, ks, p) =
          (m\<lparr>mm_checksPerformed := mm_checksPerformed m + 1,
             mm_tamperDetected := mm_tamperDetected m + 1\<rparr>, ks', p')"
          "pr_exit p' = Some 137" "HasTriggered ks'"
        using performCheck_tampered [OF Cons.prems assms(1) True assms(3)] by blast
      with CheckTick True assms(4) show ?thesis by (simp add: checker_dead looked_at_def)
    next
      case False
      let ?m = "m\<lparr>mm_checksPerformed := mm_checksPerformed m + 1\<rparr>"
      have "baselined sha256 b0 ?m" using Cons.prems by (simp add: baselined_def)
      from Cons.IH [OF this] False CheckTick assms(4) show ?thesis
        by (simp add: performCheck_clean [OF Cons.prems assms(1) False] looked_at_def add.assoc)
    qed
  qed
qed

subsection \<open>Properties\<close>

text \<open>
  C14: the monitor kills the process exactly when a check reads a binary whose hash differs from the
  one at start-up. Over any sequence of ticks, the first differing reading ends the process with
  status 137 and is counted as one detection; without one the process and the kill-switch are
  untouched, even when the binary cannot be read at all; and every tick looked at counts as a check.
\<close>

theorem monitor_kills_on_tamper:
  assumes "NewMemoryIntegrityMonitor sha256 maps (ExeBytes b0) agentID engine = Inr m"
    and "\<And>b. length (sha256 b) = 32" and "\<not> ks_once ks" and "pr_exit p = None"
  shows "\<exists>m' ks' p'. checker sha256 es (m, ks, p) = (m', ks', p')
    \<and> monitor_Metrics m' =
        (of_nat (looked_at (tampered sha256 b0) (tick_readings es)),
         if \<exists>r \<in> set (tick_readings es). tampered sha256 b0 r then 1 else 0)
    \<and> (if \<exists>r \<in> set (tick_readings es). tampered sha256 b0 r
       then pr_exit p' = Some 137 \<and> HasTriggered ks' else ks' = ks \<and> p' = p)"
proof -
  note b = NewMonitor_baselined [OF assms(1)]
  obtain ks' p' where "checker sha256 es (m, ks, p) =
      (m\<lparr>mm_checksPerformed := mm_checksPerformed m
             + of_nat (looked_at (tampered sha256 b0) (tick_readings es)),
         mm_tamperDetected := mm_tamperDetected m
             + (if \<exists>r \<in> set (tick_readings es). tampered sha256 b0 r then 1 else 0)\<rparr>, ks', p')"
    and "if \<exists>r \<in> set (tick_readings es). tampered sha256 b0 r
       then pr_exit p' = Some 137 \<and> HasTriggered ks' else ks' = ks \<and> p' = p"
    using checker_run [OF assms(2) conjunct1 [OF b] assms(3,4)] by blast
  with b show ?thesis by (simp add: monitor_Metrics_def)
qed

theorem monitor_kills_on_tamper_witness:
  "\<exists>m. NewMemoryIntegrityMonitor (\<lambda>b. take 32 (b @ replicate 32 (CHR ''0''))) (Inr ([], None))
         (ExeBytes ''ELF'') ''gw'' NilEngine = Inr m
     \<and> (\<exists>m' ks' p'. checker (\<lambda>b. take 32 (b @ replicate 32 (CHR ''0'')))
           [CheckTick demo_kill_env 1 1 (ExeNoOpen ''EIO''), CheckTick demo_kill_env 2 2 (ExeBytes ''EVIL'')]
           (m, NewKillSwitch ''gw'' NilEngine, demo_process None) = (m', ks', p') \<and> pr_exit p' = Some 137)"
proof -
  let ?h = "\<lambda>b. take 32 (b @ replicate 32 (CHR ''0''))"
  let ?es = "[CheckTick demo_kill_env 1 1 (ExeNoOpen ''EIO''), CheckTick demo_kill_env 2 2 (ExeBytes ''EVIL'')]"
  obtain m where m: "NewMemoryIntegrityMonitor ?h (Inr ([], None)) (ExeBytes ''ELF'') ''gw'' NilEngine = Inr m"
    by (simp add: NewMemoryIntegrityMonitor_def parseTextSegments_def scan_lines.simps hashSelfExe_def
        map_filter_simps)
  have t: "tampered ?h ''ELF'' (ExeBytes ''EVIL'')" by (simp add: tampered_def)
  obtain m' ks' p' where "checker ?h ?es (m, NewKillSwitch ''gw'' NilEngine, demo_process None) = (m', ks', p')"
    and "if \<exists>r \<in> set (tick_readings ?es). tampered ?h ''ELF'' r
       then pr_exit p' = Some 137 \<and> HasTriggered ks' else ks' = NewKillSwitch ''gw'' NilEngine \<and> p' = demo_process None"
  proof -
    have "length (?h b) = 32" for b by simp
    moreover have "\<not> ks_once (NewKillSwitch ''gw'' NilEngine)" by (simp add: NewKillSwitch_def)
    moreover have "pr_exit (demo_process None) = None" by (simp add: demo_process_def)
    ultimately show ?thesis using that monitor_kills_on_tamper [OF m] by blast
  qed
  moreover have "\<exists>r \<in> set (tick_readings ?es). tampered ?h ''ELF'' r" using t by simp
  ultimately show ?thesis using m by auto
qed

text \<open>Shared libraries are recorded too, although only the own binary is meant to be.\<close>

lemma library_segment_recorded:
  "text_segment ''7f00-7f10 r-xp 0 fd:01 9 /lib/libc.so.6''
     = Some \<lparr> ts_StartAddr = ''7f00'', ts_EndAddr = ''7f10'', ts_Pathname = ''/lib/libc.so.6'' \<rparr>"
proof -
  have "Fields ''7f00-7f10 r-xp 0 fd:01 9 /lib/libc.so.6''
      = [''7f00-7f10'', ''r-xp'', ''0'', ''fd:01'', ''9'', ''/lib/libc.so.6'']"
    by (simp add: Fields_def runes_all_ascii ascii_def fields_runes.simps is_space_def Let_def)
  then show ?thesis by (simp add: text_segment_def split2_def)
qed

end
