(* ===== verification/Regex.thy ===== *)
theory Regex
  imports Utf8
begin

text \<open>
  The regular expressions of the gateway, as Go's \<open>regexp\<close> matches them: on runes, the leftmost match,
  and among the matches that start there the one backtracking finds first. The syntax tree has what
  the program's expressions use; repetition is over a class of runes. \<open>rmatch\<close> lists all matches in
  order of preference, \<open>FindAllIndex\<close> is the library's loop over them.
\<close>

subsection \<open>Syntax\<close>

text \<open>A class of runes, as ranges of code points.\<close>

type_synonym cls = "(nat \<times> nat) list"

definition in_cls :: "cls \<Rightarrow> nat \<Rightarrow> bool" where
  "in_cls c r \<longleftrightarrow> (\<exists>(lo, hi) \<in> set c. lo \<le> r \<and> r \<le> hi)"

datatype regex =
    REps
  | RCls cls
  | RSeq regex regex
  | RAlt regex regex
  | RRep cls nat "nat option"
  | RWord
  | RBegin
  | REnd

text \<open>Word characters for \<open>\b\<close>, white space for \<open>\s\<close>, and the dot, which excludes the newline.\<close>

definition word_rune :: "nat option \<Rightarrow> bool" where
  "word_rune r = (case r of None \<Rightarrow> False | Some n \<Rightarrow>
     in_cls [(48, 57), (65, 90), (95, 95), (97, 122)] n)"

definition cls_space :: cls where "cls_space = [(9, 10), (12, 13), (32, 32)]"
definition cls_dot :: cls where "cls_dot = [(0, 9), (11, 0x10FFFF)]"

text \<open>Characters, and under the flag \<open>i\<close> their case variants, Unicode's for \<open>k\<close> and \<open>s\<close> included.\<close>

definition chr :: "char \<Rightarrow> cls" where
  "chr c = [(byte_val c, byte_val c)]"

definition fold_extra :: "nat \<Rightarrow> cls" where
  "fold_extra lower =
     (if lower = 107 then [(0x212A, 0x212A)] else if lower = 115 then [(0x17F, 0x17F)] else [])"

definition ichr :: "char \<Rightarrow> cls" where
  "ichr c =
     (let n = byte_val c in
      if 65 \<le> n \<and> n \<le> 90 then [(n, n), (n + 32, n + 32)] @ fold_extra (n + 32)
      else if 97 \<le> n \<and> n \<le> 122 then [(n, n), (n - 32, n - 32)] @ fold_extra n
      else [(n, n)])"

definition cls_upper :: cls where "cls_upper = [(65, 90)]"
definition cls_digit :: cls where "cls_digit = [(48, 57)]"
definition cls_alpha :: cls where "cls_alpha = [(65, 90), (97, 122)]"
definition cls_ialpha :: cls where "cls_ialpha = cls_alpha @ [(0x17F, 0x17F), (0x212A, 0x212A)]"

fun rlit :: "string \<Rightarrow> regex" where
  "rlit [] = REps"
| "rlit (c # cs) = RSeq (RCls (chr c)) (rlit cs)"

fun rilit :: "string \<Rightarrow> regex" where
  "rilit [] = REps"
| "rilit (c # cs) = RSeq (RCls (ichr c)) (rilit cs)"

fun ralts :: "regex list \<Rightarrow> regex" where
  "ralts [] = REps"
| "ralts [r] = r"
| "ralts (r # rs) = RAlt r (ralts rs)"

fun rseqs :: "regex list \<Rightarrow> regex" where
  "rseqs [] = REps"
| "rseqs (r # rs) = RSeq r (rseqs rs)"

definition ropt :: "regex \<Rightarrow> regex" where
  "ropt r = RAlt r REps"

definition rclass_opt :: "cls \<Rightarrow> regex" where
  "rclass_opt c = RRep c 0 (Some 1)"

subsection \<open>Matching\<close>

text \<open>The previous rune, the runes to come, the byte offset.\<close>

type_synonym mstate = "nat option \<times> rune list \<times> nat"

text \<open>The states after 0, 1, 2, \<dots> runes of a class, up to the bound.\<close>

fun rep_run :: "cls \<Rightarrow> nat option \<Rightarrow> nat option \<Rightarrow> rune list \<Rightarrow> nat \<Rightarrow> mstate list" where
  "rep_run c hi p [] k = [(p, [], k)]"
| "rep_run c hi p (r # rs) k =
     (p, r # rs, k)
     # (if hi = Some 0 \<or> \<not> in_cls c (fst r) then []
        else rep_run c (map_option (\<lambda>n. n - 1) hi) (Some (fst r)) rs (k + length (snd r)))"

fun rmatch :: "regex \<Rightarrow> mstate \<Rightarrow> mstate list" where
  "rmatch REps s = [s]"
| "rmatch (RCls c) (p, rs, k) =
     (case rs of
        [] \<Rightarrow> []
      | r # rs' \<Rightarrow> if in_cls c (fst r) then [(Some (fst r), rs', k + length (snd r))] else [])"
| "rmatch (RSeq a b) s = concat (map (rmatch b) (rmatch a s))"
| "rmatch (RAlt a b) s = rmatch a s @ rmatch b s"
| "rmatch (RRep c lo hi) (p, rs, k) = rev (drop lo (rep_run c hi p rs k))"
| "rmatch RWord (p, rs, k) =
     (if word_rune p \<noteq> word_rune (case rs of [] \<Rightarrow> None | r # _ \<Rightarrow> Some (fst r))
      then [(p, rs, k)] else [])"
| "rmatch RBegin (p, rs, k) = (if k = 0 then [(p, rs, k)] else [])"
| "rmatch REnd (p, rs, k) = (if rs = [] then [(p, rs, k)] else [])"

text \<open>The leftmost start with a match: its offset and the state after the preferred match.\<close>

fun rsearch :: "regex \<Rightarrow> nat option \<Rightarrow> rune list \<Rightarrow> nat \<Rightarrow> (nat \<times> mstate) option" where
  "rsearch r p [] k = (case rmatch r (p, [], k) of [] \<Rightarrow> None | s # _ \<Rightarrow> Some (k, s))"
| "rsearch r p (x # xs) k =
     (case rmatch r (p, x # xs, k) of
        [] \<Rightarrow> rsearch r (Some (fst x)) xs (k + length (snd x))
      | s # _ \<Rightarrow> Some (k, s))"

definition MatchString :: "regex \<Rightarrow> string \<Rightarrow> bool" where
  "MatchString r s \<longleftrightarrow> rsearch r None (runes s) 0 \<noteq> None"

subsection \<open>A match consumes what it covers\<close>

definition bytes_of :: "rune list \<Rightarrow> nat" where
  "bytes_of rs = length (concat (map snd rs))"

lemma bytes_of_simps [simp]:
  "bytes_of [] = 0" "bytes_of (r # rs) = length (snd r) + bytes_of rs"
  "bytes_of (xs @ ys) = bytes_of xs + bytes_of ys"
  by (simp_all add: bytes_of_def)

definition follows :: "mstate \<Rightarrow> mstate \<Rightarrow> bool" where
  "follows s t \<longleftrightarrow>
     (case s of (p, rs, k) \<Rightarrow> case t of (p', rs', k') \<Rightarrow> \<exists>pre. rs = pre @ rs' \<and> k' = k + bytes_of pre)"

lemma follows_refl [simp]: "follows s s"
  by (auto simp: follows_def split: prod.split)

lemma follows_trans: "follows s t \<Longrightarrow> follows t u \<Longrightarrow> follows s u"
  by (fastforce simp: follows_def)

lemma follows_Cons: "follows (Some (fst r), rs, k + length (snd r)) t \<Longrightarrow> follows (p, r # rs, k) t"
proof -
  assume "follows (Some (fst r), rs, k + length (snd r)) t"
  then obtain p' rs' pre where "t = (p', rs', k + length (snd r) + bytes_of pre)" "rs = pre @ rs'"
    by (cases t) (auto simp: follows_def)
  then have "t = (p', rs', k + bytes_of (r # pre))" "r # rs = (r # pre) @ rs'" by simp_all
  then show "follows (p, r # rs, k) t" unfolding follows_def by blast
qed

lemma rep_run_follows: "t \<in> set (rep_run c hi p rs k) \<Longrightarrow> follows (p, rs, k) t"
  by (induction c hi p rs k rule: rep_run.induct) (auto split: if_splits intro: follows_Cons)

lemma rmatch_follows: "t \<in> set (rmatch r s) \<Longrightarrow> follows s t"
proof (induction r s arbitrary: t rule: rmatch.induct)
  case (2 c p rs k)
  then show ?case by (auto split: list.splits if_splits intro: follows_Cons)
next
  case (3 a b s)
  then obtain u where u: "u \<in> set (rmatch a s)" "t \<in> set (rmatch b u)" by auto
  from 3(1) [OF u(1)] 3(2) [OF u] show ?case by (rule follows_trans)
next
  case (5 c lo hi p rs k)
  then show ?case by (auto dest: in_set_dropD intro: rep_run_follows)
qed (auto split: if_splits)

lemma rsearch_follows:
  "rsearch r p rs k = Some (st, t) \<Longrightarrow> \<exists>pre rest p'. rs = pre @ rest \<and> st = k + bytes_of pre
     \<and> follows (p', rest, st) t"
proof (induction r p rs k rule: rsearch.induct)
  case (1 r p k)
  then obtain ss where "rmatch r (p, [], k) = t # ss" and st: "st = k" by (auto split: list.splits)
  then have "follows (p, [], st) t" using rmatch_follows [of t r "(p, [], k)"] by simp
  then show ?case using st by (intro exI [of _ "[]"] exI [of _ p]) simp
next
  case (2 r p x xs k)
  show ?case
  proof (cases "rmatch r (p, x # xs, k)")
    case Nil
    with 2 obtain pre rest p' where "xs = pre @ rest" "st = k + length (snd x) + bytes_of pre"
      "follows (p', rest, st) t" by auto
    then show ?thesis by (intro exI [of _ "x # pre"] exI [of _ rest] exI [of _ p']) simp
  next
    case (Cons s ss)
    with 2(2) have "st = k" "t = s" by simp_all
    moreover have "follows (p, x # xs, k) s" using Cons rmatch_follows [of s r "(p, x # xs, k)"] by simp
    ultimately show ?thesis by (intro exI [of _ "[]"] exI [of _ "x # xs"] exI [of _ p]) simp
  qed
qed

lemma rsearch_split:
  assumes "rsearch r p rs k = Some (st, (p', rs', e))"
  shows "\<exists>pre pre'. rs = pre @ pre' @ rs' \<and> st = k + bytes_of pre \<and> e = st + bytes_of pre'"
  using rsearch_follows [OF assms] by (auto simp: follows_def)

subsection \<open>All matches\<close>

text \<open>
  The loop of \<open>FindAllIndex\<close> with \<open>n = -1\<close>: where the last match ended, the current state. An empty
  match at the current position moves on by one rune and is dropped right after another match.
\<close>

function find_loop ::
  "regex \<Rightarrow> nat option \<Rightarrow> nat option \<Rightarrow> rune list \<Rightarrow> nat \<Rightarrow> (nat \<times> nat) list" where
  "find_loop r prevEnd p rs k =
     (case rsearch r p rs k of
        None \<Rightarrow> []
      | Some (st, (p', rs', e)) \<Rightarrow>
          if e = k
          then (if prevEnd = Some st then [] else [(st, e)])
               @ (case rs of
                    [] \<Rightarrow> []
                  | x # xs \<Rightarrow> find_loop r (Some e) (Some (fst x)) xs (k + length (snd x)))
          else (st, e) # find_loop r (Some e) p' rs' e)"
  by pat_completeness auto
termination
proof (relation "measure (\<lambda>(r, pe, p, rs, k). length rs)", goal_cases)
  case 1
  show ?case by simp
next
  case 2
  then show ?case by simp
next
  case (3 r prevEnd p rs k a st y p' z rs' e)
  then have s: "rsearch r p rs k = Some (st, (p', rs', e))" and ne: "e \<noteq> k" by simp_all
  from rsearch_split [OF s] obtain pre pre' where rs: "rs = pre @ pre' @ rs'"
    and "st = k + bytes_of pre" "e = st + bytes_of pre'" by blast
  with ne have "pre \<noteq> [] \<or> pre' \<noteq> []" by auto
  with rs have "length rs' < length rs" by auto
  then show ?case by simp
qed

declare find_loop.simps [simp del]

definition FindAllIndex :: "regex \<Rightarrow> bytes \<Rightarrow> (nat \<times> nat) list" where
  "FindAllIndex r s = find_loop r None None (runes s) 0"

text \<open>Spans in order, without overlap, inside the text.\<close>

fun spans_within :: "nat \<Rightarrow> nat \<Rightarrow> (nat \<times> nat) list \<Rightarrow> bool" where
  "spans_within lo hi [] = (lo \<le> hi)"
| "spans_within lo hi ((a, b) # xs) = (lo \<le> a \<and> a \<le> b \<and> spans_within b hi xs)"

lemma spans_within_le: "spans_within lo hi xs \<Longrightarrow> lo \<le> hi"
  by (induction lo hi xs rule: spans_within.induct) auto

lemma spans_within_mono: "spans_within lo hi xs \<Longrightarrow> lo' \<le> lo \<Longrightarrow> spans_within lo' hi xs"
  by (cases xs) auto

lemma find_loop_within:
  "spans_within k (k + bytes_of rs) (find_loop r prevEnd p rs k)"
proof (induction r prevEnd p rs k rule: find_loop.induct)
  case (1 r prevEnd p rs k)
  show ?case
  proof (cases "rsearch r p rs k")
    case None
    then show ?thesis by (simp add: find_loop.simps)
  next
    case (Some m)
    obtain st p' rs' e where m: "m = (st, (p', rs', e))" by (cases m) auto
    from rsearch_split [OF Some [unfolded m]] obtain pre pre' where
      rs: "rs = pre @ pre' @ rs'" and st: "st = k + bytes_of pre" and e: "e = st + bytes_of pre'" by blast
    show ?thesis
    proof (cases "e = k")
      case True
      have s: "st = k" using True st e by simp
      show ?thesis
      proof (cases rs)
        case Nil
        with Some m True s show ?thesis by (simp add: find_loop.simps [of r prevEnd p "[]"])
      next
        case (Cons x xs)
        have "spans_within (k + length (snd x)) (k + bytes_of rs)
            (find_loop r (Some e) (Some (fst x)) xs (k + length (snd x)))"
          using 1(1) [OF Some, of st "(p', rs', e)" p' "(rs', e)" rs' e x xs] m True Cons
          by (simp add: add.assoc)
        then have "spans_within k (k + bytes_of rs)
            (find_loop r (Some e) (Some (fst x)) xs (k + length (snd x)))"
          by (rule spans_within_mono) simp
        with Some m True s Cons show ?thesis by (simp add: find_loop.simps [of r prevEnd p "x # xs"])
      qed
    next
      case False
      have "spans_within e (e + bytes_of rs') (find_loop r (Some e) p' rs' e)"
        using 1(2) [OF Some, of st "(p', rs', e)" p' "(rs', e)" rs' e] m False by simp
      moreover have "e + bytes_of rs' = k + bytes_of rs" using rs st e by simp
      moreover have "k \<le> st" "st \<le> e" using st e by simp_all
      moreover have "find_loop r prevEnd p rs k = (st, e) # find_loop r (Some e) p' rs' e"
        using Some m False by (simp add: find_loop.simps [of r prevEnd p rs])
      ultimately show ?thesis by simp
    qed
  qed
qed

lemma FindAllIndex_within: "spans_within 0 (length s) (FindAllIndex r s)"
  using find_loop_within [of 0 "runes s" r None None] by (simp add: FindAllIndex_def bytes_of_def)

subsection \<open>A match anywhere is found\<close>

definition prev_of :: "nat option \<Rightarrow> rune list \<Rightarrow> nat option" where
  "prev_of p xs = (if xs = [] then p else Some (fst (last xs)))"

lemma rsearch_complete:
  "rmatch r (prev_of p xs, ys, k + bytes_of xs) \<noteq> [] \<Longrightarrow> rsearch r p (xs @ ys) k \<noteq> None"
proof (induction xs arbitrary: p k)
  case Nil
  then show ?case by (cases ys) (auto simp: prev_of_def split: list.splits)
next
  case (Cons x xs)
  have "prev_of p (x # xs) = prev_of (Some (fst x)) xs" by (simp add: prev_of_def)
  with Cons show ?case by (auto simp: add.assoc split: list.splits)
qed

lemma find_loop_nonempty: "rsearch r p rs k \<noteq> None \<Longrightarrow> find_loop r None p rs k \<noteq> []"
  by (subst find_loop.simps) (auto split: option.splits prod.splits)

text \<open>An ASCII character ends whatever incomplete encoding precedes it.\<close>

lemma ascii_not_cont: "ascii c \<Longrightarrow> \<not> cont c"
  by (simp add: ascii_def cont_def)

lemma ascii_not_second: "ascii c \<Longrightarrow> \<not> second_ok b (byte_val c)"
  by (auto simp: ascii_def second_ok_def)

lemma decode_rune_before_ascii:
  "s \<noteq> [] \<Longrightarrow> ascii c \<Longrightarrow> decode_rune (s @ c # t) = decode_rune s"
proof -
  assume "s \<noteq> []" and c: "ascii c"
  then obtain c0 s1 where s: "s = c0 # s1" by (cases s) auto
  note n = ascii_not_cont [OF c] ascii_not_second [OF c]
  show ?thesis
    unfolding s decode_rune_def
    using n by (cases s1; cases "tl s1"; cases "tl (tl s1)") (auto simp: Let_def split: list.splits)
qed

lemma runes_split_ascii: "ascii c \<Longrightarrow> runes (s @ c # t) = runes s @ runes (c # t)"
proof (induction s rule: runes.induct)
  case (1 s)
  show ?case
  proof (cases "s = []")
    case True
    then show ?thesis by simp
  next
    case False
    note d = decode_rune_before_ascii [OF False 1(2), of t]
    have w: "snd (decode_rune s) \<le> length s" using False by (rule decode_width)
    have "runes (drop (snd (decode_rune s)) s @ c # t) = runes (drop (snd (decode_rune s)) s) @ runes (c # t)"
      using 1 False by simp
    with False w d show ?thesis by (simp add: runes_ne)
  qed
qed

lemma FindAllIndex_found:
  assumes "c # t = key @ post" and "ascii c"
    and "\<And>p k. rmatch r (p, runes (c # t), k) \<noteq> []"
  shows "FindAllIndex r (pre @ key @ post) \<noteq> []"
proof -
  have "runes (pre @ key @ post) = runes pre @ runes (c # t)"
    using runes_split_ascii [OF assms(2), of pre t] by (simp add: assms(1))
  then have "rsearch r None (runes (pre @ key @ post)) 0 \<noteq> None"
    using rsearch_complete [of r None "runes pre" "runes (c # t)" 0] assms(3) by simp
  then show ?thesis unfolding FindAllIndex_def by (rule find_loop_nonempty)
qed

text \<open>Literals and counted classes on ASCII text.\<close>

definition ascii_runes :: "string \<Rightarrow> rune list" where
  "ascii_runes s = map (\<lambda>c. (byte_val c, [c])) s"

lemma runes_ascii_prefix:
  "\<forall>c \<in> set s. ascii c \<Longrightarrow> runes (s @ t) = ascii_runes s @ runes t"
  by (induction s) (simp_all add: ascii_runes_def runes_ascii)

lemma rep_run_length:
  "\<forall>r \<in> set xs. in_cls c (fst r) \<Longrightarrow> (case hi of None \<Rightarrow> True | Some n \<Rightarrow> length xs \<le> n) \<Longrightarrow>
     length xs < length (rep_run c hi p (xs @ ys) k)"
proof (induction xs arbitrary: hi p k)
  case Nil
  show ?case by (cases ys) simp_all
next
  case (Cons x xs)
  have "length xs < length (rep_run c (map_option (\<lambda>n. n - 1) hi) (Some (fst x)) (xs @ ys) (k + length (snd x)))"
    by (rule Cons.IH) (use Cons.prems in \<open>auto split: option.splits\<close>)
  with Cons.prems show ?case by auto
qed

lemma rmatch_rep:
  "\<forall>r \<in> set xs. in_cls c (fst r) \<Longrightarrow> lo \<le> length xs \<Longrightarrow> (case hi of None \<Rightarrow> True | Some n \<Rightarrow> length xs \<le> n) \<Longrightarrow>
     rmatch (RRep c lo hi) (p, xs @ ys, k) \<noteq> []"
  using rep_run_length [of xs c hi p ys k] by simp

lemma rmatch_seq: "t \<in> set (rmatch a s) \<Longrightarrow> rmatch b t \<noteq> [] \<Longrightarrow> rmatch (RSeq a b) s \<noteq> []"
  by (simp del: split_paired_Ex) blast

lemma rmatch_ralts: "r \<in> set rs \<Longrightarrow> t \<in> set (rmatch r s) \<Longrightarrow> t \<in> set (rmatch (ralts rs) s)"
  by (induction rs rule: ralts.induct) auto

lemma ichr_self: "in_cls (ichr c) (byte_val c)"
  by (auto simp: in_cls_def ichr_def Let_def)

lemma rmatch_rilit:
  "\<exists>q. (q, ys, k + length cs) \<in> set (rmatch (rilit cs) (p, ascii_runes cs @ ys, k))"
proof (induction cs arbitrary: p k)
  case Nil
  then show ?case by (simp add: ascii_runes_def)
next
  case (Cons c cs)
  from Cons.IH [of "k + 1" "Some (byte_val c)"] show ?case
    by (simp add: ascii_runes_def ichr_self)
qed

subsection \<open>Anchored classes\<close>

text \<open>\<open>^[class]{lo,hi}$\<close> without the flag \<open>m\<close>: the whole text, within the bounds, all in the class.\<close>

definition anchored :: "cls \<Rightarrow> nat \<Rightarrow> nat option \<Rightarrow> regex" where
  "anchored c lo hi = rseqs [RBegin, RRep c lo hi, REnd]"

lemma rep_run_mem:
  "(p', rs', k') \<in> set (rep_run c hi p rs k) \<Longrightarrow>
     \<exists>pre. rs = pre @ rs' \<and> (\<forall>r \<in> set pre. in_cls c (fst r))
       \<and> (case hi of None \<Rightarrow> True | Some n \<Rightarrow> length pre \<le> n)"
proof (induction c hi p rs k rule: rep_run.induct)
  case (1 c hi p k)
  then show ?case by (auto split: option.splits)
next
  case (2 c hi p r rs k)
  show ?case
  proof (cases "(p', rs', k') = (p, r # rs, k)")
    case True
    then show ?thesis by (auto split: option.splits)
  next
    case False
    with 2(2) have g: "hi \<noteq> Some 0" "in_cls c (fst r)"
      and m: "(p', rs', k') \<in> set (rep_run c (map_option (\<lambda>n. n - 1) hi) (Some (fst r)) rs (k + length (snd r)))"
      by (auto split: if_splits)
    from 2(1) [OF _ m] g obtain pre where "rs = pre @ rs'" "\<forall>r \<in> set pre. in_cls c (fst r)"
      "case map_option (\<lambda>n. n - 1) hi of None \<Rightarrow> True | Some n \<Rightarrow> length pre \<le> n" by auto
    with g show ?thesis by (intro exI [of _ "r # pre"]) (auto split: option.splits)
  qed
qed

text \<open>The \<open>i\<close>-th state of a run has consumed \<open>i\<close> runes.\<close>

lemma rep_run_nth:
  "i < length (rep_run c hi p rs k) \<Longrightarrow>
     \<exists>p' k'. rep_run c hi p rs k ! i = (p', drop i rs, k') \<and> i \<le> length rs"
proof (induction c hi p rs k arbitrary: i rule: rep_run.induct)
  case (2 c hi p r rs k)
  then show ?case by (cases i) (auto split: if_splits)
qed simp

lemma rmatch_anchored:
  "rmatch (anchored c lo hi) (p, rs, k) \<noteq> [] \<longleftrightarrow>
     k = 0 \<and> (\<forall>r \<in> set rs. in_cls c (fst r)) \<and> lo \<le> length rs
     \<and> (case hi of None \<Rightarrow> True | Some n \<Rightarrow> length rs \<le> n)" (is "?L \<longleftrightarrow> ?R")
proof
  assume ?L
  then have k: "k = 0" by (auto simp: anchored_def split: if_splits)
  with \<open>?L\<close> have "\<exists>t \<in> set (drop lo (rep_run c hi p rs k)). fst (snd t) = []"
    by (auto simp: anchored_def split: if_splits) (metis fst_conv snd_conv)
  then obtain t where t: "t \<in> set (drop lo (rep_run c hi p rs k))" "fst (snd t) = []" by blast
  then obtain i where i: "lo + i < length (rep_run c hi p rs k)" "rep_run c hi p rs k ! (lo + i) = t"
    by (metis (no_types, lifting) in_set_conv_nth length_drop less_diff_conv nth_drop add.commute
        less_imp_le_nat nat_less_le not_less zero_less_diff length_pos_if_in_set)
  from rep_run_nth [OF i(1)] i(2) t(2) have "lo \<le> length rs" by auto
  moreover obtain p' k' where "t = (p', [], k')" using t(2) by (cases t) auto
  then have "(p', [], k') \<in> set (rep_run c hi p rs k)" using t(1) in_set_dropD by fastforce
  from rep_run_mem [OF this] have "(\<forall>r \<in> set rs. in_cls c (fst r))
      \<and> (case hi of None \<Rightarrow> True | Some n \<Rightarrow> length rs \<le> n)" by simp
  ultimately show ?R using k by blast
next
  assume r: ?R
  then have len: "length rs < length (rep_run c hi p (rs @ []) k)" by (intro rep_run_length) auto
  then have len': "length rs < length (rep_run c hi p rs k)" by simp
  from rep_run_nth [OF this] obtain p' k' where
    "rep_run c hi p rs k ! length rs = (p', [], k')" by auto
  then have "(p', [], k') \<in> set (drop lo (rep_run c hi p rs k))"
    using r len' by (metis Cons_nth_drop_Suc drop_drop in_set_dropD le_add_diff_inverse2 list.set_intros(1))
  then have "(p', [], k') \<in> set (rmatch (RRep c lo hi) (p, rs, 0))" using r by simp
  then show ?L using r unfolding anchored_def by (auto intro!: bexI)
qed

lemma rsearch_begin:
  "(\<And>p rs k. k \<noteq> 0 \<Longrightarrow> rmatch r (p, rs, k) = []) \<Longrightarrow> \<forall>x \<in> set rs. snd x \<noteq> [] \<Longrightarrow>
     rsearch r p rs 0 \<noteq> None \<longleftrightarrow> rmatch r (p, rs, 0) \<noteq> []"
proof -
  assume no: "\<And>p rs k. k \<noteq> 0 \<Longrightarrow> rmatch r (p, rs, k) = []" and ne: "\<forall>x \<in> set rs. snd x \<noteq> []"
  have late: "k \<noteq> 0 \<Longrightarrow> rsearch r p rs k = None" for p rs k
    by (induction rs arbitrary: p k) (use no in auto)
  show ?thesis
  proof (cases rs)
    case Nil
    then show ?thesis by (simp split: list.split)
  next
    case (Cons x xs)
    with ne have "length (snd x) \<noteq> 0" by simp
    from late [OF this] show ?thesis by (simp add: Cons split: list.split)
  qed
qed

text \<open>On text of single-byte classes the runes are the bytes.\<close>

lemma decode_small: "fst (decode_rune (c # s)) < 128 \<Longrightarrow> ascii c"
proof (rule ccontr)
  assume "\<not> ascii c"
  then have "128 \<le> fst (decode_rune (c # s))"
    unfolding decode_rune_def ascii_def
    by (auto simp: Let_def rune_error_def second_ok_def cont_def split: list.split)
  moreover assume "fst (decode_rune (c # s)) < 128"
  ultimately show False by simp
qed

lemma runes_small: "\<forall>r \<in> set (runes s). fst r < 128 \<Longrightarrow> \<forall>x \<in> set s. ascii x"
proof (induction s)
  case Nil
  then show ?case by simp
next
  case (Cons c s)
  have "fst (decode_rune (c # s)) < 128" using Cons.prems by (simp add: runes_ne)
  then have c: "ascii c" by (rule decode_small)
  with Cons show ?case by (simp add: runes_ascii)
qed

lemma MatchString_anchored:
  assumes "\<forall>(a, b) \<in> set c. b < 128"
  shows "MatchString (anchored c lo hi) s \<longleftrightarrow>
     (\<forall>x \<in> set s. in_cls c (byte_val x)) \<and> lo \<le> length s
     \<and> (case hi of None \<Rightarrow> True | Some n \<Rightarrow> length s \<le> n)"
proof -
  have no: "k \<noteq> 0 \<Longrightarrow> rmatch (anchored c lo hi) (p, rs, k) = []" for p rs k
    by (simp add: anchored_def)
  have ne: "\<forall>x \<in> set (runes s). snd x \<noteq> []" using rune_width_pos by force
  have m: "MatchString (anchored c lo hi) s \<longleftrightarrow> rmatch (anchored c lo hi) (None, runes s, 0) \<noteq> []"
    unfolding MatchString_def by (rule rsearch_begin [OF no ne])
  have small: "in_cls c n \<Longrightarrow> n < 128" for n using assms by (fastforce simp: in_cls_def)
  have "(\<forall>r \<in> set (runes s). in_cls c (fst r)) \<longleftrightarrow> (\<forall>x \<in> set s. in_cls c (byte_val x))" (is "?A \<longleftrightarrow> ?B")
  proof
    assume ?B
    then have "\<forall>x \<in> set s. ascii x" using small by (auto simp: ascii_def)
    with \<open>?B\<close> show ?A by (simp add: runes_all_ascii)
  next
    assume a: ?A
    have "\<forall>x \<in> set s. ascii x" using runes_small [of s] a small by blast
    with a show ?B by (simp add: runes_all_ascii)
  qed
  moreover have "length (runes s) = length s" if ?B
    using that small by (simp add: runes_all_ascii ascii_def)
  ultimately show ?thesis unfolding m rmatch_anchored by (auto split: option.splits)
qed

end
