(* ===== verification/Allowlist.thy ===== *)
theory Allowlist
  imports Netaddr Utf8 Reload
begin

text \<open>
  \<open>egress/allowlist.go\<close>: the egress allowlist. The YAML parser and the file system are parameters as
  in the routing policy; DNS (\<open>net.LookupIP\<close>) is the argument \<open>dns\<close>, \<open>None\<close> for a failed lookup.
\<close>

record EgressPolicy =
  ep_Version :: string
  ep_AllowedDomains :: "string list"
  ep_AllowedCIDRs :: "string list"

definition item :: "string \<Rightarrow> string" where
  "item s = ''  - '' @ qt s @ nl"

definition default_domains :: "string list" where
  "default_domains =
     [''api.openai.com'', ''api.anthropic.com'', ''generativelanguage.googleapis.com'',
      ''openai.azure.com'', ''api.cohere.ai'', ''api.mistral.ai'']"

definition default_cidrs :: "string list" where
  "default_cidrs = [''127.0.0.0/8'', ''::1/128'']"

definition DefaultEgressPolicyYAML :: bytes where
  "DefaultEgressPolicyYAML =
     ''version: '' @ qt ''1'' @ nl
     @ ''# NexisCore Egress Allowlist Policy'' @ nl
     @ ''# Only domains and CIDR ranges listed here may receive outbound traffic.'' @ nl
     @ ''allowed_domains:'' @ nl @ concat (map item default_domains)
     @ ''allowed_cidrs:'' @ nl @ concat (map item default_cidrs)"

text \<open>The document that text spells out.\<close>

definition default_egress :: EgressPolicy where
  "default_egress =
     \<lparr> ep_Version = ''1'', ep_AllowedDomains = default_domains, ep_AllowedCIDRs = default_cidrs \<rparr>"

record AllowlistRouter =
  al_policyPath :: string
  al_domains :: "string list"
  al_cidrs :: "IPNet list"
  al_lastModTime :: time
  al_pollInterval :: time
  al_stopCh :: bool

subsection \<open>The decision\<close>

fun cidrs_contain :: "IPNet list \<Rightarrow> ip \<Rightarrow> bool" where
  "cidrs_contain [] a = False"
| "cidrs_contain (c # cs) a = (if Contains c a then True else cidrs_contain cs a)"

fun domains_match :: "string list \<Rightarrow> string \<Rightarrow> bool" where
  "domains_match [] host = False"
| "domains_match (d # ds) host =
     (if host = d then True
      else if HasSuffix host (''.'' @ d) then True
      else domains_match ds host)"

fun any_resolved :: "IPNet list \<Rightarrow> ip list \<Rightarrow> bool" where
  "any_resolved cs [] = False"
| "any_resolved cs (a # as) = (if cidrs_contain cs a then True else any_resolved cs as)"

text \<open>The host the decision is about: trimmed, lowercased, without its port.\<close>

definition normalise_host :: "unicode \<Rightarrow> string \<Rightarrow> string" where
  "normalise_host U host0 =
     (let host = ToLower U (TrimSpace host0) in
      case SplitHostPort host of Some h \<Rightarrow> h | None \<Rightarrow> host)"

definition IsAllowed ::
  "unicode \<Rightarrow> (string \<Rightarrow> ip list option) \<Rightarrow> AllowlistRouter \<Rightarrow> string \<Rightarrow> bool" where
  "IsAllowed U dns r host0 =
     (let host = normalise_host U host0 in
      case ParseIP host of
        Some a \<Rightarrow> cidrs_contain (al_cidrs r) a
      | None \<Rightarrow>
          if domains_match (al_domains r) host then True
          else (case dns host of
                  None \<Rightarrow> False
                | Some resolvedIPs \<Rightarrow> any_resolved (al_cidrs r) resolvedIPs))"

definition AllowedDomains :: "AllowlistRouter \<Rightarrow> string list" where
  "AllowedDomains r = al_domains r"

subsection \<open>Loading\<close>

datatype egress_error = EgressStat string | EgressRead string | EgressYAML string

fun parse_cidrs :: "string list \<Rightarrow> IPNet list" where
  "parse_cidrs [] = []"
| "parse_cidrs (s # ss) =
     (case ParseCIDR (TrimSpace s) of
        None \<Rightarrow> parse_cidrs ss
      | Some net \<Rightarrow> net # parse_cidrs ss)"

definition allowlist_apply ::
  "unicode \<Rightarrow> (bytes \<Rightarrow> string + EgressPolicy) \<Rightarrow> AllowlistRouter \<Rightarrow> bytes \<Rightarrow> bytes option
     \<Rightarrow> AllowlistRouter \<times> bytes option \<times> egress_error option" where
  "allowlist_apply U unmarshal r rawYAML wrote =
     (case unmarshal rawYAML of
        Inl e \<Rightarrow> (r, wrote, Some (EgressYAML e))
      | Inr policy \<Rightarrow>
          (r\<lparr>al_domains := map (\<lambda>d. ToLower U (TrimSpace d)) (ep_AllowedDomains policy),
             al_cidrs := parse_cidrs (ep_AllowedCIDRs policy)\<rparr>, wrote, None))"

definition allowlist_load ::
  "unicode \<Rightarrow> (bytes \<Rightarrow> string + EgressPolicy) \<Rightarrow> fs_view \<Rightarrow> AllowlistRouter
     \<Rightarrow> AllowlistRouter \<times> bytes option \<times> egress_error option" where
  "allowlist_load U unmarshal v r =
     (case fv_stat v of
        StatNotExist \<Rightarrow> allowlist_apply U unmarshal r DefaultEgressPolicyYAML (Some DefaultEgressPolicyYAML)
      | StatError e \<Rightarrow> (r, None, Some (EgressStat e))
      | StatOK modTime \<Rightarrow>
          (let unchanged = (\<not> (modTime > al_lastModTime r)) in
           if unchanged then (r, None, None)
           else case fv_read v of
             Inl e \<Rightarrow> (r, None, Some (EgressRead e))
           | Inr rawYAML \<Rightarrow>
               allowlist_apply U unmarshal (r\<lparr>al_lastModTime := modTime\<rparr>) rawYAML None))"

definition NewAllowlistRouter ::
  "unicode \<Rightarrow> (bytes \<Rightarrow> string + EgressPolicy) \<Rightarrow> string \<Rightarrow> fs_view \<Rightarrow> egress_error + AllowlistRouter" where
  "NewAllowlistRouter U unmarshal policyPath v =
     (let r = \<lparr> al_policyPath = policyPath, al_domains = [], al_cidrs = [],
                al_lastModTime = zero_time, al_pollInterval = 15 * second, al_stopCh = False \<rparr>;
          (r', _, err) = allowlist_load U unmarshal v r
      in case err of Some e \<Rightarrow> Inl e | None \<Rightarrow> Inr r')"

text \<open>The poller: one load per tick until \<open>stopCh\<close> is closed (\<open>None\<close>). \<open>Shutdown\<close> closes it.\<close>

fun allowlist_poller ::
  "unicode \<Rightarrow> (bytes \<Rightarrow> string + EgressPolicy) \<Rightarrow> fs_view option list \<Rightarrow> AllowlistRouter \<Rightarrow> AllowlistRouter"
where
  "allowlist_poller U unmarshal [] r = r"
| "allowlist_poller U unmarshal (Some v # es) r =
     allowlist_poller U unmarshal es (fst (allowlist_load U unmarshal v r))"
| "allowlist_poller U unmarshal (None # es) r = r"

definition allowlist_Shutdown :: "AllowlistRouter \<Rightarrow> AllowlistRouter option" where
  "allowlist_Shutdown r = (if al_stopCh r then None else Some (r\<lparr>al_stopCh := True\<rparr>))"

subsection \<open>Interfaces\<close>

definition domain_matches :: "string \<Rightarrow> string \<Rightarrow> bool" where
  "domain_matches d host \<longleftrightarrow> host = d \<or> HasSuffix host (''.'' @ d)"

interpretation cidr_rules: rule_list cidrs_contain Contains
proof unfold_locales
  fix rs q
  show "cidrs_contain rs q \<longleftrightarrow> (\<exists>r \<in> set rs. Contains r q)"
    by (induction rs) auto
qed

interpretation domain_rules: rule_list domains_match domain_matches
proof unfold_locales
  fix rs q
  show "domains_match rs q \<longleftrightarrow> (\<exists>r \<in> set rs. domain_matches r q)"
    by (induction rs) (auto simp: domain_matches_def)
qed

lemma domain_matches_iff: "domain_matches d host \<longleftrightarrow> host = d \<or> (\<exists>sub. host = sub @ ''.'' @ d)"
  by (simp add: domain_matches_def HasSuffix_iff)

lemma any_resolved_iff: "any_resolved cs as \<longleftrightarrow> (\<exists>a \<in> set as. cidrs_contain cs a)"
  by (induction as) auto

definition allowlist_offered ::
  "unicode \<Rightarrow> (bytes \<Rightarrow> string + EgressPolicy) \<Rightarrow> fs_view \<Rightarrow> (string list \<times> IPNet list) option" where
  "allowlist_offered U unmarshal v =
     (case (case fv_stat v of
              StatNotExist \<Rightarrow> Inr DefaultEgressPolicyYAML
            | StatError e \<Rightarrow> Inl e
            | StatOK _ \<Rightarrow> fv_read v) of
        Inl _ \<Rightarrow> None
      | Inr raw \<Rightarrow> (case unmarshal raw of
                      Inl _ \<Rightarrow> None
                    | Inr p \<Rightarrow> Some (map (\<lambda>d. ToLower U (TrimSpace d)) (ep_AllowedDomains p),
                                     parse_cidrs (ep_AllowedCIDRs p))))"

lemmas allowlist_load_defs =
  allowlist_load_def allowlist_apply_def allowlist_offered_def Let_def

interpretation allowlist: hot_reload
  "allowlist_load U unmarshal" "\<lambda>r. (al_domains r, al_cidrs r)" al_lastModTime
  "allowlist_offered U unmarshal"
  for U :: unicode and unmarshal :: "bytes \<Rightarrow> string + EgressPolicy"
  by unfold_locales
    (auto simp: allowlist_load_defs split: stat_result.splits sum.splits)

definition poll_views :: "fs_view option list \<Rightarrow> fs_view list" where
  "poll_views es = map the (takeWhile (\<lambda>e. e \<noteq> None) es)"

lemma allowlist_poller_fold:
  "allowlist_poller U unmarshal es r =
     fold (\<lambda>v r. fst (allowlist_load U unmarshal v r)) (poll_views es) r"
  by (induction U unmarshal es r rule: allowlist_poller.induct) (simp_all add: poll_views_def)

subsection \<open>Lemmas: printed IPv4 addresses\<close>

definition show_ip4 :: "nat \<Rightarrow> nat \<Rightarrow> nat \<Rightarrow> nat \<Rightarrow> string" where
  "show_ip4 a b c d = dec_nat a @ ''.'' @ dec_nat b @ ''.'' @ dec_nat c @ ''.'' @ dec_nat d"

lemma dec_nat_byte:
  assumes "n < 256"
  shows "(n < 10 \<and> dec_nat n = [digit_char n])
    \<or> (\<exists>x y. 0 < x \<and> x < 10 \<and> y < 10 \<and> n = x * 10 + y \<and> dec_nat n = [digit_char x, digit_char y])
    \<or> (\<exists>x y z. 0 < x \<and> x < 3 \<and> y < 10 \<and> z < 10 \<and> n = (x * 10 + y) * 10 + z
         \<and> dec_nat n = [digit_char x, digit_char y, digit_char z])"
proof (cases "n < 10")
  case True
  then show ?thesis by (simp add: dec_nat.simps [of n])
next
  case False
  show ?thesis
  proof (cases "n < 100")
    case True
    have "dec_nat n = [digit_char (n div 10), digit_char (n mod 10)]"
      using False True by (simp add: dec_nat.simps [of n] dec_nat.simps [of "n div 10"])
    moreover have "n = n div 10 * 10 + n mod 10" "0 < n div 10" "n div 10 < 10" "n mod 10 < 10"
      using False True by simp_all
    ultimately show ?thesis by blast
  next
    case g: False
    have "n div 10 div 10 < 10" using assms by simp
    then have "dec_nat (n div 10 div 10) = [digit_char (n div 10 div 10)]"
      by (simp add: dec_nat.simps [of "n div 10 div 10"])
    moreover have "\<not> n div 10 < 10" using g by simp
    ultimately have "dec_nat n = [digit_char (n div 10 div 10), digit_char (n div 10 mod 10), digit_char (n mod 10)]"
      using False by (simp add: dec_nat.simps [of n] dec_nat.simps [of "n div 10"])
    moreover have "n = (n div 10 div 10 * 10 + n div 10 mod 10) * 10 + n mod 10" by simp
    moreover have "0 < n div 10 div 10" "n div 10 div 10 < 3" "n div 10 mod 10 < 10" "n mod 10 < 10"
      using g assms by simp_all
    ultimately show ?thesis by blast
  qed
qed

lemma digit_char_dot [simp]: "d < 10 \<Longrightarrow> digit_char d \<noteq> CHR ''.''"
  by (simp add: digit_char_def char_of_eq_iff take_bit_eq_mod)

lemma ipv4_fields_digit:
  "d < 10 \<Longrightarrow> \<not> 255 < v * 10 + d \<Longrightarrow> k \<noteq> 1 \<or> v \<noteq> 0 \<Longrightarrow>
     ipv4_fields acc v k (digit_char d # s) = ipv4_fields acc (v * 10 + d) (Suc k) s"
  by (auto simp: Let_def)

lemma ipv4_fields_dec:
  assumes "n < 256"
  shows "ipv4_fields acc 0 0 (dec_nat n @ rest) = ipv4_fields acc n (length (dec_nat n)) rest"
  using dec_nat_byte [OF assms]
proof (elim disjE exE conjE)
  assume "n < 10" "dec_nat n = [digit_char n]"
  then show ?thesis using ipv4_fields_digit [of n 0 0 acc rest] by simp
next
  fix x y
  assume "0 < x" "x < 10" "y < 10" and n: "n = x * 10 + y" and d: "dec_nat n = [digit_char x, digit_char y]"
  then show ?thesis
    using ipv4_fields_digit [of x 0 0 acc "digit_char y # rest"] ipv4_fields_digit [of y x 1 acc rest]
    by (simp del: ipv4_fields.simps)
next
  fix x y z
  assume x: "0 < x" "x < 3" and y: "y < 10" and z: "z < 10" and n: "n = (x * 10 + y) * 10 + z"
    and d: "dec_nat n = [digit_char x, digit_char y, digit_char z]"
  have le2: "\<not> 255 < (x * 10 + y) * 10 + z" using assms unfolding n by simp
  have "x * 10 + y \<le> (x * 10 + y) * 10 + z" by simp
  then have le1: "\<not> 255 < x * 10 + y" using le2 by (meson le_trans less_le_not_le not_le)
  have "ipv4_fields acc 0 0 (digit_char x # digit_char y # digit_char z # rest)
      = ipv4_fields acc (0 * 10 + x) (Suc 0) (digit_char y # digit_char z # rest)"
    using x by (intro ipv4_fields_digit) simp_all
  also have "\<dots> = ipv4_fields acc ((0 * 10 + x) * 10 + y) (Suc (Suc 0)) (digit_char z # rest)"
    using x y le1 by (intro ipv4_fields_digit) simp_all
  also have "\<dots> = ipv4_fields acc (((0 * 10 + x) * 10 + y) * 10 + z) (Suc (Suc (Suc 0))) rest"
    using z le2 x by (intro ipv4_fields_digit) simp_all
  also have "((0 * 10 + x) * 10 + y) * 10 + z = n" by (simp add: n)
  finally show ?thesis by (simp add: d del: ipv4_fields.simps)
qed

lemma ipv4_fields_dot:
  "length acc < 3 \<Longrightarrow>
     ipv4_fields acc v (length (dec_nat v)) (CHR ''.'' # s) = ipv4_fields (acc @ [of_nat v]) 0 0 s"
  by (simp add: is_dec_def)

lemma parseIPv4_show:
  assumes "a < 256" "b < 256" "c < 256" "d < 256"
  shows "parseIPv4 (show_ip4 a b c d) = Some [of_nat a, of_nat b, of_nat c, of_nat d]"
  using ipv4_fields_dec [OF assms(4), of "[of_nat a, of_nat b, of_nat c]" "[]"]
  by (simp add: parseIPv4_def show_ip4_def ipv4_fields_dec assms ipv4_fields_dot
      del: ipv4_fields.simps) (simp add: assms)

subsection \<open>Lemmas: plain hosts\<close>

text \<open>Trimming, lowering and port stripping leave a printed IPv4 address alone.\<close>

definition plain_host :: "string \<Rightarrow> bool" where
  "plain_host s \<longleftrightarrow>
     (\<forall>c \<in> set s. ascii c \<and> \<not> is_space (byte_val c) \<and> lower_char c = c \<and> c \<noteq> CHR '':'')"

lemma dropWhile_none: "\<forall>x \<in> set xs. \<not> P x \<Longrightarrow> dropWhile P xs = xs"
  by (cases xs) simp_all

lemma TrimSpace_plain: "plain_host s \<Longrightarrow> TrimSpace s = s"
proof -
  assume p: "plain_host s"
  then have r: "runes s = map (\<lambda>c. (byte_val c, [c])) s"
    by (simp add: plain_host_def runes_all_ascii)
  have "\<forall>x \<in> set (runes s). \<not> is_space (fst x)" using p by (auto simp: r plain_host_def)
  then have "trim_runes is_space (runes s) = runes s"
    by (simp add: trim_runes_def dropWhile_none)
  then show ?thesis by (simp add: TrimSpace_def r comp_def concat_map_singleton)
qed

lemma ToLower_plain: "plain_host s \<Longrightarrow> ToLower U s = s"
  by (auto simp: plain_host_def ToLower_def map_idI)

lemma normalise_plain: "plain_host s \<Longrightarrow> normalise_host U s = s"
proof -
  assume p: "plain_host s"
  then have "CHR '':'' \<notin> set s" by (auto simp: plain_host_def)
  with p show ?thesis
    by (simp add: normalise_host_def TrimSpace_plain ToLower_plain SplitHostPort_def)
qed

lemma digit_plain: "d < 10 \<Longrightarrow> plain_host [digit_char d]"
  by (simp add: plain_host_def digit_char_def ascii_def is_space_def lower_char_def char_of_eq_iff
      take_bit_eq_mod)

lemma plain_append [simp]: "plain_host (xs @ ys) \<longleftrightarrow> plain_host xs \<and> plain_host ys"
  by (auto simp: plain_host_def)

lemma dec_nat_plain: "plain_host (dec_nat n)"
proof (induction n rule: dec_nat.induct)
  case (1 n)
  show ?case
  proof (cases "n < 10")
    case True
    then show ?thesis by (simp add: dec_nat.simps [of n] digit_plain)
  next
    case False
    with 1 digit_plain [of "n mod 10"] show ?thesis by (simp add: dec_nat.simps [of n])
  qed
qed

lemma show_ip4_plain: "plain_host (show_ip4 a b c d)"
proof -
  have "plain_host ''.''" by (simp add: plain_host_def ascii_def is_space_def lower_char_def)
  then show ?thesis unfolding show_ip4_def by (simp only: plain_append dec_nat_plain simp_thms)
qed

lemma dropWhile_digits: "dropWhile (\<lambda>c. c \<noteq> CHR ''.'' \<and> c \<noteq> CHR '':'' \<and> c \<noteq> CHR ''%'') (dec_nat n @ s)
    = dropWhile (\<lambda>c. c \<noteq> CHR ''.'' \<and> c \<noteq> CHR '':'' \<and> c \<noteq> CHR ''%'') s"
proof -
  have "c \<noteq> CHR ''.'' \<and> c \<noteq> CHR '':'' \<and> c \<noteq> CHR ''%''" if "c \<in> set (dec_nat n)" for c
    using set_dec_nat [OF that] by (auto simp: is_dec_def)
  then show ?thesis by (rule dropWhile_append2)
qed

lemma ParseAddr_show:
  assumes "a < 256" "b < 256" "c < 256" "d < 256"
  shows "ParseAddr (show_ip4 a b c d) =
    Some (v4InV6Prefix @ [of_nat a, of_nat b, of_nat c, of_nat d], 32)"
proof -
  have "dropWhile (\<lambda>c. c \<noteq> CHR ''.'' \<and> c \<noteq> CHR '':'' \<and> c \<noteq> CHR ''%'') (show_ip4 a b c d)
      = CHR ''.'' # dec_nat b @ ''.'' @ dec_nat c @ ''.'' @ dec_nat d"
    unfolding show_ip4_def dropWhile_digits by simp
  then show ?thesis by (simp add: ParseAddr_def parseIPv4_show [OF assms])
qed

lemma byte_eq_bits: "(\<forall>j < 8. bit (x :: 8 word) (7 - j) = bit y (7 - j)) \<longleftrightarrow> x = y"
proof
  assume b: "\<forall>j < 8. bit x (7 - j) = bit y (7 - j)"
  have "bit x k = bit y k" if "k < 8" for k
  proof -
    have "7 - (7 - k) = k" and "7 - k < 8" using that by simp_all
    with b show ?thesis by metis
  qed
  then show "x = y" by (auto simp: bit_eq_iff)
qed simp

lemma of_nat_byte_eq: "a < 256 \<Longrightarrow> b < 256 \<Longrightarrow> (of_nat a :: 8 word) = of_nat b \<longleftrightarrow> a = b"
  by (simp add: word_of_nat_eq_iff take_bit_eq_mod)

text \<open>The two default blocks: an IPv4 address is inside exactly when its first byte is 127.\<close>

lemma default_blocks:
  assumes "a < 256"
  shows "cidrs_contain (parse_cidrs default_cidrs) (v4InV6Prefix @ [of_nat a, x, y, z]) \<longleftrightarrow> a = 127"
proof -
  let ?x = "v4InV6Prefix @ [of_nat a, x, y, z]"
  have lx: "length ?x = 16" by simp
  have t4: "To4 ?x \<noteq> None" by (simp add: To4_def)
  have "show_ip4 127 0 0 0 = ''127.0.0.0''"
    by (simp add: show_ip4_def dec_nat.simps digit_char_def char_of_eq_iff take_bit_eq_mod)
  then have a1: "ParseAddr ''127.0.0.0'' = Some (v4InV6Prefix @ [127, 0, 0, 0], 32)"
    using ParseAddr_show [of 127 0 0 0] by simp
  have n1: "read_ones ''8'' = Some 8" by (simp add: read_ones_def is_dec_def dec_val_def)
  obtain net1 where net1: "ParseCIDR ''127.0.0.0/8'' = Some net1"
    and c1: "Contains net1 ?x \<longleftrightarrow> (\<forall>j < 8. addr_bit [127, 0, 0, 0] j = addr_bit [of_nat a, x, y, z] j)"
    using ParseCIDR_contains [OF _ a1 n1 _ _ lx] t4 by (auto simp: family_bytes_def)
  have "(\<forall>j < 8. addr_bit [127, 0, 0, 0] j = addr_bit [of_nat a, x, y, z] j) \<longleftrightarrow> a = 127"
    using byte_eq_bits [of 127 "of_nat a"] of_nat_byte_eq [of 127 a] assms
    by (auto simp: addr_bit_def)
  with c1 have c1: "Contains net1 ?x \<longleftrightarrow> a = 127" by simp
  have "ipv6_loop 9 [] (Some 0) ''1'' = Some ([0, 1], Some 0, [])"
    using ipv6_loop.simps(2) [of 8 "[]" "Some 0" "''1''"] by (simp add: hexval_def Let_def)
  then have a2: "ParseAddr ''::1'' = Some (replicate 14 0 @ [0, 1], 128)"
    by (simp add: ParseAddr_def parseIPv6_def Let_def ipv6_expand_def)
  have n2: "read_ones ''128'' = Some 128" by (simp add: read_ones_def is_dec_def dec_val_def)
  have "(replicate 12 0 :: ip) ! 11 \<noteq> v4InV6Prefix ! 11"
    by (simp add: v4InV6Prefix_def nth_append)
  then have "replicate 12 0 \<noteq> v4InV6Prefix" by metis
  then have v6: "To4 (replicate 14 0 @ [0, 1]) = None" by (simp add: To4_def)
  obtain net2 where net2: "ParseCIDR ''::1/128'' = Some net2" and c2: "\<not> Contains net2 ?x"
    using ParseCIDR_contains [OF _ a2 n2 _ _ lx] t4 v6 by auto
  have "TrimSpace ''127.0.0.0/8'' = ''127.0.0.0/8''" "TrimSpace ''::1/128'' = ''::1/128''"
    by (simp_all add: TrimSpace_def trim_runes_def runes_all_ascii ascii_def is_space_def)
  with net1 net2 c1 c2 show ?thesis by (simp add: default_cidrs_def)
qed

subsection \<open>Properties\<close>

text \<open>
  C30: the egress decision. An IP literal is decided by the CIDR blocks alone; any other host is
  permitted when it equals a listed domain or is a subdomain of one at a label boundary, and
  otherwise exactly when DNS resolves it to some address inside a block, whatever the other
  addresses it resolves to.
\<close>

theorem is_allowed_iff:
  "IsAllowed U dns r h \<longleftrightarrow>
     (case ParseIP (normalise_host U h) of
        Some a \<Rightarrow> \<exists>c \<in> set (al_cidrs r). Contains c a
      | None \<Rightarrow>
          (\<exists>d \<in> set (al_domains r). normalise_host U h = d \<or> (\<exists>sub. normalise_host U h = sub @ ''.'' @ d))
          \<or> (\<exists>as. dns (normalise_host U h) = Some as
               \<and> (\<exists>a \<in> set as. \<exists>c \<in> set (al_cidrs r). Contains c a)))"
  by (auto simp: IsAllowed_def Let_def cidr_rules.permits_iff domain_rules.permits_iff
      domain_matches_iff any_resolved_iff split: option.splits)

text \<open>
  The embedded default policy keeps raw addresses inside the host. When no policy file exists and
  the YAML parser reads the embedded document as the lists it spells out, the router starts, and the
  dotted form of an IPv4 address is permitted exactly when its first byte is 127.
\<close>

theorem default_egress_loopback_only:
  assumes "unmarshal DefaultEgressPolicyYAML = Inr default_egress" and "fv_stat v = StatNotExist"
    and "a < 256" "b < 256" "c < 256" "d < 256"
  shows "\<exists>r. NewAllowlistRouter U unmarshal path v = Inr r
     \<and> (IsAllowed U dns r (show_ip4 a b c d) \<longleftrightarrow> a = 127)"
proof -
  obtain r where r: "NewAllowlistRouter U unmarshal path v = Inr r"
    and c: "al_cidrs r = parse_cidrs default_cidrs"
    using assms(1,2) by (auto simp: NewAllowlistRouter_def allowlist_load_defs default_egress_def)
  have "ParseIP (show_ip4 a b c d) = Some (v4InV6Prefix @ [of_nat a, of_nat b, of_nat c, of_nat d])"
    using ParseAddr_show [OF assms(3-6)] by (simp add: ParseIP_def)
  then have "IsAllowed U dns r (show_ip4 a b c d) \<longleftrightarrow> a = 127"
    using default_blocks [OF assms(3)] c
    by (simp add: IsAllowed_def Let_def normalise_plain [OF show_ip4_plain])
  with r show ?thesis by blast
qed

definition demo_unicode :: unicode where
  "demo_unicode = \<lparr> uni_lower = (\<lambda>n. n), uni_digit = (\<lambda>n. False), uni_print = (\<lambda>n. True), uni_rawError = (\<lambda>s. []) \<rparr>"

theorem default_egress_loopback_only_witness:
  "\<exists>r. NewAllowlistRouter demo_unicode (\<lambda>_. Inr default_egress) ''e.yaml''
          \<lparr> fv_stat = StatNotExist, fv_read = Inl ''none'' \<rparr> = Inr r
     \<and> \<not> IsAllowed demo_unicode (\<lambda>_. None) r (show_ip4 169 254 169 254)"
  using default_egress_loopback_only [where unmarshal = "\<lambda>_. Inr default_egress" and path = "''e.yaml''"
      and U = demo_unicode and dns = "\<lambda>_. None" and a = 169 and b = 254 and c = 169 and d = 254
      and v = "\<lparr> fv_stat = StatNotExist, fv_read = Inl ''none'' \<rparr>"]
  by auto

text \<open>
  Hot reload of the allowlist is safe. Whatever the file system shows on each poll, the lists in
  force are the previous ones or those of a document some poll read and the parser accepted, with
  exactly its parseable blocks; an error changes nothing, and a document already seen is not parsed
  again.
\<close>

theorem allowlist_reload_safe:
  "((al_domains (allowlist_poller U unmarshal es r), al_cidrs (allowlist_poller U unmarshal es r))
        = (al_domains r, al_cidrs r)
     \<or> (\<exists>v \<in> set (poll_views es). allowlist_offered U unmarshal v =
          Some (al_domains (allowlist_poller U unmarshal es r), al_cidrs (allowlist_poller U unmarshal es r))))
   \<and> (snd (snd (allowlist_load U unmarshal v r)) \<noteq> None \<longrightarrow>
        al_domains (fst (allowlist_load U unmarshal v r)) = al_domains r
        \<and> al_cidrs (fst (allowlist_load U unmarshal v r)) = al_cidrs r)
   \<and> (fv_stat v = StatOK t \<longrightarrow> fv_read v = Inr raw \<longrightarrow> fv_stat v' = StatOK t \<longrightarrow>
        allowlist_load U unmarshal v' (fst (allowlist_load U unmarshal v r))
          = (fst (allowlist_load U unmarshal v r), None, None))"
  using allowlist.polled_cfg [of U unmarshal "poll_views es" r] allowlist.load_error [of U unmarshal v r]
    allowlist.load_once [of v t raw v' U unmarshal r]
  by (simp add: allowlist_poller_fold)

theorem allowlist_reload_safe_witness:
  "let unmarshal = (\<lambda>raw. if raw = ''good'' then Inr default_egress else Inl ''bad yaml'');
       r = \<lparr> al_policyPath = ''p'', al_domains = [''a.io''], al_cidrs = [], al_lastModTime = 0,
             al_pollInterval = 15 * second, al_stopCh = False \<rparr>;
       bad = \<lparr> fv_stat = StatOK 5, fv_read = Inr ''junk'' \<rparr>
   in al_domains (fst (allowlist_load demo_unicode unmarshal bad r)) = [''a.io'']"
  using allowlist_reload_safe [of demo_unicode
      "\<lambda>raw. if raw = ''good'' then Inr default_egress else Inl ''bad yaml''" "[]"
      "\<lparr> al_policyPath = ''p'', al_domains = [''a.io''], al_cidrs = [], al_lastModTime = 0,
             al_pollInterval = 15 * second, al_stopCh = False \<rparr>"
      "\<lparr> fv_stat = StatOK 5, fv_read = Inr ''junk'' \<rparr>" 5 "''junk''" "\<lparr> fv_stat = StatOK 5, fv_read = Inr ''junk'' \<rparr>"]
  by (simp add: allowlist_load_defs)

end
