(* ===== verification/Gateway.thy ===== *)
theory Gateway
  imports Sandbox Validator Router Memcheck Proxy Jsondec
begin

text \<open>
  \<open>main.go\<close>: the gateway. Its package variables are one record, \<open>gateway\<close>; each HTTP handler is a
  function of the request, of what the libraries and the host answer during the call (\<open>gateway_env\<close>)
  and of that record. SHA-256, ECDSA and the texts of library errors are parameters.
\<close>

subsection \<open>Requests and responses\<close>

record InterceptRequest =
  ir_Script :: string
  ir_Variables :: "(string, json) gomap"
  ir_Manifest :: string
  ir_Signature :: string
  ir_AgentID :: string

record ManifestStructure =
  ms_ToolName :: string
  ms_Nonce :: string
  ms_Timestamp :: int64

record InterceptResponse =
  is_Success :: bool
  is_Message :: string
  is_Output :: "Result option"
  is_PIDLocked :: int

definition refusal :: "string \<Rightarrow> InterceptResponse" where
  "refusal msg = \<lparr> is_Success = False, is_Message = msg, is_Output = None, is_PIDLocked = 0 \<rparr>"

subsection \<open>Reading the JSON of a request\<close>

definition store_request :: "string \<Rightarrow> json \<Rightarrow> InterceptRequest \<Rightarrow> InterceptRequest option" where
  "store_request k x r =
     (if same_key ''script'' k then map_option (\<lambda>v. r\<lparr>ir_Script := v\<rparr>) (set_string x (ir_Script r))
      else if same_key ''variables'' k then map_option (\<lambda>v. r\<lparr>ir_Variables := v\<rparr>) (set_map x (ir_Variables r))
      else if same_key ''manifest'' k then map_option (\<lambda>v. r\<lparr>ir_Manifest := v\<rparr>) (set_string x (ir_Manifest r))
      else if same_key ''signature'' k then map_option (\<lambda>v. r\<lparr>ir_Signature := v\<rparr>) (set_string x (ir_Signature r))
      else if same_key ''agent_id'' k then map_option (\<lambda>v. r\<lparr>ir_AgentID := v\<rparr>) (set_string x (ir_AgentID r))
      else Some r)"

definition unmarshalRequest :: "bytes \<Rightarrow> InterceptRequest option" where
  "unmarshalRequest b =
     (case json_parse b of
        None \<Rightarrow> None
      | Some j \<Rightarrow> to_struct store_request j
          \<lparr> ir_Script = [], ir_Variables = [], ir_Manifest = [], ir_Signature = [], ir_AgentID = [] \<rparr>)"

definition store_manifest :: "string \<Rightarrow> json \<Rightarrow> ManifestStructure \<Rightarrow> ManifestStructure option" where
  "store_manifest k x m =
     (if same_key ''tool_name'' k then map_option (\<lambda>v. m\<lparr>ms_ToolName := v\<rparr>) (set_string x (ms_ToolName m))
      else if same_key ''nonce'' k then map_option (\<lambda>v. m\<lparr>ms_Nonce := v\<rparr>) (set_string x (ms_Nonce m))
      else if same_key ''timestamp'' k then map_option (\<lambda>v. m\<lparr>ms_Timestamp := v\<rparr>) (set_int64 x (ms_Timestamp m))
      else Some m)"

definition unmarshalManifest :: "bytes \<Rightarrow> ManifestStructure option" where
  "unmarshalManifest b =
     (case json_parse b of
        None \<Rightarrow> None
      | Some j \<Rightarrow> to_struct store_manifest j \<lparr> ms_ToolName = [], ms_Nonce = [], ms_Timestamp = 0 \<rparr>)"

text \<open>The playground's request has one field, and is read from the stream.\<close>

definition decodeScript :: "bytes \<times> string option \<Rightarrow> string option" where
  "decodeScript b =
     (case json_decode_stream b of
        None \<Rightarrow> None
      | Some j \<Rightarrow> to_struct (\<lambda>k x s. if same_key ''script'' k then set_string x s else Some s) j [])"

subsection \<open>\<open>scrubInput\<close>\<close>

text \<open>\<open>^[a-zA-Z0-9_\-]{1,64}$\<close> and \<open>^[\x20-\x7E\t\n\r]*$\<close>\<close>

definition cls_key :: cls where
  "cls_key = [(97, 122), (65, 90), (48, 57), (95, 95), (45, 45)]"

definition cls_value :: cls where
  "cls_value = [(0x20, 0x7E), (9, 9), (10, 10), (13, 13)]"

definition variableKeyRegex :: regex where
  "variableKeyRegex = anchored cls_key 1 (Some 64)"

definition variableValueRegex :: regex where
  "variableValueRegex = anchored cls_value 0 None"

definition nul :: string where "nul = [CHR 0x00]"

text \<open>The loop over an array value: strings are checked, anything else is kept as it is.\<close>

fun scrub_items :: "string \<Rightarrow> nat \<Rightarrow> json list \<Rightarrow> string + json list" where
  "scrub_items k i [] = Inr []"
| "scrub_items k i (it # rest) =
     (case it of
        JStr strItem \<Rightarrow>
          if length strItem > 1024
          then Inl (''array element at index '' @ dec_nat i @ '' in key '' @ [CHR 0x27] @ k @ [CHR 0x27]
                      @ '' exceeds maximum allowed length of 1024 bytes'')
          else if str_contains strItem nul
          then Inl (''array element at index '' @ dec_nat i @ '' in key '' @ [CHR 0x27] @ k @ [CHR 0x27]
                      @ '' contains null bytes'')
          else if \<not> MatchString variableValueRegex strItem
          then Inl (''array element at index '' @ dec_nat i @ '' in key '' @ [CHR 0x27] @ k @ [CHR 0x27]
                      @ '' violates strict character boundaries'')
          else map_sum id ((#) it) (scrub_items k (Suc i) rest)
      | _ \<Rightarrow> map_sum id ((#) it) (scrub_items k (Suc i) rest))"

definition scrub_value :: "string \<Rightarrow> json \<Rightarrow> string + json" where
  "scrub_value k v =
     (case v of
        JStr val \<Rightarrow>
          if length val > 1024
          then Inl (''variable string value for key '' @ [CHR 0x27] @ k @ [CHR 0x27]
                      @ '' exceeds maximum allowed length of 1024 bytes'')
          else if str_contains val nul
          then Inl (''variable string value for key '' @ [CHR 0x27] @ k @ [CHR 0x27] @ '' contains null bytes'')
          else if \<not> MatchString variableValueRegex val
          then Inl (''variable value for key '' @ [CHR 0x27] @ k @ [CHR 0x27]
                      @ '' contains disallowed control characters'')
          else Inr v
      | JArr val \<Rightarrow> map_sum id JArr (scrub_items k 0 val)
      | _ \<Rightarrow> Inr v)"

fun scrub_loop ::
  "(string \<times> json) list \<Rightarrow> (string, json) gomap \<Rightarrow> string + (string, json) gomap" where
  "scrub_loop [] scrubbedVars = Inr scrubbedVars"
| "scrub_loop ((k, v) # rest) scrubbedVars =
     (if \<not> MatchString variableKeyRegex k
      then Inl (''variable key '' @ [CHR 0x27] @ k @ [CHR 0x27] @ '' violates strict security alphanumeric rules'')
      else case scrub_value k v of
        Inl e \<Rightarrow> Inl e
      | Inr v' \<Rightarrow> scrub_loop rest (gm_put scrubbedVars k v'))"

definition scrubInput ::
  "string \<Rightarrow> (string, json) gomap \<Rightarrow> string + (string \<times> (string, json) gomap)" where
  "scrubInput script variables =
     (if str_contains script nul then Inl ''script contains dangerous null byte characters''
      else case scrub_loop variables [] of
        Inl e \<Rightarrow> Inl e
      | Inr scrubbedVars \<Rightarrow> Inr (script, scrubbedVars))"

subsection \<open>State\<close>

type_synonym world = "KillSwitch \<times> process"

record 'pk gateway =
  gw_validator :: "'pk ProvenanceValidator"
  gw_sandbox :: SandboxManager
  gw_playgroundKey :: "(bytes \<Rightarrow> string + bytes) option"
  gw_VerifiedSignatures :: int64
  gw_ActiveSandboxes :: int64
  gw_router :: AgentRouter
  gw_memMonitor :: "MemoryIntegrityMonitor option"
  gw_egressProxy :: "EgressProxy option"
  gw_runsc :: runsc_check
  gw_ebpf :: "world ebpf"
  gw_world :: world

text \<open>\<open>agentRegistry\<close> and \<open>agentPolicy\<close> point to what the router points to; telemetry is the process's.\<close>

definition gw_registry :: "'pk gateway \<Rightarrow> AgentRegistry" where
  "gw_registry g = rt_registry (gw_router g)"

definition gw_policy :: "'pk gateway \<Rightarrow> PolicyManager" where
  "gw_policy g = rt_policy (gw_router g)"

definition gw_tel :: "'pk gateway \<Rightarrow> global_tel" where
  "gw_tel g = pr_tel (snd (gw_world g))"

definition emit :: "OCSFEvent \<Rightarrow> 'pk gateway \<Rightarrow> 'pk gateway" where
  "emit ev g = g\<lparr>gw_world := (fst (gw_world g),
     (snd (gw_world g))\<lparr>pr_tel := SubmitGlobal (pr_tel (snd (gw_world g))) ev\<rparr>)\<rparr>"

text \<open>
  What one call meets. \<open>gx_unix1\<close> and \<open>gx_unix2\<close> are the two readings of the drift check, \<open>gx_now\<close>
  the one inside \<open>Verify\<close>, \<open>gx_ms n\<close> the \<open>n\<close>-th of the event constructors.
\<close>

record 'pk gateway_env =
  gx_U :: unicode
  gx_sha256 :: "bytes \<Rightarrow> bytes"
  gx_ecdsa :: "'pk \<Rightarrow> bytes \<Rightarrow> int \<Rightarrow> int \<Rightarrow> bool"
  gx_hexText :: "hex_error \<Rightarrow> string"
  gx_asn1Text :: "der_error \<Rightarrow> string"
  gx_unix1 :: int64
  gx_unix2 :: int64
  gx_nano :: int64
  gx_now :: time
  gx_ms :: "nat \<Rightarrow> int64"
  gx_sandbox :: sandbox_env
  gx_bpf :: bpf_env
  gx_update :: "string option"
  gx_delete :: "string option"

record http_request =
  hr_Method :: string
  hr_Body :: "bytes \<times> string option"
  hr_RemoteAddr :: string

fun verify_failure_text :: "(hex_error \<Rightarrow> string) \<Rightarrow> (der_error \<Rightarrow> string) \<Rightarrow> verify_failure \<Rightarrow> string" where
  "verify_failure_text hx ax NonceRejected =
     ''nonce is invalid or has already been used within the TTL window''"
| "verify_failure_text hx ax (BadHex e) = ''failed to decode hex signature: '' @ hx e"
| "verify_failure_text hx ax (BadASN1 e) = ''failed to unmarshal ASN.1 signature: '' @ ax e"
| "verify_failure_text hx ax ExtraBytes = ''extra bytes found after ASN.1 unmarshalling''"
| "verify_failure_text hx ax NilCoordinate = ''invalid signature coordinates: R or S is nil''"
| "verify_failure_text hx ax BadSignature = ''cryptographic signature verification failed''"

subsection \<open>The sandboxed run both handlers share\<close>

text \<open>
  The hook records the pid it is called with; the state of the run is the controller and that pid,
  0 before. Afterwards the pid is removed from the registry, the error ignored.
\<close>

definition run_sandbox ::
  "'pk gateway_env \<Rightarrow> string \<Rightarrow> 'pk gateway
     \<Rightarrow> 'pk gateway \<times> int \<times> (sandbox_error + Result) \<times> effect list" where
  "run_sandbox X script g0 =
     (let g = g0\<lparr>gw_ActiveSandboxes := gw_ActiveSandboxes g0 + 1\<rparr>;
          hook = (\<lambda>pid (c, targetPID). let (c', e) = register_hook (gx_bpf X) (gx_update X) pid c in ((c', pid), e));
          out = Execute (gx_sandbox X) (gx_U X) (\<lambda>s. IsActive (fst s)) (gw_sandbox g) script (Some hook)
                  (gw_runsc g) (gw_ebpf g, 0);
          c = fst (so_state out);
          targetPID = snd (so_state out);
          c' = (if targetPID > 0 then fst (RemoveSandboxPID (gx_bpf X) (gx_delete X) targetPID c) else c);
          g' = g\<lparr>gw_ebpf := c', gw_runsc := so_runsc out, gw_ActiveSandboxes := gw_ActiveSandboxes g - 1\<rparr>
      in (g', targetPID, so_result out, so_trace out))"

subsection \<open>\<open>handleIntercept\<close>\<close>

text \<open>The answer: new state, status code, body, and what the sandbox did.\<close>

type_synonym 'pk answer = "'pk gateway \<times> nat \<times> InterceptResponse \<times> effect list"

definition answer_plain :: "nat \<Rightarrow> string \<Rightarrow> 'pk gateway \<Rightarrow> 'pk answer" where
  "answer_plain status msg g = (g, status, refusal msg, [])"

text \<open>A refusal that is reported: the event, then the answer.\<close>

definition answer_fail ::
  "'pk gateway_env \<Rightarrow> http_request \<Rightarrow> string \<Rightarrow> string \<Rightarrow> bytes \<Rightarrow> nat \<Rightarrow> string \<Rightarrow> 'pk gateway \<Rightarrow> 'pk answer" where
  "answer_fail X r agentID reason raw status msg g =
     (emit (NewValidationFailEvent (gx_ms X 0) (gx_ms X 1) agentID (hr_RemoteAddr r) reason raw) g,
      status, refusal msg, [])"

text \<open>The drift check, on \<open>int64\<close> with its wrap-around.\<close>

definition drift_exceeded :: "int64 \<Rightarrow> int64 \<Rightarrow> int64 \<Rightarrow> bool" where
  "drift_exceeded now1 now2 timestamp \<longleftrightarrow> sint (now1 - timestamp) > 600 \<or> sint (timestamp - now2) > 600"

text \<open>Steps 4 and 5, once the proof is accepted.\<close>

definition launch ::
  "'pk gateway_env \<Rightarrow> http_request \<Rightarrow> string \<Rightarrow> string \<Rightarrow> string \<Rightarrow> 'pk gateway \<Rightarrow> 'pk answer" where
  "launch X r agentID toolName script g0 =
     (let g1 = g0\<lparr>gw_VerifiedSignatures := gw_VerifiedSignatures g0 + 1\<rparr>;
          g2 = emit (NewAttestationEvent (gx_ms X 0) agentID (hr_RemoteAddr r) toolName) g1;
          g3 = emit (NewToolCallEvent (gx_ms X 1) agentID (hr_RemoteAddr r) toolName StatusUnknown
                       ''sandbox launch initiated'') g2;
          (g4, targetPID, res, tr) = run_sandbox X script g3
      in case res of
           Inl e \<Rightarrow>
             (emit (NewSandboxLaunchEvent (gx_ms X 2) agentID toolName targetPID StatusFailure
                      (sandbox_error_text e)) g4,
              500, refusal (''Sandbox execution engine failed: '' @ sandbox_error_text e), tr)
         | Inr out \<Rightarrow>
             (emit (NewSandboxLaunchEvent (gx_ms X 2) agentID toolName targetPID StatusSuccess
                      (''exit_code='' @ dec_int (res_ExitCode out))) g4,
              200, \<lparr> is_Success = True, is_Message = [], is_Output = Some out, is_PIDLocked = targetPID \<rparr>, tr))"

text \<open>Steps 2 and 3: the manifest, its nonce, its timestamp, the proof.\<close>

definition authorise ::
  "'pk gateway_env \<Rightarrow> http_request \<Rightarrow> InterceptRequest \<Rightarrow> string \<Rightarrow> string \<Rightarrow> 'pk gateway \<Rightarrow> 'pk answer" where
  "authorise X r req agentID script g =
     (case unmarshalManifest (ir_Manifest req) of
        None \<Rightarrow> answer_fail X r agentID ''invalid_manifest_json'' [] 400
                  ''Invalid inner manifest JSON structure'' g
      | Some manifest \<Rightarrow>
          if ms_Nonce manifest = []
          then answer_fail X r agentID ''empty_nonce'' [] 400 ''Manifest contains empty nonce field'' g
          else if drift_exceeded (gx_unix1 X) (gx_unix2 X) (ms_Timestamp manifest)
          then answer_fail X r agentID ''timestamp_drift_exceeded'' [] 400
                 ''Manifest timestamp has expired (> 10m drift)'' g
          else
            (case Verify (gx_sha256 X) (gx_ecdsa X) (gx_now X) (ir_Manifest req) (ir_Signature req)
                    (ms_Nonce manifest) (gw_validator g) of
               (Some e, v') \<Rightarrow>
                 (let t = verify_failure_text (gx_hexText X) (gx_asn1Text X) e in
                  answer_fail X r agentID (''signature_verification_failed: '' @ t) (ir_Manifest req) 401
                    (''Verification failed: '' @ t) (g\<lparr>gw_validator := v'\<rparr>))
             | (None, v') \<Rightarrow> launch X r agentID (ms_ToolName manifest) script (g\<lparr>gw_validator := v'\<rparr>)))"

definition handleIntercept :: "'pk gateway_env \<Rightarrow> http_request \<Rightarrow> 'pk gateway \<Rightarrow> 'pk answer" where
  "handleIntercept X r g =
     (if hr_Method r \<noteq> ''POST'' then answer_plain 405 ''Method not allowed'' g
      else case snd (hr_Body r) of
        Some _ \<Rightarrow> answer_plain 400 ''Failed to read request body'' g
      | None \<Rightarrow>
     (let bodyBytes = fst (hr_Body r) in
      case unmarshalRequest bodyBytes of
        None \<Rightarrow> answer_plain 400 ''Invalid JSON format'' g
      | Some req \<Rightarrow>
          (let effectiveAgentID = (if ir_AgentID req = [] then ''gateway'' else ir_AgentID req) in
           case scrubInput (ir_Script req) (ir_Variables req) of
             Inl e \<Rightarrow> answer_fail X r effectiveAgentID (''input_scrub_failed: '' @ e) bodyBytes 400
                        (''Scrubbing failed: '' @ e) g
           | Inr (scrubbedScript, _) \<Rightarrow> authorise X r req effectiveAgentID scrubbedScript g)))"

subsection \<open>\<open>handlePlaygroundRun\<close>\<close>

text \<open>The manifest the server makes up: \<open>json.Marshal\<close> of a map sorts its keys.\<close>

definition playground_nonce :: "int64 \<Rightarrow> string" where
  "playground_nonce nano = ''playground_nonce_'' @ dec64 nano"

definition playground_manifest :: "int64 \<Rightarrow> int64 \<Rightarrow> bytes" where
  "playground_manifest nano unix =
     json_Marshal (JObj [(''nonce'', JStr (playground_nonce nano)), (''timestamp'', JNum (sint unix)),
                         (''tool_id'', JStr ''python_interpreter''), (''tool_name'', JStr ''python_interpreter'')])"

definition handlePlaygroundRun :: "'pk gateway_env \<Rightarrow> http_request \<Rightarrow> 'pk gateway \<Rightarrow> 'pk answer" where
  "handlePlaygroundRun X r g =
     (if hr_Method r \<noteq> ''POST'' then answer_plain 405 ''Method not allowed'' g
      else case gw_playgroundKey g of
        None \<Rightarrow> answer_plain 500 ''Playground private key not loaded on server. Cannot sign manifest.'' g
      | Some sign \<Rightarrow>
     (case decodeScript (hr_Body r) of
        None \<Rightarrow> answer_plain 400 ''Invalid JSON payload'' g
      | Some script \<Rightarrow>
     (let nonce = playground_nonce (gx_nano X);
          manifestBytes = playground_manifest (gx_nano X) (gx_unix1 X)
      in case sign (gx_sha256 X manifestBytes) of
           Inl e \<Rightarrow> answer_plain 500 ''Failed to sign manifest'' g
         | Inr sigBytes \<Rightarrow>
        (case scrubInput script [] of
           Inl e \<Rightarrow> answer_plain 400 (''Scrubbing failed: '' @ e) g
         | Inr (scrubbedScript, _) \<Rightarrow>
        (case Verify (gx_sha256 X) (gx_ecdsa X) (gx_now X) manifestBytes (EncodeToString sigBytes) nonce
                (gw_validator g) of
           (Some e, v') \<Rightarrow>
             answer_plain 401
               (''Verification failed: '' @ verify_failure_text (gx_hexText X) (gx_asn1Text X) e)
               (g\<lparr>gw_validator := v'\<rparr>)
         | (None, v') \<Rightarrow>
             (let (g', targetPID, res, tr) = run_sandbox X scrubbedScript
                    (g\<lparr>gw_validator := v', gw_VerifiedSignatures := gw_VerifiedSignatures g + 1\<rparr>)
              in case res of
                   Inl e \<Rightarrow> (g', 500, refusal (''Sandbox execution failed: '' @ sandbox_error_text e), tr)
                 | Inr out \<Rightarrow>
                     (g', 200, \<lparr> is_Success = True, is_Message = [], is_Output = Some out,
                                is_PIDLocked = targetPID \<rparr>, tr)))))))"

subsection \<open>\<open>handleListAgents\<close> and the telemetry handler\<close>

record agentSummary =
  as_AgentID :: string
  as_SPIFFEID :: string
  as_RegisteredAt :: string
  as_ExpiresAt :: string

text \<open>\<open>rfc3339\<close> formats a time. The count and the list of the answer, or the error.\<close>

definition handleListAgents ::
  "(time \<Rightarrow> string) \<Rightarrow> http_request \<Rightarrow> 'pk gateway \<Rightarrow> nat \<times> (string + nat \<times> agentSummary list)" where
  "handleListAgents rfc3339 r g =
     (if hr_Method r \<noteq> ''GET'' then (405, Inl ''Method not allowed'')
      else
        (let summaries = map (\<lambda>i. \<lparr> as_AgentID = ai_AgentID i, as_SPIFFEID = ai_SPIFFEID i,
                as_RegisteredAt = rfc3339 (ai_RegisteredAt i), as_ExpiresAt = rfc3339 (ai_ExpiresAt i) \<rparr>)
              (ListActive (gw_registry g))
         in (200, Inr (length summaries, summaries))))"

record TelemetryMetrics =
  tm_BlockedNetworkBreaches :: int64
  tm_BlockedFileBypasses :: int64
  tm_VerifiedSignatures :: int64
  tm_ActiveSandboxes :: int64
  tm_ActiveAgents :: int64
  tm_BlockedPtraceAttempts :: int64
  tm_BlockedMprotectWX :: int64
  tm_BlockedShellSpawns :: int64
  tm_IntegrityChecks :: int64
  tm_EgressAllowed :: int64
  tm_EgressBlocked :: int64
  tm_DLPRedactions :: int64
  tm_OCSFSubmitted :: int64
  tm_OCSFProcessed :: int64
  tm_OCSFDropped :: int64

definition telemetryHandler :: "http_request \<Rightarrow> 'pk gateway \<Rightarrow> nat \<times> (string + TelemetryMetrics)" where
  "telemetryHandler r g =
     (if hr_Method r \<noteq> ''GET'' then (405, Inl ''Method not allowed'')
      else
        (let (ocsfSubmitted, ocsfProcessed, ocsfDropped) =
               (case gt_engine (gw_tel g) of None \<Rightarrow> (0, 0, 0) | Some e \<Rightarrow> engine_Metrics e);
             (memChecks, memTampered) = (case gw_memMonitor g of None \<Rightarrow> (0, 0) | Some m \<Rightarrow> monitor_Metrics m);
             (egressAllowed, egressBlocked, dlpRedactions) =
               (case gw_egressProxy g of None \<Rightarrow> (0, 0, 0) | Some p \<Rightarrow> proxy_Metrics p);
             c = gw_ebpf g
         in (200, Inr
              \<lparr> tm_BlockedNetworkBreaches = kc_BlockedNetworkBreaches c,
                tm_BlockedFileBypasses = kc_BlockedFileBypasses c,
                tm_VerifiedSignatures = gw_VerifiedSignatures g,
                tm_ActiveSandboxes = gw_ActiveSandboxes g,
                tm_ActiveAgents = of_nat (Count (gw_registry g)),
                tm_BlockedPtraceAttempts = kc_BlockedPtraceAttempts c,
                tm_BlockedMprotectWX = kc_BlockedMprotectWX c,
                tm_BlockedShellSpawns = kc_BlockedShellSpawns c,
                tm_IntegrityChecks = memChecks,
                tm_EgressAllowed = egressAllowed, tm_EgressBlocked = egressBlocked,
                tm_DLPRedactions = dlpRedactions,
                tm_OCSFSubmitted = ocsfSubmitted, tm_OCSFProcessed = ocsfProcessed,
                tm_OCSFDropped = ocsfDropped \<rparr>)))"


subsection \<open>Lemmas: scrubbing\<close>

definition clean_key :: "string \<Rightarrow> bool" where
  "clean_key k \<longleftrightarrow> 1 \<le> length k \<and> length k \<le> 64
     \<and> (\<forall>c \<in> set k. (97 \<le> byte_val c \<and> byte_val c \<le> 122) \<or> (65 \<le> byte_val c \<and> byte_val c \<le> 90)
          \<or> is_dec c \<or> c = CHR ''_'' \<or> c = CHR ''-'')"

definition clean_text :: "string \<Rightarrow> bool" where
  "clean_text s \<longleftrightarrow> length s \<le> 1024
     \<and> (\<forall>c \<in> set s. (32 \<le> byte_val c \<and> byte_val c \<le> 126) \<or> byte_val c \<in> {9, 10, 13})"

text \<open>What is checked of a value: itself when it is a string, the strings that are its elements.\<close>

fun checked_texts :: "json \<Rightarrow> string list" where
  "checked_texts (JStr s) = [s]"
| "checked_texts (JArr xs) = List.map_filter (\<lambda>x. case x of JStr s \<Rightarrow> Some s | _ \<Rightarrow> None) xs"
| "checked_texts _ = []"

lemma key_regex: "MatchString variableKeyRegex k \<longleftrightarrow> clean_key k"
proof -
  have ch: "byte_val c = n \<Longrightarrow> c = char_of n" for c n
    by (metis char_of_char)
  have "byte_val c = 95 \<longleftrightarrow> c = CHR ''_''" "byte_val c = 45 \<longleftrightarrow> c = CHR ''-''" for c
    using ch [of c 95] ch [of c 45] by (auto simp: char_of_eq_iff take_bit_eq_mod)
  moreover have "in_cls cls_key n \<longleftrightarrow> (97 \<le> n \<and> n \<le> 122) \<or> (65 \<le> n \<and> n \<le> 90)
      \<or> (48 \<le> n \<and> n \<le> 57) \<or> n = 95 \<or> n = 45" for n
    by (auto simp: in_cls_def cls_key_def dest: order.antisym)
  ultimately have "in_cls cls_key (byte_val c) \<longleftrightarrow>
      (97 \<le> byte_val c \<and> byte_val c \<le> 122) \<or> (65 \<le> byte_val c \<and> byte_val c \<le> 90)
          \<or> is_dec c \<or> c = CHR ''_'' \<or> c = CHR ''-''" for c
    by (simp add: is_dec_def)
  moreover have "\<forall>(a, b) \<in> set cls_key. b < 128" by (simp add: cls_key_def)
  ultimately show ?thesis
    by (simp add: variableKeyRegex_def MatchString_anchored clean_key_def conj_ac)
qed

lemma value_regex:
  "MatchString variableValueRegex s \<longleftrightarrow>
     (\<forall>c \<in> set s. (32 \<le> byte_val c \<and> byte_val c \<le> 126) \<or> byte_val c \<in> {9, 10, 13})"
proof -
  have "in_cls cls_value n \<longleftrightarrow> (32 \<le> n \<and> n \<le> 126) \<or> n \<in> {9, 10, 13}" for n
    by (auto simp: in_cls_def cls_value_def dest: order.antisym)
  moreover have "\<forall>(a, b) \<in> set cls_value. b < 128" by (simp add: cls_value_def)
  ultimately show ?thesis
    by (simp add: variableValueRegex_def MatchString_anchored)
qed

lemma clean_text_no_nul: "clean_text s \<Longrightarrow> \<not> str_contains s nul"
  by (auto simp: clean_text_def nul_def str_contains_char)

lemma text_checks:
  "\<not> length s > 1024 \<and> \<not> str_contains s nul \<and> MatchString variableValueRegex s \<longleftrightarrow> clean_text s"
  using clean_text_no_nul [of s] by (auto simp: value_regex clean_text_def)

lemma scrub_items_spec:
  "(case scrub_items k i xs of
      Inl e \<Rightarrow> \<not> (\<forall>s \<in> set (checked_texts (JArr xs)). clean_text s)
    | Inr ys \<Rightarrow> ys = xs \<and> (\<forall>s \<in> set (checked_texts (JArr xs)). clean_text s))"
proof (induction xs arbitrary: i)
  case Nil
  then show ?case by (simp add: List.map_filter_def)
next
  case (Cons x xs)
  show ?case
    using Cons.IH [where i = "Suc i"] text_checks
    by (cases x; cases "scrub_items k (Suc i) xs") (auto simp: List.map_filter_def)
qed


lemma scrub_value_spec:
  "(case scrub_value k v of
      Inl e \<Rightarrow> \<not> (\<forall>s \<in> set (checked_texts v). clean_text s)
    | Inr v' \<Rightarrow> v' = v \<and> (\<forall>s \<in> set (checked_texts v). clean_text s))"
proof (cases v)
  case (JStr s)
  then show ?thesis using text_checks [of s] by (auto simp: scrub_value_def)
next
  case (JArr xs)
  then show ?thesis
    using scrub_items_spec [where k = k and i = 0 and xs = xs]
    by (cases "scrub_items k 0 xs") (simp_all add: scrub_value_def del: checked_texts.simps)
qed (simp_all add: scrub_value_def)

definition clean_variable :: "string \<times> json \<Rightarrow> bool" where
  "clean_variable kv \<longleftrightarrow> clean_key (fst kv) \<and> (\<forall>s \<in> set (checked_texts (snd kv)). clean_text s)"

lemma gm_put_new: "k \<notin> fst ` set m \<Longrightarrow> gm_put m k v = m @ [(k, v)]"
  by (induction m) (auto simp: gm_put_def)

lemma scrub_loop_spec:
  "gm_wf (done_vars @ vs) \<Longrightarrow>
   (case scrub_loop vs done_vars of
      Inl e \<Rightarrow> \<not> (\<forall>kv \<in> set vs. clean_variable kv)
    | Inr m \<Rightarrow> m = done_vars @ vs \<and> (\<forall>kv \<in> set vs. clean_variable kv))"
proof (induction vs arbitrary: done_vars)
  case Nil
  then show ?case by simp
next
  case (Cons kv vs)
  obtain k v where kv: "kv = (k, v)" by (cases kv)
  have new: "gm_put done_vars k v = done_vars @ [kv]"
    using Cons.prems by (simp add: kv gm_put_new gm_wf_def image_iff)
  have "gm_wf ((done_vars @ [kv]) @ vs)" using Cons.prems by simp
  note ih = Cons.IH [OF this]
  show ?case
  proof (cases "scrub_value k v")
    case (Inl e)
    then show ?thesis
      using scrub_value_spec [where k = k and v = v] by (auto simp: kv key_regex clean_variable_def)
  next
    case (Inr v')
    then have "v' = v" "\<forall>s \<in> set (checked_texts v). clean_text s"
      using scrub_value_spec [where k = k and v = v] by simp_all
    then show ?thesis
      using ih Inr by (cases "scrub_loop vs (done_vars @ [kv])")
        (auto simp: kv key_regex clean_variable_def new [unfolded kv])
  qed
qed

lemma scrubInput_script:
  "scrubInput script vs = Inr (s, m) \<Longrightarrow> s = script \<and> \<not> str_contains script nul"
  by (auto simp: scrubInput_def split: if_splits sum.splits)

lemma scrubInput_no_variables:
  "scrubInput script [] =
     (if str_contains script nul then Inl ''script contains dangerous null byte characters'' else Inr (script, []))"
  by (simp add: scrubInput_def)

subsection \<open>Property: scrubbing\<close>

text \<open>
  C33: what \<open>scrubInput\<close> lets through. For variables with distinct names, in whatever order the map is
  ranged over, it succeeds exactly when the script has no NUL byte, every name is 1 to 64 letters,
  digits, underscores and hyphens, and every value that is a string, and every string that is an
  element of an array value, has at most 1024 bytes, all printable ASCII, tab, newline or carriage
  return. What it returns is then its input, unchanged. Strings nested any deeper are not looked at,
  although the comment says the check is recursive.
\<close>

theorem scrub_input_iff:
  assumes "gm_wf variables"
  shows "(case scrubInput script variables of
      Inl e \<Rightarrow> CHR 0x00 \<in> set script \<or> (\<exists>kv \<in> set variables. \<not> clean_variable kv)
    | Inr out \<Rightarrow> out = (script, variables) \<and> CHR 0x00 \<notin> set script \<and> (\<forall>kv \<in> set variables. clean_variable kv))"
  using scrub_loop_spec [of "[]" variables] assms
  by (cases "scrub_loop variables []") (auto simp: scrubInput_def nul_def str_contains_char)

theorem scrub_input_iff_witness:
  "scrubInput ''x'' [(''a_1'', JArr [JArr [JStr [CHR 0x00]]])] = Inr (''x'', [(''a_1'', JArr [JArr [JStr [CHR 0x00]]])])
   \<and> (\<exists>e. scrubInput ''x'' [(''a_1'', JArr [JStr [CHR 0x00]])] = Inl e)"
proof -
  let ?v = "[(''a_1'', JArr [JArr [JStr [CHR 0x00]]])]" and ?w = "[(''a_1'', JArr [JStr [CHR 0x00]])]"
  have "gm_wf ?v" "gm_wf ?w" by (simp_all add: gm_wf_def)
  note s = scrub_input_iff [OF this(1), of "''x''"] scrub_input_iff [OF this(2), of "''x''"]
  have "\<forall>kv \<in> set ?v. clean_variable kv" "\<exists>kv \<in> set ?w. \<not> clean_variable kv"
    by (simp_all add: clean_variable_def clean_key_def clean_text_def is_dec_def List.map_filter_def)
  with s show ?thesis
    by (cases "scrubInput ''x'' ?v"; cases "scrubInput ''x'' ?w") (simp_all del: split_paired_Ex)
qed


subsection \<open>Property: the drift window\<close>

text \<open>
  C32: which timestamps pass the drift check. With one clock reading between 1970 and the year
  292 billion or so, the check passes exactly for the timestamps at most 600 seconds away, both ends
  included, and for one more: the difference to \<open>now - 2 ^ 63\<close> overflows to the smallest \<open>int64\<close> in
  both directions.
\<close>

theorem drift_window:
  assumes "0 \<le> sint now" and "sint now < 2 ^ 62"
  shows "drift_exceeded now now timestamp \<longleftrightarrow>
     600 < \<bar>sint timestamp - sint now\<bar> \<and> sint timestamp \<noteq> sint now - 2 ^ 63"
proof -
  let ?x = "sint now - sint timestamp"
  have r: "- (2 ^ 63) \<le> sint timestamp" "sint timestamp < 2 ^ 63"
    using sint_ge [of timestamp] sint_less [of timestamp] by simp_all
  have wrap: "signed_take_bit 63 (a :: int) = (a + 2 ^ 63) mod 2 ^ 64 - 2 ^ 63" for a
    by (simp add: signed_take_bit_eq_take_bit_shift take_bit_eq_mod)
  have d: "sint (now - timestamp) = (?x + 2 ^ 63) mod 2 ^ 64 - 2 ^ 63"
    "sint (timestamp - now) = (- ?x + 2 ^ 63) mod 2 ^ 64 - 2 ^ 63"
    using wrap by (simp_all add: sint_word_ariths)
  show ?thesis
  proof (cases "?x < 2 ^ 63")
    case True
    then have "sint (now - timestamp) = ?x" "sint (timestamp - now) = - ?x"
      using r assms unfolding d by (simp_all add: mod_pos_pos_trivial)
    then show ?thesis using r assms True by (auto simp: drift_exceeded_def)
  next
    case False
    have "(?x + 2 ^ 63) mod 2 ^ 64 = ?x - 2 ^ 63"
      using mod_pos_pos_trivial [of "?x - 2 ^ 63" "2 ^ 64"] mod_add_self2 [of "?x - 2 ^ 63" "2 ^ 64"] False r assms
      by (simp add: algebra_simps)
    then have a: "sint (now - timestamp) \<le> 0" using r assms unfolding d by simp
    show ?thesis
    proof (cases "?x = 2 ^ 63")
      case True
      then have "sint (timestamp - now) = - (2 ^ 63)" unfolding d by simp
      with a True show ?thesis by (auto simp: drift_exceeded_def)
    next
      case f: False
      have "(- ?x + 2 ^ 63) mod 2 ^ 64 = - ?x + 2 ^ 63 + 2 ^ 64"
        using mod_pos_pos_trivial [of "- ?x + 2 ^ 63 + 2 ^ 64" "2 ^ 64"]
          mod_add_self2 [of "- ?x + 2 ^ 63" "2 ^ 64"] False f r assms
        by (simp add: algebra_simps)
      then have "sint (timestamp - now) = - ?x + 2 ^ 64" unfolding d by simp
      with r assms False f show ?thesis by (auto simp: drift_exceeded_def)
    qed
  qed
qed

theorem drift_window_witness:
  "\<not> drift_exceeded 1000 1000 400 \<and> drift_exceeded 1000 1000 399 \<and> \<not> drift_exceeded 1000 1000 1600
   \<and> \<not> drift_exceeded 1000 1000 (word_of_int (1000 - 2 ^ 63))"
proof -
  have n: "0 \<le> sint (1000 :: int64)" "sint (1000 :: int64) < 2 ^ 62" by simp_all
  have "sint (word_of_int (1000 - 2 ^ 63) :: int64) = 1000 - 2 ^ 63" by simp
  then show ?thesis
    using drift_window [OF n, of 400] drift_window [OF n, of 399] drift_window [OF n, of 1600]
      drift_window [OF n, of "word_of_int (1000 - 2 ^ 63)"] by simp
qed


subsection \<open>Lemmas: the two handlers\<close>

lemma emit_simps [simp]:
  "gw_validator (emit ev g) = gw_validator g"
  "gw_sandbox (emit ev g) = gw_sandbox g"
  "gw_VerifiedSignatures (emit ev g) = gw_VerifiedSignatures g"
  "gw_ActiveSandboxes (emit ev g) = gw_ActiveSandboxes g"
  "gw_runsc (emit ev g) = gw_runsc g"
  "gw_ebpf (emit ev g) = gw_ebpf g"
  "gw_tel (emit ev g) = SubmitGlobal (gw_tel g) ev"
  by (simp_all add: emit_def gw_tel_def)

definition sandbox_run :: "'pk gateway_env \<Rightarrow> string \<Rightarrow> 'pk gateway \<Rightarrow> (world ebpf \<times> int) sandbox_outcome" where
  "sandbox_run X script g =
     Execute (gx_sandbox X) (gx_U X) (\<lambda>s. IsActive (fst s)) (gw_sandbox g) script
       (Some (\<lambda>pid (c, targetPID). let (c', e) = register_hook (gx_bpf X) (gx_update X) pid c in ((c', pid), e)))
       (gw_runsc g) (gw_ebpf g, 0)"

definition after_run :: "'pk gateway_env \<Rightarrow> (world ebpf \<times> int) sandbox_outcome \<Rightarrow> world ebpf" where
  "after_run X out =
     (if snd (so_state out) > 0
      then fst (RemoveSandboxPID (gx_bpf X) (gx_delete X) (snd (so_state out)) (fst (so_state out)))
      else fst (so_state out))"

lemma run_sandbox_frame:
  assumes "run_sandbox X script g = (g', pid, res, tr)"
  shows "gw_validator g' = gw_validator g" "gw_VerifiedSignatures g' = gw_VerifiedSignatures g"
    "gw_ActiveSandboxes g' = gw_ActiveSandboxes g" "gw_world g' = gw_world g"
    "tr = so_trace (sandbox_run X script g)" "res = so_result (sandbox_run X script g)"
    "pid = snd (so_state (sandbox_run X script g))"
    "gw_ebpf g' = after_run X (sandbox_run X script g)"
  using assms unfolding run_sandbox_def sandbox_run_def Let_def after_run_def by auto

lemma Execute_scripts:
  assumes "WriteScript p c n \<in> set (so_trace (Execute X U active sm code hook rc s))"
  shows "c = code"
proof -
  have prep: "WriteScript p c n \<in> set (fst (prepare_scratch X dir code)) \<Longrightarrow> c = code" for dir
    by (auto simp: prepare_scratch_def Let_def split: option.splits)
  have wait: "WriteScript p c n \<notin> set (fst (wait_container X cid))" for cid
    by (simp add: wait_container_def Let_def)
  have sup: "WriteScript p c n \<notin> set (fst (supervise X U hook cid s))" for cid
    using wait [of cid] by (auto simp: supervise_def Let_def case_prod_beta split: option.splits)
  show ?thesis
    using assms prep sup unfolding Execute_def fails_def Let_def case_prod_beta
    by (auto split: sum.splits option.splits if_splits)
qed

lemma sandbox_run_scripts:
  "WriteScript p c n \<in> set (so_trace (sandbox_run X script g)) \<Longrightarrow> c = script"
  unfolding sandbox_run_def by (rule Execute_scripts)

text \<open>A launch: the counter, the gauge, the three events, the answer.\<close>

lemma launch_spec:
  assumes "launch X r agentID tool script g = (g', status, resp, tr)"
  shows "\<exists>pid state msg.
      gw_VerifiedSignatures g' = gw_VerifiedSignatures g + 1
    \<and> gw_ActiveSandboxes g' = gw_ActiveSandboxes g
    \<and> gw_validator g' = gw_validator g
    \<and> gw_tel g' = fold (\<lambda>e t. SubmitGlobal t e)
        [NewAttestationEvent (gx_ms X 0) agentID (hr_RemoteAddr r) tool,
         NewToolCallEvent (gx_ms X 1) agentID (hr_RemoteAddr r) tool StatusUnknown ''sandbox launch initiated'',
         NewSandboxLaunchEvent (gx_ms X 2) agentID tool pid state msg] (gw_tel g)
    \<and> (status = 200 \<and> state = StatusSuccess \<and> is_Success resp \<or> status = 500 \<and> state = StatusFailure \<and> \<not> is_Success resp)
    \<and> tr = so_trace (sandbox_run X script g) \<and> pid = snd (so_state (sandbox_run X script g))
    \<and> gw_ebpf g' = after_run X (sandbox_run X script g)"
proof -
  let ?g3 = "emit (NewToolCallEvent (gx_ms X 1) agentID (hr_RemoteAddr r) tool StatusUnknown ''sandbox launch initiated'')
     (emit (NewAttestationEvent (gx_ms X 0) agentID (hr_RemoteAddr r) tool)
       (g\<lparr>gw_VerifiedSignatures := gw_VerifiedSignatures g + 1\<rparr>))"
  obtain g4 pid res tr' where run: "run_sandbox X script ?g3 = (g4, pid, res, tr')"
    by (cases "run_sandbox X script ?g3")
  note f = run_sandbox_frame [OF run]
  have t: "gw_tel g4 = gw_tel ?g3" using f(4) by (simp add: gw_tel_def)
  have s: "sandbox_run X script ?g3 = sandbox_run X script g" by (simp add: sandbox_run_def)
  have g: "gw_tel (g\<lparr>gw_VerifiedSignatures := n\<rparr>) = gw_tel g" for n by (simp add: gw_tel_def)
  show ?thesis
  proof (cases res)
    case (Inl e)
    then have "g' = emit (NewSandboxLaunchEvent (gx_ms X 2) agentID tool pid StatusFailure (sandbox_error_text e)) g4"
      "status = 500" "\<not> is_Success resp" "tr = tr'"
      using assms run by (auto simp: launch_def Let_def refusal_def)
    then show ?thesis using f t s g by auto
  next
    case (Inr out)
    then have "g' = emit (NewSandboxLaunchEvent (gx_ms X 2) agentID tool pid StatusSuccess
        (''exit_code='' @ dec_int (res_ExitCode out))) g4" "status = 200" "is_Success resp" "tr = tr'"
      using assms run by (auto simp: launch_def Let_def)
    then show ?thesis using f t s g by auto
  qed
qed


text \<open>What has to hold for step 4 to be reached.\<close>

definition authorised ::
  "'pk gateway_env \<Rightarrow> http_request \<Rightarrow> 'pk gateway \<Rightarrow> InterceptRequest \<Rightarrow> ManifestStructure
     \<Rightarrow> 'pk ProvenanceValidator \<Rightarrow> bool" where
  "authorised X r g req manifest v' \<longleftrightarrow>
     hr_Method r = ''POST'' \<and> snd (hr_Body r) = None
     \<and> unmarshalRequest (fst (hr_Body r)) = Some req
     \<and> (\<exists>m. scrubInput (ir_Script req) (ir_Variables req) = Inr (ir_Script req, m))
     \<and> unmarshalManifest (ir_Manifest req) = Some manifest
     \<and> ms_Nonce manifest \<noteq> []
     \<and> \<not> drift_exceeded (gx_unix1 X) (gx_unix2 X) (ms_Timestamp manifest)
     \<and> Verify (gx_sha256 X) (gx_ecdsa X) (gx_now X) (ir_Manifest req) (ir_Signature req)
         (ms_Nonce manifest) (gw_validator g) = (None, v')"

definition agent_of :: "InterceptRequest \<Rightarrow> string" where
  "agent_of req = (if ir_AgentID req = [] then ''gateway'' else ir_AgentID req)"

lemma intercept_launches:
  "authorised X r g req manifest v' \<Longrightarrow>
     handleIntercept X r g =
       launch X r (agent_of req) (ms_ToolName manifest) (ir_Script req) (g\<lparr>gw_validator := v'\<rparr>)"
  by (auto simp: authorised_def handleIntercept_def authorise_def Let_def agent_of_def)

text \<open>The request could be read: from here on a refusal is reported.\<close>

definition readable :: "http_request \<Rightarrow> bool" where
  "readable r \<longleftrightarrow> hr_Method r = ''POST'' \<and> snd (hr_Body r) = None
     \<and> unmarshalRequest (fst (hr_Body r)) \<noteq> None"

lemma intercept_unreadable:
  "\<not> readable r \<Longrightarrow> \<exists>status msg. handleIntercept X r g = (g, status, refusal msg, [])
     \<and> status = (if hr_Method r \<noteq> ''POST'' then 405 else 400)"
  by (auto simp: readable_def handleIntercept_def answer_plain_def Let_def split: option.splits)

lemma authorise_refuses:
  assumes "\<not> (\<exists>manifest v'. unmarshalManifest (ir_Manifest req) = Some manifest
     \<and> ms_Nonce manifest \<noteq> []
     \<and> \<not> drift_exceeded (gx_unix1 X) (gx_unix2 X) (ms_Timestamp manifest)
     \<and> Verify (gx_sha256 X) (gx_ecdsa X) (gx_now X) (ir_Manifest req) (ir_Signature req)
         (ms_Nonce manifest) (gw_validator g) = (None, v'))"
  shows "\<exists>reason raw v' status msg.
       authorise X r req agentID script g = answer_fail X r agentID reason raw status msg (g\<lparr>gw_validator := v'\<rparr>)
     \<and> (status = 400 \<and> v' = gw_validator g
        \<or> status = 401 \<and> (\<exists>manifest e. unmarshalManifest (ir_Manifest req) = Some manifest
            \<and> ms_Nonce manifest \<noteq> []
            \<and> Verify (gx_sha256 X) (gx_ecdsa X) (gx_now X) (ir_Manifest req) (ir_Signature req)
                (ms_Nonce manifest) (gw_validator g) = (Some e, v')))"
proof -
  show ?thesis
  proof (cases "unmarshalManifest (ir_Manifest req)")
    case None
    then show ?thesis unfolding authorise_def by (auto intro!: exI [of _ "gw_validator g"])
  next
    case (Some manifest)
    obtain e v' where v: "Verify (gx_sha256 X) (gx_ecdsa X) (gx_now X) (ir_Manifest req) (ir_Signature req)
         (ms_Nonce manifest) (gw_validator g) = (e, v')" by fastforce
    consider "ms_Nonce manifest = []" | "drift_exceeded (gx_unix1 X) (gx_unix2 X) (ms_Timestamp manifest)"
      | f where "ms_Nonce manifest \<noteq> []" "\<not> drift_exceeded (gx_unix1 X) (gx_unix2 X) (ms_Timestamp manifest)" "e = Some f"
      using assms Some v by (cases e) auto
    then show ?thesis
    proof cases
      case 1
      then show ?thesis unfolding authorise_def using Some by (auto intro!: exI [of _ "gw_validator g"])
    next
      case 2
      then have "\<exists>reason msg. authorise X r req agentID script g =
          answer_fail X r agentID reason [] 400 msg (g\<lparr>gw_validator := gw_validator g\<rparr>)"
        using Some by (cases "ms_Nonce manifest = []") (auto simp: authorise_def)
      then show ?thesis by blast
    next
      case 3
      then have "authorise X r req agentID script g = answer_fail X r agentID
          (''signature_verification_failed: '' @ verify_failure_text (gx_hexText X) (gx_asn1Text X) f)
          (ir_Manifest req) 401 (''Verification failed: '' @ verify_failure_text (gx_hexText X) (gx_asn1Text X) f)
          (g\<lparr>gw_validator := v'\<rparr>)"
        using Some v by (simp add: authorise_def Let_def)
      then show ?thesis using 3 Some v by blast
    qed
  qed
qed

text \<open>Every refusal of a readable request is one validation failure event.\<close>

lemma intercept_refuses:
  assumes "readable r" and "\<not> (\<exists>req manifest v'. authorised X r g req manifest v')"
  shows "\<exists>req reason raw v' status msg.
       unmarshalRequest (fst (hr_Body r)) = Some req
     \<and> handleIntercept X r g = answer_fail X r (agent_of req) reason raw status msg (g\<lparr>gw_validator := v'\<rparr>)
     \<and> (status = 400 \<and> v' = gw_validator g
        \<or> status = 401 \<and> (\<exists>manifest e. unmarshalManifest (ir_Manifest req) = Some manifest
            \<and> ms_Nonce manifest \<noteq> []
            \<and> Verify (gx_sha256 X) (gx_ecdsa X) (gx_now X) (ir_Manifest req) (ir_Signature req)
                (ms_Nonce manifest) (gw_validator g) = (Some e, v')))"
proof -
  obtain req where r: "hr_Method r = ''POST''" "snd (hr_Body r) = None"
    "unmarshalRequest (fst (hr_Body r)) = Some req"
    using assms(1) by (auto simp: readable_def)
  show ?thesis
  proof (cases "scrubInput (ir_Script req) (ir_Variables req)")
    case (Inl e)
    then have "handleIntercept X r g = answer_fail X r (agent_of req) (''input_scrub_failed: '' @ e)
        (fst (hr_Body r)) 400 (''Scrubbing failed: '' @ e) (g\<lparr>gw_validator := gw_validator g\<rparr>)"
      using r by (simp add: handleIntercept_def Let_def agent_of_def)
    then show ?thesis using r(3) by blast
  next
    case (Inr out)
    then obtain m where m: "scrubInput (ir_Script req) (ir_Variables req) = Inr (ir_Script req, m)"
      by (cases out) (auto dest: scrubInput_script)
    then have h: "handleIntercept X r g = authorise X r req (agent_of req) (ir_Script req) g"
      using r by (simp add: handleIntercept_def Let_def agent_of_def)
    have "\<not> (\<exists>manifest v'. unmarshalManifest (ir_Manifest req) = Some manifest
     \<and> ms_Nonce manifest \<noteq> []
     \<and> \<not> drift_exceeded (gx_unix1 X) (gx_unix2 X) (ms_Timestamp manifest)
     \<and> Verify (gx_sha256 X) (gx_ecdsa X) (gx_now X) (ir_Manifest req) (ir_Signature req)
         (ms_Nonce manifest) (gw_validator g) = (None, v'))"
      using assms(2) r m unfolding authorised_def by blast
    from authorise_refuses [OF this, of r "agent_of req" "ir_Script req"] r(3) h show ?thesis by metis
  qed
qed


lemma Verify_accepts:
  assumes "Verify h ecdsa t m s n v = (None, v')"
  shows "n \<noteq> []" "\<not> nonce_live t n (pv_nonceCache v)"
    "\<exists>bs x y. DecodeString s = Inr bs \<and> asn1_Unmarshal bs = Inr (\<lparr> es_R = Some x, es_S = Some y \<rparr>, [])
       \<and> ecdsa (pv_pubKey v) (h m) x y"
proof -
  have f: "fst (nonce_Register t n (pv_nonceCache v))"
    using Verify_rejected_iff [of h ecdsa t m s n v] assms by simp
  then show "n \<noteq> []" "\<not> nonce_live t n (pv_nonceCache v)" by (simp_all add: Register_fresh_iff)
  have "check_signature h ecdsa (pv_pubKey v) m s = None"
    using Verify_fresh [OF f, of h ecdsa m s] assms by simp
  then show "\<exists>bs x y. DecodeString s = Inr bs \<and> asn1_Unmarshal bs = Inr (\<lparr> es_R = Some x, es_S = Some y \<rparr>, [])
       \<and> ecdsa (pv_pubKey v) (h m) x y"
    by (simp add: check_signature_None_iff)
qed

text \<open>The text of a clean request for the tool \<open>t\<close>, dated 1000, as a client would marshal it.\<close>

definition demo_manifest :: bytes where
  "demo_manifest = json_Marshal (JObj [(''nonce'', JStr ''n''), (''timestamp'', JNum 1000), (''tool_name'', JStr ''t'')])"

definition demo_intercept :: InterceptRequest where
  "demo_intercept = \<lparr> ir_Script = ''print(1)'', ir_Variables = [], ir_Manifest = demo_manifest,
     ir_Signature = ''3006020101020101'', ir_AgentID = [] \<rparr>"

definition demo_body :: bytes where
  "demo_body = json_Marshal (JObj [(''manifest'', JStr demo_manifest), (''script'', JStr ''print(1)''),
                                   (''signature'', JStr ''3006020101020101'')])"

definition demo_genv :: "unit gateway_env" where
  "demo_genv =
     \<lparr> gx_U = demo_unicode, gx_sha256 = (\<lambda>m. m), gx_ecdsa = (\<lambda>pk d r s. True), gx_hexText = (\<lambda>e. []),
       gx_asn1Text = (\<lambda>e. []), gx_unix1 = 1000, gx_unix2 = 1000, gx_nano = 7,
       gx_now = 1000 * second, gx_ms = (\<lambda>n. 0), gx_sandbox = demo_sandbox, gx_bpf = demo_bpf,
       gx_update = None, gx_delete = None \<rparr>"

definition demo_post :: http_request where
  "demo_post = \<lparr> hr_Method = ''POST'', hr_Body = (demo_body, None), hr_RemoteAddr = ''a'' \<rparr>"

text \<open>The field names tell each other apart.\<close>

lemma field_keys:
  "\<not> same_key ''script'' ''manifest''" "\<not> same_key ''variables'' ''manifest''"
  "\<not> same_key ''script'' ''signature''" "\<not> same_key ''variables'' ''signature''" "\<not> same_key ''manifest'' ''signature''"
  "\<not> same_key ''script'' ''variables''"
  "\<not> same_key ''tool_name'' ''nonce''" "\<not> same_key ''tool_name'' ''timestamp''" "\<not> same_key ''nonce'' ''timestamp''"
  "\<not> same_key ''tool_name'' ''tool_id''" "\<not> same_key ''nonce'' ''tool_id''" "\<not> same_key ''timestamp'' ''tool_id''"
  by (simp_all add: same_key_ascii fold_rune_def)

lemma unmarshalManifest_printed:
  assumes "ascii_text n" and "ascii_text t"
  shows "unmarshalManifest (json_Marshal (JObj [(''nonce'', JStr n), (''timestamp'', JNum (sint ts)), (''tool_name'', JStr t)]))
     = Some \<lparr> ms_ToolName = t, ms_Nonce = n, ms_Timestamp = ts \<rparr>"
proof -
  have "Atoi (dec_int (sint ts)) = Some (sint ts)"
    using sint_ge [of ts] sint_less [of ts] by (intro Atoi_dec_int) simp_all
  then show ?thesis
    using assms by (simp add: unmarshalManifest_def json_parse_Marshal max_depth_def to_struct_def store_manifest_def
        field_keys set_string_def set_int64_def)
qed

lemma demo_decodes:
  "unmarshalRequest demo_body = Some demo_intercept"
  "unmarshalManifest demo_manifest = Some \<lparr> ms_ToolName = ''t'', ms_Nonce = ''n'', ms_Timestamp = 1000 \<rparr>"
  "decodeScript (demo_body, e) = Some ''print(1)''"
proof -
  have m: "ascii_text demo_manifest" by (simp add: demo_manifest_def ascii_Marshal)
  let ?j = "JObj [(''manifest'', JStr demo_manifest), (''script'', JStr ''print(1)''),
                  (''signature'', JStr ''3006020101020101'')]"
  have p: "plain ?j" "json_depth ?j \<le> max_depth" using m by (simp_all add: max_depth_def)
  show "unmarshalRequest demo_body = Some demo_intercept"
    using json_parse_Marshal [OF p]
    by (simp add: unmarshalRequest_def demo_body_def to_struct_def store_request_def field_keys set_string_def
        demo_intercept_def)
  show "unmarshalManifest demo_manifest = Some \<lparr> ms_ToolName = ''t'', ms_Nonce = ''n'', ms_Timestamp = 1000 \<rparr>"
    using unmarshalManifest_printed [of "''n''" "''t''" 1000] by (simp add: demo_manifest_def)
  show "decodeScript (demo_body, e) = Some ''print(1)''"
    using json_read_printed [where nl = "\<lambda>k. []" and sep = "[]" and j = ?j and r = "[]"] p
    by (simp add: decodeScript_def json_decode_stream_def demo_body_def json_Marshal_def blank_def ends_number_def
        to_struct_def field_keys set_string_def)
qed

definition armed :: "unit gateway \<Rightarrow> unit gateway" where
  "armed g = g\<lparr>gw_validator := demo_validator, gw_sandbox := NewSandboxManager [], gw_runsc := runsc_start,
     gw_ebpf := fst (InitNativeController demo_bpf ebpf_start)\<rparr>"

lemma demo_authorised:
  "\<exists>v'. authorised demo_genv demo_post (armed g) demo_intercept
     \<lparr> ms_ToolName = ''t'', ms_Nonce = ''n'', ms_Timestamp = 1000 \<rparr> v'"
proof -
  obtain v' where "Verify (\<lambda>m. m) (\<lambda>pk d r s. True) (1000 * second) demo_manifest ''3006020101020101'' ''n'' demo_validator = (None, v')"
    using demo_verifies [of "\<lambda>m. m" "1000 * second" demo_manifest] by (metis prod.collapse)
  then show ?thesis
    by (auto simp: authorised_def demo_genv_def demo_post_def armed_def demo_decodes demo_intercept_def
        scrubInput_no_variables str_contains_char nul_def drift_exceeded_def)
qed

subsection \<open>Property: only verified requests run\<close>

text \<open>
  C1: nothing runs without a proof. Whenever \<open>handleIntercept\<close> touches the sandbox at all, or answers
  with success, the request was a POST whose script has no NUL byte and whose variables were scrubbed,
  its manifest carried a non-empty nonce that was not live in the cache and a timestamp inside the
  drift window, and its signature was one complete DER sequence of two integers that ECDSA accepts for
  the SHA-256 of the manifest. Every script written to the sandbox is then the request's own; the
  manifest that was signed does not mention it.
\<close>

theorem intercept_executes_only_verified:
  assumes "handleIntercept X r g = (g', status, resp, tr)" and "tr \<noteq> [] \<or> is_Success resp"
  shows "\<exists>req manifest. hr_Method r = ''POST'' \<and> snd (hr_Body r) = None
     \<and> unmarshalRequest (fst (hr_Body r)) = Some req
     \<and> unmarshalManifest (ir_Manifest req) = Some manifest
     \<and> CHR 0x00 \<notin> set (ir_Script req)
     \<and> (\<exists>m. scrubInput (ir_Script req) (ir_Variables req) = Inr (ir_Script req, m))
     \<and> ms_Nonce manifest \<noteq> []
     \<and> \<not> nonce_live (gx_now X) (ms_Nonce manifest) (pv_nonceCache (gw_validator g))
     \<and> \<not> drift_exceeded (gx_unix1 X) (gx_unix2 X) (ms_Timestamp manifest)
     \<and> (\<exists>bs x y. DecodeString (ir_Signature req) = Inr bs
          \<and> asn1_Unmarshal bs = Inr (\<lparr> es_R = Some x, es_S = Some y \<rparr>, [])
          \<and> gx_ecdsa X (pv_pubKey (gw_validator g)) (gx_sha256 X (ir_Manifest req)) x y)
     \<and> (\<forall>p c n. WriteScript p c n \<in> set tr \<longrightarrow> c = ir_Script req)"
proof -
  have "readable r"
  proof (rule ccontr)
    assume "\<not> readable r"
    from intercept_unreadable [OF this, of X g] assms show False by (auto simp: refusal_def)
  qed
  moreover have "\<exists>req manifest v'. authorised X r g req manifest v'"
  proof (rule ccontr)
    assume "\<not> ?thesis"
    from intercept_refuses [OF \<open>readable r\<close> this] assms show False
      by (auto simp: answer_fail_def refusal_def)
  qed
  then obtain req manifest v' where a: "authorised X r g req manifest v'" by blast
  then have v: "Verify (gx_sha256 X) (gx_ecdsa X) (gx_now X) (ir_Manifest req) (ir_Signature req)
      (ms_Nonce manifest) (gw_validator g) = (None, v')" by (simp add: authorised_def)
  have w: "\<forall>p c n. WriteScript p c n \<in> set tr \<longrightarrow> c = ir_Script req"
    using launch_spec [OF assms(1) [unfolded intercept_launches [OF a]]] sandbox_run_scripts by metis
  have "CHR 0x00 \<notin> set (ir_Script req)"
    using a by (auto simp: authorised_def nul_def str_contains_char dest: scrubInput_script)
  with a w Verify_accepts [OF v] show ?thesis unfolding authorised_def by blast
qed


lemma Execute_touches:
  "sx_mkdirTemp X = Inr dir \<Longrightarrow> so_trace (Execute X U active sm code hook rc s) \<noteq> []"
  unfolding Execute_def fails_def Let_def case_prod_beta by (auto split: sum.splits option.splits if_splits)

lemma demo_launched:
  "\<exists>g' status resp tr. handleIntercept demo_genv demo_post (armed g) = (g', status, resp, tr) \<and> tr \<noteq> []"
proof -
  obtain v' where a: "authorised demo_genv demo_post (armed g) demo_intercept
     \<lparr> ms_ToolName = ''t'', ms_Nonce = ''n'', ms_Timestamp = 1000 \<rparr> v'" using demo_authorised by blast
  obtain g' status resp tr where h: "handleIntercept demo_genv demo_post (armed g) = (g', status, resp, tr)"
    by (metis prod_cases4)
  have "sx_mkdirTemp (gx_sandbox demo_genv) = Inr ''/tmp/s''" by (simp add: demo_genv_def demo_sandbox_def)
  then have "so_trace (sandbox_run demo_genv c g0) \<noteq> []" for c g0
    unfolding sandbox_run_def by (rule Execute_touches)
  moreover have "\<exists>c g0. tr = so_trace (sandbox_run demo_genv c g0)"
    using launch_spec [OF h [unfolded intercept_launches [OF a]]] by blast
  ultimately have "tr \<noteq> []" by metis
  with h show ?thesis by blast
qed

theorem intercept_executes_only_verified_witness:
  "\<forall>g. \<exists>g' status resp tr. handleIntercept demo_genv demo_post (armed g) = (g', status, resp, tr) \<and> tr \<noteq> []
     \<and> (\<exists>bs x y. DecodeString ''3006020101020101'' = Inr bs
          \<and> asn1_Unmarshal bs = Inr (\<lparr> es_R = Some x, es_S = Some y \<rparr>, []))"
proof
  fix g
  obtain g' status resp tr where h: "handleIntercept demo_genv demo_post (armed g) = (g', status, resp, tr)"
    and t: "tr \<noteq> []" using demo_launched by blast
  have u: "unmarshalRequest (fst (hr_Body demo_post)) = Some demo_intercept"
    by (simp add: demo_post_def demo_decodes)
  from intercept_executes_only_verified [OF h] t u
  have "\<exists>bs x y. DecodeString ''3006020101020101'' = Inr bs
          \<and> asn1_Unmarshal bs = Inr (\<lparr> es_R = Some x, es_S = Some y \<rparr>, [])"
    by (auto simp: demo_intercept_def)
  with h t show "\<exists>g' status resp tr. handleIntercept demo_genv demo_post (armed g) = (g', status, resp, tr) \<and> tr \<noteq> []
     \<and> (\<exists>bs x y. DecodeString ''3006020101020101'' = Inr bs
          \<and> asn1_Unmarshal bs = Inr (\<lparr> es_R = Some x, es_S = Some y \<rparr>, []))" by blast
qed

subsection \<open>Property: the event trail\<close>

text \<open>
  C18: what a call of \<open>handleIntercept\<close> accounts for. The gauge of running sandboxes is as before the
  call; the counter of verified signatures has grown by one exactly for the answers 200 and 500. Those
  leave the attestation event, the tool call event and the sandbox event with the outcome, in this
  order; a request that could not be read (wrong method, body, JSON) leaves nothing at all, not even an
  event; every other refusal leaves exactly one validation failure event and starts nothing.
\<close>

theorem intercept_event_trail:
  assumes "handleIntercept X r g = (g', status, resp, tr)"
  shows "gw_ActiveSandboxes g' = gw_ActiveSandboxes g
     \<and> gw_VerifiedSignatures g' = gw_VerifiedSignatures g + (if status \<in> {200, 500} then 1 else 0)
     \<and> (if \<not> readable r then g' = g \<and> tr = [] \<and> status \<in> {400, 405}
        else if status \<in> {200, 500}
        then (\<exists>agentID tool pid msg. gw_tel g' = fold (\<lambda>e t. SubmitGlobal t e)
          [NewAttestationEvent (gx_ms X 0) agentID (hr_RemoteAddr r) tool,
           NewToolCallEvent (gx_ms X 1) agentID (hr_RemoteAddr r) tool StatusUnknown ''sandbox launch initiated'',
           NewSandboxLaunchEvent (gx_ms X 2) agentID tool pid
             (if status = 200 then StatusSuccess else StatusFailure) msg] (gw_tel g))
        else tr = [] \<and> status \<in> {400, 401}
          \<and> (\<exists>agentID reason raw. gw_tel g' = SubmitGlobal (gw_tel g)
                (NewValidationFailEvent (gx_ms X 0) (gx_ms X 1) agentID (hr_RemoteAddr r) reason raw)))"
proof (cases "readable r")
  case False
  from intercept_unreadable [OF this, of X g] assms False show ?thesis by (auto split: if_splits)
next
  case True
  have tel: "gw_tel (h\<lparr>gw_validator := v\<rparr>) = gw_tel h" for h :: "'a gateway" and v by (simp add: gw_tel_def)
  show ?thesis
  proof (cases "\<exists>req manifest v'. authorised X r g req manifest v'")
    case a: True
    then obtain req manifest v' where "authorised X r g req manifest v'" by blast
    from launch_spec [OF assms [unfolded intercept_launches [OF this]]]
    obtain pid state msg where l: "gw_VerifiedSignatures g' = gw_VerifiedSignatures g + 1"
      "gw_ActiveSandboxes g' = gw_ActiveSandboxes g"
      "gw_tel g' = fold (\<lambda>e t. SubmitGlobal t e)
        [NewAttestationEvent (gx_ms X 0) (agent_of req) (hr_RemoteAddr r) (ms_ToolName manifest),
         NewToolCallEvent (gx_ms X 1) (agent_of req) (hr_RemoteAddr r) (ms_ToolName manifest) StatusUnknown
           ''sandbox launch initiated'',
         NewSandboxLaunchEvent (gx_ms X 2) (agent_of req) (ms_ToolName manifest) pid state msg] (gw_tel g)"
      and s: "status = 200 \<and> state = StatusSuccess \<or> status = 500 \<and> state = StatusFailure"
      by (auto simp: tel)
    have st: "state = (if status = 200 then StatusSuccess else StatusFailure)" "status \<in> {200, 500}"
      using s by auto
    show ?thesis using True l(1,2) st(2) l(3) [unfolded st(1)] by auto
  next
    case False
    obtain a reason raw v' where f: "g' = emit (NewValidationFailEvent (gx_ms X 0) (gx_ms X 1) a
        (hr_RemoteAddr r) reason raw) (g\<lparr>gw_validator := v'\<rparr>)" "tr = []" "status \<in> {400, 401}"
      using intercept_refuses [OF True False] assms unfolding answer_fail_def by auto
    then have "gw_tel g' = SubmitGlobal (gw_tel g) (NewValidationFailEvent (gx_ms X 0) (gx_ms X 1) a
        (hr_RemoteAddr r) reason raw)" by (simp add: tel)
    then show ?thesis using True f by auto
  qed
qed

theorem intercept_event_trail_witness:
  "\<forall>g. let (g', status, resp, tr) = handleIntercept demo_genv demo_post (armed g)
     in gw_VerifiedSignatures g' = gw_VerifiedSignatures (armed g) + (if status \<in> {200, 500} then 1 else 0)"
proof
  fix g
  obtain g' status resp tr where h: "handleIntercept demo_genv demo_post (armed g) = (g', status, resp, tr)"
    by (metis prod_cases4)
  from intercept_event_trail [OF h] show "let (g', status, resp, tr) = handleIntercept demo_genv demo_post (armed g)
     in gw_VerifiedSignatures g' = gw_VerifiedSignatures (armed g) + (if status \<in> {200, 500} then 1 else 0)"
    by (simp add: h)
qed


subsection \<open>Property: the replay window of the deployed gateway\<close>

lemma intercept_authorised_iff:
  assumes "handleIntercept X r g = (g', status, resp, tr)"
  shows "status \<in> {200, 500} \<longleftrightarrow> (\<exists>req manifest v'. authorised X r g req manifest v')"
proof
  assume s: "status \<in> {200, 500}"
  have "readable r"
  proof (rule ccontr)
    assume "\<not> readable r"
    from intercept_unreadable [OF this, of X g] assms s show False by (auto split: if_splits)
  qed
  show "\<exists>req manifest v'. authorised X r g req manifest v'"
  proof (rule ccontr)
    assume "\<not> ?thesis"
    from intercept_refuses [OF \<open>readable r\<close> this] assms s show False by (auto simp: answer_fail_def)
  qed
next
  assume "\<exists>req manifest v'. authorised X r g req manifest v'"
  then obtain req manifest v' where a: "authorised X r g req manifest v'" by blast
  from launch_spec [OF assms [unfolded intercept_launches [OF a]]] show "status \<in> {200, 500}" by auto
qed

text \<open>
  C23: how long a request stays single-use. Take a request that was let through at \<open>gx_now X\<close> and send
  it again, byte for byte, at \<open>t\<close>, nothing else happening in between and the timestamp still inside the
  drift window. It is let through again exactly from \<open>gx_now X\<close> plus the TTL on, and refused with 401
  before. The gateway is built with a TTL of five minutes and a drift window of ten, so a request with
  a fresh timestamp can run a second time.
\<close>

theorem intercept_replay_window:
  assumes "handleIntercept X r g = (g1, status1, resp1, tr1)" and "status1 \<in> {200, 500}"
    and "unmarshalRequest (fst (hr_Body r)) = Some req"
    and "unmarshalManifest (ir_Manifest req) = Some manifest"
    and "\<not> drift_exceeded u1 u2 (ms_Timestamp manifest)"
    and "nonce_wf (pv_nonceCache (gw_validator g))"
    and "handleIntercept (X\<lparr>gx_unix1 := u1, gx_unix2 := u2, gx_now := t\<rparr>) r g1 = (g2, status2, resp2, tr2)"
  shows "(status2 \<in> {200, 500} \<longleftrightarrow> gx_now X + nc_ttl (pv_nonceCache (gw_validator g)) \<le> t)
     \<and> status2 \<in> {200, 500, 401}"
proof -
  let ?X = "X\<lparr>gx_unix1 := u1, gx_unix2 := u2, gx_now := t\<rparr>"
  let ?V = "\<lambda>now v. Verify (gx_sha256 X) (gx_ecdsa X) now (ir_Manifest req) (ir_Signature req) (ms_Nonce manifest) v"
  obtain v1 where a: "authorised X r g req manifest v1"
    using intercept_authorised_iff [OF assms(1)] assms(2-4) by (auto simp: authorised_def)
  then have v: "?V (gx_now X) (gw_validator g) = (None, v1)" and n: "ms_Nonce manifest \<noteq> []"
    by (simp_all add: authorised_def)
  have g1: "gw_validator g1 = v1"
    using launch_spec [OF assms(1) [unfolded intercept_launches [OF a]]] by auto
  have ok: "fst (?V (gx_now X) (gw_validator g)) \<noteq> Some NonceRejected" by (simp add: v)
  have entry: "gm_get (nc_nonces (pv_nonceCache v1)) (ms_Nonce manifest)
      = Some (gx_now X + nc_ttl (pv_nonceCache (gw_validator g)))"
    using Verify_registers(2) [OF assms(6) ok] by (simp add: v)
  have key: "pv_pubKey v1 = pv_pubKey (gw_validator g)"
    using Verify_pubKey [of "gx_sha256 X" "gx_ecdsa X" "gx_now X" "ir_Manifest req" "ir_Signature req"
        "ms_Nonce manifest" "gw_validator g"] v by simp
  have sig: "check_signature (gx_sha256 X) (gx_ecdsa X) (pv_pubKey v1) (ir_Manifest req) (ir_Signature req) = None"
    using Verify_accepts(3) [OF v] by (simp add: check_signature_None_iff key)
  obtain e2 v2 where v2: "?V t v1 = (e2, v2)" by fastforce
  have live: "fst (nonce_Register t (ms_Nonce manifest) (pv_nonceCache v1))
      \<longleftrightarrow> gx_now X + nc_ttl (pv_nonceCache (gw_validator g)) \<le> t"
    using n entry by (auto simp: Register_fresh_iff nonce_live_def)
  have e2: "e2 = (if gx_now X + nc_ttl (pv_nonceCache (gw_validator g)) \<le> t then None else Some NonceRejected)"
    using Verify_fresh [of t "ms_Nonce manifest" v1 "gx_sha256 X" "gx_ecdsa X" "ir_Manifest req" "ir_Signature req"]
      Verify_rejected_iff [of "gx_sha256 X" "gx_ecdsa X" t "ir_Manifest req" "ir_Signature req" "ms_Nonce manifest" v1]
      live sig v2 by auto
  have au: "(\<exists>req' manifest' v'. authorised ?X r g1 req' manifest' v') \<longleftrightarrow> e2 = None"
    using a assms(5) v2 by (auto simp: authorised_def g1)
  moreover have "status2 = 401" if "e2 = Some f" for f
  proof -
    have "fst (snd (handleIntercept ?X r g1)) = 401"
      using a assms(5) v2 that
      by (auto simp: handleIntercept_def authorised_def authorise_def Let_def g1 answer_fail_def)
    then show ?thesis by (simp add: assms(7))
  qed
  ultimately show ?thesis
    using intercept_authorised_iff [OF assms(7)] e2 by (auto split: if_splits)
qed

theorem intercept_replay_window_witness:
  "\<forall>g. let (g1, status1, resp1, tr1) = handleIntercept demo_genv demo_post (armed g);
          (g2, status2, resp2, tr2) =
            handleIntercept (demo_genv\<lparr>gx_unix1 := 1300, gx_unix2 := 1300, gx_now := 1300 * second\<rparr>) demo_post g1
        in status2 \<in> {200, 500}"
proof
  fix g
  obtain g1 s1 p1 t1 where h: "handleIntercept demo_genv demo_post (armed g) = (g1, s1, p1, t1)"
    by (metis prod_cases4)
  let ?X = "demo_genv\<lparr>gx_unix1 := 1300, gx_unix2 := 1300, gx_now := 1300 * second\<rparr>"
  obtain g2 s2 p2 t2 where h2: "handleIntercept ?X demo_post g1 = (g2, s2, p2, t2)" by (metis prod_cases4)
  have s1: "s1 \<in> {200, 500}" using intercept_authorised_iff [OF h] demo_authorised by blast
  have r: "unmarshalRequest (fst (hr_Body demo_post)) = Some demo_intercept"
    "unmarshalManifest (ir_Manifest demo_intercept)
       = Some \<lparr> ms_ToolName = ''t'', ms_Nonce = ''n'', ms_Timestamp = 1000 \<rparr>"
    by (simp_all add: demo_post_def demo_intercept_def demo_decodes)
  have d: "\<not> drift_exceeded 1300 1300 (ms_Timestamp \<lparr> ms_ToolName = ''t'', ms_Nonce = ''n'', ms_Timestamp = 1000 \<rparr>)"
    by (simp add: drift_exceeded_def)
  have wf: "nonce_wf (pv_nonceCache (gw_validator (armed g)))"
    by (simp add: armed_def demo_validator_def NewNonceCache_def nonce_wf_def gomap_simps)
  have "gx_now demo_genv + nc_ttl (pv_nonceCache (gw_validator (armed g))) \<le> 1300 * second"
    by (simp add: demo_genv_def armed_def demo_validator_def NewNonceCache_def minute_def second_def)
  with intercept_replay_window [OF h s1 r d wf h2]
  show "let (g1, status1, resp1, tr1) = handleIntercept demo_genv demo_post (armed g);
          (g2, status2, resp2, tr2) = handleIntercept ?X demo_post g1
        in status2 \<in> {200, 500}"
    by (simp add: h h2)
qed


subsection \<open>Lemmas: what a run leaves in the kernel\<close>

lemma sandbox_run_state:
  shows "so_state (sandbox_run X script g) = (gw_ebpf g, 0) \<and> hook_effects (so_trace (sandbox_run X script g)) = []
     \<or> (\<exists>pid. 0 < pid \<and> hook_effects (so_trace (sandbox_run X script g)) = [pid]
          \<and> so_state (sandbox_run X script g)
             = (fst (register_hook (gx_bpf X) (gx_update X) pid (gw_ebpf g)), pid))"
proof -
  let ?hook = "\<lambda>pid (c, targetPID :: int). let (c', e) = register_hook (gx_bpf X) (gx_update X) pid c in ((c', pid), e)"
  let ?active = "\<lambda>s :: world ebpf \<times> int. IsActive (fst s)"
  let ?s = "(gw_ebpf g, 0 :: int)"
  show ?thesis
  proof (cases "started (gx_sandbox X) (?active ?s) (gw_sandbox g) script (gw_runsc g)")
    case None
    from Execute_unstarted [where active = ?active and s = ?s and U = "gx_U X" and hook = "Some ?hook", OF None]
    obtain e tr rc' where "sandbox_run X script g = fails ?s rc' tr e" "hook_effects tr = []"
      unfolding sandbox_run_def by blast
    then show ?thesis by (simp add: fails_def)
  next
    case (Some t)
    obtain dir args cid where t: "t = (dir, args, cid)" by (cases t)
    obtain mid s' res where m: "supervise (gx_sandbox X) (gx_U X) (Some ?hook) cid ?s = (mid, s', res)"
      by (cases "supervise (gx_sandbox X) (gx_U X) (Some ?hook) cid ?s")
    note e = Execute_started(1) [where active = ?active, OF Some [unfolded t] m]
    have pre: "hook_effects (script_prep dir script) = []" by (simp add: script_prep_def)
    show ?thesis
    proof (cases "container_pid (gx_sandbox X) cid")
      case None
      from supervise_no_pid [OF None, of "gx_U X" "Some ?hook" ?s] m have "mid = [DockerInspect cid]" "s' = ?s" by auto
      then show ?thesis unfolding sandbox_run_def e by (simp add: pre)
    next
      case (Some pid)
      obtain c' err where h: "register_hook (gx_bpf X) (gx_update X) pid (gw_ebpf g) = (c', err)" by fastforce
      have w: "hook_effects (fst (wait_container (gx_sandbox X) cid)) = []"
        by (simp add: wait_container_def Let_def)
      have "0 < pid" "hook_effects mid = [pid]" "s' = (c', pid)"
        using supervise_pid [OF Some, of "gx_U X" ?hook ?s] m h w by (cases err; simp; auto)+
      then show ?thesis unfolding sandbox_run_def e using h by (simp add: pre)
    qed
  qed
qed

lemma register_hook_up:
  assumes "ebpf_up c"
  shows "ebpf_up (fst (register_hook E update pid c))"
    and "locked_pids (fst (register_hook E update pid c))
       = (if update = None then insert (word_of_int pid) (locked_pids c) else locked_pids c)"
  using reg_exec_spec [OF assms, of E "Reg pid update"]
  by (cases update; cases "RegisterSandboxPID E update pid c"; cases "snd (RegisterSandboxPID E update pid c)";
      simp add: register_hook_def)+

lemma after_run_up:
  assumes "ebpf_up (gw_ebpf g)"
  shows "ebpf_up (after_run X (sandbox_run X script g))"
    and "locked_pids (after_run X (sandbox_run X script g)) =
      (let ps = word_of_int ` set (hook_effects (so_trace (sandbox_run X script g))) in
       if gx_delete X = None then locked_pids (gw_ebpf g) - ps
       else if gx_update X = None then locked_pids (gw_ebpf g) \<union> ps else locked_pids (gw_ebpf g))"
proof -
  have "ebpf_up (after_run X (sandbox_run X script g))
    \<and> locked_pids (after_run X (sandbox_run X script g)) =
      (let ps = word_of_int ` set (hook_effects (so_trace (sandbox_run X script g))) in
       if gx_delete X = None then locked_pids (gw_ebpf g) - ps
       else if gx_update X = None then locked_pids (gw_ebpf g) \<union> ps else locked_pids (gw_ebpf g))"
    using sandbox_run_state [of X script g]
  proof (elim disjE exE conjE)
    fix pid
    let ?c = "fst (register_hook (gx_bpf X) (gx_update X) pid (gw_ebpf g))"
    assume s: "0 < pid" "hook_effects (so_trace (sandbox_run X script g)) = [pid]"
      "so_state (sandbox_run X script g) = (?c, pid)"
    note up = register_hook_up [OF assms, of "gx_bpf X" "gx_update X" pid]
    have "ebpf_up (fst (RemoveSandboxPID (gx_bpf X) (gx_delete X) pid ?c))"
      "locked_pids (fst (RemoveSandboxPID (gx_bpf X) (gx_delete X) pid ?c))
         = (if gx_delete X = None then locked_pids ?c - {word_of_int pid} else locked_pids ?c)"
      using reg_exec_spec [OF up(1), of "gx_bpf X" "Rem pid (gx_delete X)"] by (cases "gx_delete X"; simp)+
    then show ?thesis using s up(2) by (auto simp: after_run_def Let_def)
  qed (simp add: after_run_def assms)
  then show "ebpf_up (after_run X (sandbox_run X script g))"
    and "locked_pids (after_run X (sandbox_run X script g)) =
      (let ps = word_of_int ` set (hook_effects (so_trace (sandbox_run X script g))) in
       if gx_delete X = None then locked_pids (gw_ebpf g) - ps
       else if gx_update X = None then locked_pids (gw_ebpf g) \<union> ps else locked_pids (gw_ebpf g))" by blast+
qed

lemma playground_run:
  assumes "handlePlaygroundRun X r g = (g', status, resp, tr)"
  shows "gw_ActiveSandboxes g' = gw_ActiveSandboxes g \<and> gw_tel g' = gw_tel g
     \<and> (tr = [] \<and> gw_ebpf g' = gw_ebpf g
        \<or> (\<exists>script. tr = so_trace (sandbox_run X script g) \<and> gw_ebpf g' = after_run X (sandbox_run X script g)))"
proof -
  have cong: "sandbox_run X s (g\<lparr>gw_validator := v, gw_VerifiedSignatures := n\<rparr>) = sandbox_run X s g" for s v n
    by (simp add: sandbox_run_def)
  have tel: "gw_tel (g\<lparr>gw_validator := v\<rparr>) = gw_tel g"
    "gw_tel (g\<lparr>gw_validator := v, gw_VerifiedSignatures := n\<rparr>) = gw_tel g" for v n
    by (simp_all add: gw_tel_def)
  have run: "gw_ActiveSandboxes h = gw_ActiveSandboxes g \<and> gw_tel h = gw_tel g
     \<and> t = so_trace (sandbox_run X s g) \<and> gw_ebpf h = after_run X (sandbox_run X s g)"
    if "run_sandbox X s (g\<lparr>gw_validator := v, gw_VerifiedSignatures := n\<rparr>) = (h, pid, res, t)" for s v n h pid res t
    using run_sandbox_frame [OF that] tel by (simp add: cong gw_tel_def)
  show ?thesis
    using assms tel unfolding handlePlaygroundRun_def answer_plain_def Let_def
    by (auto split: if_splits option.splits sum.splits prod.splits dest!: run)
qed


lemma intercept_run:
  assumes "handleIntercept X r g = (g', status, resp, tr)"
  shows "gw_ActiveSandboxes g' = gw_ActiveSandboxes g
     \<and> (tr = [] \<and> gw_ebpf g' = gw_ebpf g
        \<or> (\<exists>script. tr = so_trace (sandbox_run X script g) \<and> gw_ebpf g' = after_run X (sandbox_run X script g)))"
proof (cases "readable r")
  case False
  from intercept_unreadable [OF this, of X g] assms show ?thesis by auto
next
  case rd: True
  show ?thesis
  proof (cases "\<exists>req manifest v'. authorised X r g req manifest v'")
    case True
    then obtain req manifest v' where a: "authorised X r g req manifest v'" by blast
    have "sandbox_run X s (g\<lparr>gw_validator := v\<rparr>) = sandbox_run X s g" for s v by (simp add: sandbox_run_def)
    then show ?thesis using launch_spec [OF assms [unfolded intercept_launches [OF a]]] by auto
  next
    case False
    from intercept_refuses [OF rd False] assms show ?thesis by (auto simp: answer_fail_def)
  qed
qed

text \<open>Requests served one after the other, each with what it meets.\<close>

datatype endpoint = Intercept | PlaygroundRun

fun handle :: "endpoint \<Rightarrow> 'pk gateway_env \<Rightarrow> http_request \<Rightarrow> 'pk gateway \<Rightarrow> 'pk answer" where
  "handle Intercept X r g = handleIntercept X r g"
| "handle PlaygroundRun X r g = handlePlaygroundRun X r g"

fun serve :: "(endpoint \<times> 'pk gateway_env \<times> http_request) list \<Rightarrow> 'pk gateway \<Rightarrow> 'pk gateway \<times> effect list list" where
  "serve [] g = (g, [])"
| "serve ((p, X, r) # cs) g =
     (let (g', status, resp, tr) = handle p X r g; (g'', trs) = serve cs g' in (g'', tr # trs))"

lemma handle_run:
  assumes "handle p X r g = (g', status, resp, tr)"
  shows "gw_ActiveSandboxes g' = gw_ActiveSandboxes g
     \<and> (tr = [] \<and> gw_ebpf g' = gw_ebpf g
        \<or> (\<exists>script. tr = so_trace (sandbox_run X script g) \<and> gw_ebpf g' = after_run X (sandbox_run X script g)))"
proof (cases p)
  case Intercept
  then show ?thesis using intercept_run [of X r g] assms by simp
next
  case PlaygroundRun
  then show ?thesis using playground_run [of X r g] assms by simp
qed

text \<open>The specification of the registry over a history: each run's pid is locked and unlocked again.\<close>

fun locked_after :: "('pk gateway_env \<times> effect list) list \<Rightarrow> uint32 set \<Rightarrow> uint32 set" where
  "locked_after [] L = L"
| "locked_after ((X, tr) # hs) L =
     locked_after hs
       (let ps = word_of_int ` set (hook_effects tr) in
        if gx_delete X = None then L - ps else if gx_update X = None then L \<union> ps else L)"

lemma serve_locked:
  "ebpf_up (gw_ebpf g) \<Longrightarrow> serve cs g = (g', trs) \<Longrightarrow>
     gw_ActiveSandboxes g' = gw_ActiveSandboxes g \<and> ebpf_up (gw_ebpf g') \<and> length trs = length cs
     \<and> locked_pids (gw_ebpf g') = locked_after (zip (map (fst \<circ> snd) cs) trs) (locked_pids (gw_ebpf g))"
proof (induction cs g arbitrary: g' trs rule: serve.induct)
  case (1 g)
  then show ?case by simp
next
  case (2 p X r cs g)
  obtain g1 st resp tr where h: "handle p X r g = (g1, st, resp, tr)" by (metis prod_cases4)
  obtain g2 trs' where s: "serve cs g1 = (g2, trs')" by fastforce
  have e: "g' = g2" "trs = tr # trs'" using 2(3) h s by (simp_all add: Let_def)
  have one: "ebpf_up (gw_ebpf g1) \<and> locked_pids (gw_ebpf g1) = locked_after [(X, tr)] (locked_pids (gw_ebpf g))"
    using handle_run [OF h] 2(2) after_run_up [OF 2(2), of X] by (auto simp: Let_def)
  with 2(1) [OF h [symmetric] HOL.refl HOL.refl HOL.refl _ s] handle_run [OF h]
  show ?case by (simp add: e)
qed

lemma locked_after_shrinks:
  "\<forall>h \<in> set hs. gx_delete (fst h) = None \<Longrightarrow> locked_after hs L \<subseteq> L"
  by (induction hs L rule: locked_after.induct) (auto simp: Let_def)

subsection \<open>Property: the gateway at rest\<close>

text \<open>
  What a history of requests leaves behind. Once the controller is up, after any requests to the
  two executing endpoints, whatever failed in them, the gauge of running sandboxes is where it was, and
  the pids still locked in the kernel are exactly those whose removal failed; if no removal fails, no
  pid is locked that was not locked before.
\<close>

theorem gateway_at_rest:
  assumes "ebpf_up (gw_ebpf g)" and "serve cs g = (g', trs)"
  shows "gw_ActiveSandboxes g' = gw_ActiveSandboxes g
     \<and> locked_pids (gw_ebpf g') = locked_after (zip (map (fst \<circ> snd) cs) trs) (locked_pids (gw_ebpf g))
     \<and> ((\<forall>(p, X, r) \<in> set cs. gx_delete X = None) \<longrightarrow> locked_pids (gw_ebpf g') \<subseteq> locked_pids (gw_ebpf g))"
proof -
  note s = serve_locked [OF assms]
  have "locked_pids (gw_ebpf g') \<subseteq> locked_pids (gw_ebpf g)" if "\<forall>(p, X, r) \<in> set cs. gx_delete X = None"
  proof -
    have "\<forall>h \<in> set (zip (map (fst \<circ> snd) cs) trs). gx_delete (fst h) = None"
      using that by (fastforce dest: set_zip_leftD)
    from locked_after_shrinks [OF this] s show ?thesis by simp
  qed
  with s show ?thesis by blast
qed

theorem gateway_at_rest_witness:
  "\<forall>g. locked_pids (gw_ebpf (fst (serve [(Intercept, demo_genv, demo_post), (PlaygroundRun, demo_genv, demo_post)]
      ((armed g)\<lparr>gw_ebpf := ebpf_start\<lparr>kc_initOnce := True, kc_lockedMap := Some []\<rparr>\<rparr>)))) = {}"
proof
  fix g
  let ?g = "(armed g)\<lparr>gw_ebpf := ebpf_start\<lparr>kc_initOnce := True, kc_lockedMap := Some []\<rparr>\<rparr>"
  let ?cs = "[(Intercept, demo_genv, demo_post), (PlaygroundRun, demo_genv, demo_post)]"
  have up: "ebpf_up (gw_ebpf ?g)" by (simp add: ebpf_up_def ebpf_start_def gomap_simps)
  obtain g' trs where s: "serve ?cs ?g = (g', trs)" by fastforce
  have "locked_pids (gw_ebpf ?g) = {}" by (simp add: locked_pids_def gm_get_dom)
  moreover have "gx_delete demo_genv = None" by (simp add: demo_genv_def)
  ultimately have "locked_pids (gw_ebpf g') = {}"
    using conjunct2 [OF conjunct2 [OF gateway_at_rest [OF up s]]] by simp
  then show "locked_pids (gw_ebpf (fst (serve ?cs ?g))) = {}" by (simp only: s fst_conv)
qed

subsection \<open>Property: the playground\<close>

text \<open>
  C34: the playground runs any script. Given a loaded key whose signatures the configured public key
  accepts and a nonce not seen before, a POST with any script without NUL bytes gets that script run:
  the server signs the manifest itself. Unlike the other endpoint it submits no telemetry event.
\<close>

theorem playground_runs_any_script:
  assumes "hr_Method r = ''POST''" and "gw_playgroundKey g = Some sign"
    and "decodeScript (hr_Body r) = Some script" and "CHR 0x00 \<notin> set script"
    and "sign (gx_sha256 X (playground_manifest (gx_nano X) (gx_unix1 X))) = Inr (der_signature x y [])"
    and "length (der_tlv 2 (der_nat x) @ der_tlv 2 (der_nat y)) < 256"
    and "gx_ecdsa X (pv_pubKey (gw_validator g)) (gx_sha256 X (playground_manifest (gx_nano X) (gx_unix1 X))) (int x) (int y)"
    and "\<not> nonce_live (gx_now X) (playground_nonce (gx_nano X)) (pv_nonceCache (gw_validator g))"
    and "handlePlaygroundRun X r g = (g', status, resp, tr)"
  shows "tr = so_trace (sandbox_run X script g) \<and> status \<in> {200, 500}
     \<and> gw_VerifiedSignatures g' = gw_VerifiedSignatures g + 1 \<and> gw_tel g' = gw_tel g"
proof -
  let ?m = "playground_manifest (gx_nano X) (gx_unix1 X)" and ?n = "playground_nonce (gx_nano X)"
  let ?s = "EncodeToString (der_signature x y [])"
  have "asn1_Unmarshal (der_signature x y []) = Inr (\<lparr> es_R = Some (int x), es_S = Some (int y) \<rparr>, [])"
    using asn1_der_signature [of x y "[]" "[]"] assms(6) by simp
  then have c: "check_signature (gx_sha256 X) (gx_ecdsa X) (pv_pubKey (gw_validator g)) ?m ?s = None"
    using assms(7) by (simp add: check_signature_None_iff hex_roundtrip)
  have f: "fst (nonce_Register (gx_now X) ?n (pv_nonceCache (gw_validator g)))"
    using assms(8) by (simp add: Register_fresh_iff playground_nonce_def)
  obtain v' where v: "Verify (gx_sha256 X) (gx_ecdsa X) (gx_now X) ?m ?s ?n (gw_validator g) = (None, v')"
    using Verify_fresh [OF f, of "gx_sha256 X" "gx_ecdsa X" ?m ?s] c by (metis prod.collapse)
  let ?g = "g\<lparr>gw_validator := v', gw_VerifiedSignatures := gw_VerifiedSignatures g + 1\<rparr>"
  obtain g1 pid res t where run: "run_sandbox X script ?g = (g1, pid, res, t)" by (metis prod_cases4)
  have "scrubInput script [] = Inr (script, [])"
    using assms(4) by (simp add: scrubInput_no_variables nul_def str_contains_char)
  then have "handlePlaygroundRun X r g = (case res of
      Inl e \<Rightarrow> (g1, 500, refusal (''Sandbox execution failed: '' @ sandbox_error_text e), t)
    | Inr out \<Rightarrow> (g1, 200, \<lparr> is_Success = True, is_Message = [], is_Output = Some out, is_PIDLocked = pid \<rparr>, t))"
    using assms(1-3,5) v run by (simp add: handlePlaygroundRun_def Let_def)
  moreover have "sandbox_run X script ?g = sandbox_run X script g" by (simp add: sandbox_run_def)
  ultimately show ?thesis
    using assms(9) run_sandbox_frame [OF run] by (auto simp: gw_tel_def split: sum.splits)
qed

theorem playground_runs_any_script_witness:
  "\<forall>g. let (g', status, resp, tr) = handlePlaygroundRun demo_genv demo_post
          ((armed g)\<lparr>gw_playgroundKey := Some (\<lambda>h. Inr (der_signature 1 1 []))\<rparr>)
     in status \<in> {200, 500} \<and> gw_tel g' = gw_tel ((armed g)\<lparr>gw_playgroundKey := Some (\<lambda>h. Inr (der_signature 1 1 []))\<rparr>)"
proof
  fix g
  let ?g = "(armed g)\<lparr>gw_playgroundKey := Some (\<lambda>h. Inr (der_signature 1 1 []))\<rparr>"
  obtain g' status resp tr where h: "handlePlaygroundRun demo_genv demo_post ?g = (g', status, resp, tr)"
    by (metis prod_cases4)
  have len: "length (der_tlv 2 (der_nat 1) @ der_tlv 2 (der_nat 1)) < 256"
    by (simp add: der_tlv_def der_len_def der_nat.simps)
  let ?m = "playground_manifest (gx_nano demo_genv) (gx_unix1 demo_genv)"
  have p: "hr_Method demo_post = ''POST''" "gw_playgroundKey ?g = Some (\<lambda>h. Inr (der_signature 1 1 []))"
    "decodeScript (hr_Body demo_post) = Some ''print(1)''" "CHR 0x00 \<notin> set ''print(1)''"
    by (simp_all add: demo_post_def demo_decodes)
  have q: "gx_ecdsa demo_genv (pv_pubKey (gw_validator ?g)) (gx_sha256 demo_genv ?m) (int 1) (int 1)"
    "\<not> nonce_live (gx_now demo_genv) (playground_nonce (gx_nano demo_genv)) (pv_nonceCache (gw_validator ?g))"
    by (simp_all add: demo_genv_def armed_def demo_validator_def NewNonceCache_def nonce_live_def gm_get_def)
  have "status \<in> {200, 500} \<and> gw_tel g' = gw_tel ?g"
    using playground_runs_any_script [OF p HOL.refl len q h] by blast
  then show "let (g', status, resp, tr) = handlePlaygroundRun demo_genv demo_post ?g
     in status \<in> {200, 500} \<and> gw_tel g' = gw_tel ?g"
    unfolding h by simp
qed

end
