(* ===== verification/Interleave.thy ===== *)
theory Interleave
  imports Gateway
begin

text \<open>
  The gateway under concurrent requests. The HTTP server runs every handler in a goroutine of its own;
  here the two executing endpoints are split at the points where they share state: what precedes the
  sandbox, the start of the container, the hook, the container's end, the removal of the pid, the answer.
\<close>

subsection \<open>Requests in flight\<close>

text \<open>
  After the gauge has been raised: the container is not yet there; it runs and the hook is about to be
  called with its pid; it runs, and the hook returned nil or an error; it is gone and its pid is still to be
  removed; the gauge is still to be lowered; answered.
\<close>

datatype phase = Starting | Hooking int | Running int bool | Leaving int | Closing | Answered

text \<open>\<open>tk_report\<close> is the agent and the tool of the sandbox event; the playground reports none.\<close>

record 'pk task =
  tk_env :: "'pk gateway_env"
  tk_script :: string
  tk_report :: "(string \<times> string) option"
  tk_phase :: phase

type_synonym 'pk hub = "'pk gateway \<times> 'pk task list"

text \<open>The pids the kernel cannot give away, and those the gateway has still to remove as well.\<close>

fun live_pid :: "phase \<Rightarrow> int option" where
  "live_pid (Hooking pid) = Some pid"
| "live_pid (Running pid ok) = Some pid"
| "live_pid ph = None"

fun held_pid :: "phase \<Rightarrow> int option" where
  "held_pid (Leaving pid) = Some pid"
| "held_pid ph = live_pid ph"

definition live_pids :: "'pk task list \<Rightarrow> int set" where
  "live_pids ts = {pid. \<exists>t \<in> set ts. live_pid (tk_phase t) = Some pid}"

definition held_pids :: "'pk task list \<Rightarrow> int set" where
  "held_pids ts = {pid. \<exists>t \<in> set ts. held_pid (tk_phase t) = Some pid}"

subsection \<open>The steps\<close>

text \<open>
  What makes the playground go on to the sandbox, as \<open>authorised\<close> does for \<open>handleIntercept\<close>; and the state
  each endpoint enters it with.
\<close>

definition play_authorised ::
  "'pk gateway_env \<Rightarrow> http_request \<Rightarrow> 'pk gateway \<Rightarrow> string \<Rightarrow> 'pk ProvenanceValidator \<Rightarrow> bool" where
  "play_authorised X r g script v' \<longleftrightarrow>
     hr_Method r = ''POST'' \<and> decodeScript (hr_Body r) = Some script
     \<and> (\<exists>sign sigBytes m. gw_playgroundKey g = Some sign
         \<and> sign (gx_sha256 X (playground_manifest (gx_nano X) (gx_unix1 X))) = Inr sigBytes
         \<and> scrubInput script [] = Inr (script, m)
         \<and> Verify (gx_sha256 X) (gx_ecdsa X) (gx_now X) (playground_manifest (gx_nano X) (gx_unix1 X))
             (EncodeToString sigBytes) (playground_nonce (gx_nano X)) (gw_validator g) = (None, v'))"

definition intercept_entry ::
  "'pk gateway_env \<Rightarrow> http_request \<Rightarrow> string \<Rightarrow> string \<Rightarrow> 'pk ProvenanceValidator \<Rightarrow> 'pk gateway \<Rightarrow> 'pk gateway" where
  "intercept_entry X r agentID toolName v' g =
     (let g1 = g\<lparr>gw_validator := v', gw_VerifiedSignatures := gw_VerifiedSignatures g + 1\<rparr>;
          g2 = emit (NewAttestationEvent (gx_ms X 0) agentID (hr_RemoteAddr r) toolName) g1;
          g3 = emit (NewToolCallEvent (gx_ms X 1) agentID (hr_RemoteAddr r) toolName StatusUnknown
                       ''sandbox launch initiated'') g2
      in g3\<lparr>gw_ActiveSandboxes := gw_ActiveSandboxes g3 + 1\<rparr>)"

definition playground_entry :: "'pk ProvenanceValidator \<Rightarrow> 'pk gateway \<Rightarrow> 'pk gateway" where
  "playground_entry v' g =
     g\<lparr>gw_validator := v', gw_VerifiedSignatures := gw_VerifiedSignatures g + 1,
       gw_ActiveSandboxes := gw_ActiveSandboxes g + 1\<rparr>"

text \<open>The gauge is lowered and, for an intercepted call, the outcome of the run reported.\<close>

definition answer_run ::
  "'pk gateway_env \<Rightarrow> (string \<times> string) option \<Rightarrow> int \<Rightarrow> int \<Rightarrow> string \<Rightarrow> 'pk gateway \<Rightarrow> 'pk gateway" where
  "answer_run X report pid state detail g =
     (let g1 = g\<lparr>gw_ActiveSandboxes := gw_ActiveSandboxes g - 1\<rparr> in
      case report of
        None \<Rightarrow> g1
      | Some (agentID, toolName) \<Rightarrow> emit (NewSandboxLaunchEvent (gx_ms X 2) agentID toolName pid state detail) g1)"

text \<open>
  \<open>busy\<close> is what the kernel does not give to a new container, \<open>ok\<close> restricts what requests meet. A
  container's pid and the change to the \<open>runsc\<close> check are those \<open>Execute\<close> computes from the state it
  meets; process ids are below \<open>2 ^ 31\<close>. Beside the requests runs the goroutine that tidies the nonce cache.
\<close>

inductive hub_step ::
  "('pk task list \<Rightarrow> int set) \<Rightarrow> ('pk gateway_env \<Rightarrow> bool) \<Rightarrow> 'pk hub \<Rightarrow> 'pk hub \<Rightarrow> bool" for busy ok where
  refuse_intercept:
    "\<not> (\<exists>req manifest v'. authorised X r g req manifest v') \<Longrightarrow>
     handleIntercept X r g = (g', status, resp, tr) \<Longrightarrow> hub_step busy ok (g, ts) (g', ts)"
| refuse_playground:
    "\<not> (\<exists>script v'. play_authorised X r g script v') \<Longrightarrow>
     handlePlaygroundRun X r g = (g', status, resp, tr) \<Longrightarrow> hub_step busy ok (g, ts) (g', ts)"
| intercept:
    "authorised X r g req manifest v' \<Longrightarrow> ok X \<Longrightarrow>
     hub_step busy ok (g, ts)
       (intercept_entry X r (agent_of req) (ms_ToolName manifest) v' g,
        ts @ [\<lparr> tk_env = X, tk_script = ir_Script req, tk_report = Some (agent_of req, ms_ToolName manifest),
                tk_phase = Starting \<rparr>])"
| playground:
    "play_authorised X r g script v' \<Longrightarrow> ok X \<Longrightarrow>
     hub_step busy ok (g, ts)
       (playground_entry v' g,
        ts @ [\<lparr> tk_env = X, tk_script = script, tk_report = None, tk_phase = Starting \<rparr>])"
| start:
    "i < length ts \<Longrightarrow> tk_phase (ts ! i) = Starting \<Longrightarrow>
     out = sandbox_run (tk_env (ts ! i)) (tk_script (ts ! i)) g \<Longrightarrow> pid = snd (so_state out) \<Longrightarrow>
     pid \<notin> busy ts \<Longrightarrow> pid < 2 ^ 31 \<Longrightarrow>
     hub_step busy ok (g, ts)
       (g\<lparr>gw_runsc := so_runsc out\<rparr>,
        ts[i := (ts ! i)\<lparr>tk_phase := if pid > 0 then Hooking pid else Closing\<rparr>])"
| hook:
    "i < length ts \<Longrightarrow> tk_phase (ts ! i) = Hooking pid \<Longrightarrow> X = tk_env (ts ! i) \<Longrightarrow>
     register_hook (gx_bpf X) (gx_update X) pid (gw_ebpf g) = (c, err) \<Longrightarrow>
     hub_step busy ok (g, ts) (g\<lparr>gw_ebpf := c\<rparr>, ts[i := (ts ! i)\<lparr>tk_phase := Running pid (err = None)\<rparr>])"
| leave:
    "i < length ts \<Longrightarrow> tk_phase (ts ! i) = Running pid locked \<Longrightarrow>
     hub_step busy ok (g, ts) (g, ts[i := (ts ! i)\<lparr>tk_phase := Leaving pid\<rparr>])"
| remove:
    "i < length ts \<Longrightarrow> tk_phase (ts ! i) = Leaving pid \<Longrightarrow> X = tk_env (ts ! i) \<Longrightarrow>
     hub_step busy ok (g, ts)
       (g\<lparr>gw_ebpf := fst (RemoveSandboxPID (gx_bpf X) (gx_delete X) pid (gw_ebpf g))\<rparr>,
        ts[i := (ts ! i)\<lparr>tk_phase := Closing\<rparr>])"
| answer:
    "i < length ts \<Longrightarrow> tk_phase (ts ! i) = Closing \<Longrightarrow>
     hub_step busy ok (g, ts)
       (answer_run (tk_env (ts ! i)) (tk_report (ts ! i)) pid state detail g,
        ts[i := (ts ! i)\<lparr>tk_phase := Answered\<rparr>])"
| tidy:
    "ok X \<Longrightarrow>
     hub_step busy ok (g, ts)
       (g\<lparr>gw_validator := (gw_validator g)
            \<lparr>pv_nonceCache := cleanup_tick (gx_now X) (pv_nonceCache (gw_validator g))\<rparr>\<rparr>, ts)"

inductive hub_reach ::
  "('pk task list \<Rightarrow> int set) \<Rightarrow> ('pk gateway_env \<Rightarrow> bool) \<Rightarrow> 'pk hub \<Rightarrow> 'pk hub \<Rightarrow> bool" for busy ok s0 where
  here: "hub_reach busy ok s0 s0"
| next_step: "hub_reach busy ok s0 s \<Longrightarrow> hub_step busy ok s s' \<Longrightarrow> hub_reach busy ok s0 s'"

subsection \<open>Lemmas: one call as a schedule\<close>

lemma hub_reach_trans: "hub_reach busy ok t u \<Longrightarrow> hub_reach busy ok s t \<Longrightarrow> hub_reach busy ok s u"
  by (induction rule: hub_reach.induct) (auto intro: hub_reach.intros)

lemma hub_reach_one: "hub_step busy ok s t \<Longrightarrow> hub_reach busy ok s t"
  by (auto intro: hub_reach.intros)

lemma sandbox_run_gauge [simp]: "sandbox_run X script (g\<lparr>gw_ActiveSandboxes := n\<rparr>) = sandbox_run X script g"
  by (simp add: sandbox_run_def)

text \<open>The pid of a run that starts here.\<close>

abbreviation run_pid :: "'pk gateway_env \<Rightarrow> string \<Rightarrow> 'pk gateway \<Rightarrow> int" where
  "run_pid X script g \<equiv> snd (so_state (sandbox_run X script g))"

text \<open>The last request in flight, alone from its start to its answer, does what \<open>run_sandbox\<close> does.\<close>

lemma run_alone:
  assumes busy: "run_pid X script g \<notin> busy (ts @ [\<lparr> tk_env = X, tk_script = script, tk_report = rep, tk_phase = Starting \<rparr>])"
    and small: "run_pid X script g < 2 ^ 31"
  shows "hub_reach busy ok
     (g, ts @ [\<lparr> tk_env = X, tk_script = script, tk_report = rep, tk_phase = Starting \<rparr>])
     (answer_run X rep pid state detail
        (g\<lparr>gw_ebpf := after_run X (sandbox_run X script g), gw_runsc := so_runsc (sandbox_run X script g)\<rparr>),
      ts @ [\<lparr> tk_env = X, tk_script = script, tk_report = rep, tk_phase = Answered \<rparr>])"
proof -
  define out where "out = sandbox_run X script g"
  define q where "q = snd (so_state out)"
  define us where "us ph = ts @ [\<lparr> tk_env = X, tk_script = script, tk_report = rep, tk_phase = ph \<rparr>]" for ph
  let ?i = "length ts"
  have us: "?i < length (us ph)" "(us ph) ! ?i = \<lparr> tk_env = X, tk_script = script, tk_report = rep, tk_phase = ph \<rparr>"
    "(us ph)[?i := \<lparr> tk_env = X, tk_script = script, tk_report = rep, tk_phase = ph' \<rparr>] = us ph'" for ph ph'
    by (simp_all add: us_def)
  have at: "tk_phase (us ph ! ?i) = ph" "X = tk_env (us ph ! ?i)"
    "(us ph)[?i := (us ph ! ?i)\<lparr>tk_phase := ph'\<rparr>] = us ph'" for ph ph'
    by (simp_all add: us)
  define g1 where "g1 = g\<lparr>gw_runsc := so_runsc out\<rparr>"
  have close: "hub_step busy ok (h, us Closing) (answer_run X rep pid state detail h, us Answered)" for h
    using hub_step.answer [of ?i "us Closing" busy ok h pid state detail] by (simp add: us)
  have start: "hub_step busy ok (g, us Starting) (g1, us (if q > 0 then Hooking q else Closing))"
    using hub_step.start [of ?i "us Starting" out g q busy ok] busy small
    by (simp add: us out_def q_def g1_def us_def)
  from sandbox_run_state [of X script g, folded out_def]
  have "hub_reach busy ok (g, us Starting)
     (answer_run X rep pid state detail (g\<lparr>gw_ebpf := after_run X out, gw_runsc := so_runsc out\<rparr>), us Answered)"
  proof (elim disjE exE conjE)
    assume s: "so_state out = (gw_ebpf g, 0)"
    have e: "g\<lparr>gw_ebpf := after_run X out, gw_runsc := so_runsc out\<rparr> = g1"
      using s by (simp add: after_run_def g1_def)
    have "hub_step busy ok (g, us Starting) (g1, us Closing)" using start s by (simp add: q_def)
    from hub_reach.next_step [OF hub_reach_one [OF this] close] show ?thesis unfolding e .
  next
    fix p
    assume p: "0 < p" "so_state out = (fst (register_hook (gx_bpf X) (gx_update X) p (gw_ebpf g)), p)"
    obtain c err where h: "register_hook (gx_bpf X) (gx_update X) p (gw_ebpf g) = (c, err)" by fastforce
    define g2 where "g2 = g1\<lparr>gw_ebpf := c\<rparr>"
    define g3 where "g3 = g\<lparr>gw_ebpf := after_run X out, gw_runsc := so_runsc out\<rparr>"
    have 1: "hub_step busy ok (g, us Starting) (g1, us (Hooking p))" using start p by (simp add: q_def)
    have 2: "hub_step busy ok (g1, us (Hooking p)) (g2, us (Running p (err = None)))"
    proof -
      have "register_hook (gx_bpf X) (gx_update X) p (gw_ebpf g1) = (c, err)" using h by (simp add: g1_def)
      from hub_step.hook [OF us(1) at(1,2) this, of busy ok] show ?thesis unfolding at(3) g2_def .
    qed
    have 3: "hub_step busy ok (g2, us (Running p (err = None))) (g2, us (Leaving p))"
      using hub_step.leave [of ?i "us (Running p (err = None))" p "err = None" busy ok g2] by (simp add: us)
    have 4: "hub_step busy ok (g2, us (Leaving p)) (g3, us Closing)"
    proof -
      have "g3 = g2\<lparr>gw_ebpf := fst (RemoveSandboxPID (gx_bpf X) (gx_delete X) p (gw_ebpf g2))\<rparr>"
        using p h by (simp add: after_run_def g1_def g2_def g3_def)
      with hub_step.remove [OF us(1) at(1,2), of busy ok g2] show ?thesis unfolding at(3) by simp
    qed
    show ?thesis unfolding g3_def [symmetric]
      by (rule hub_reach.next_step [OF hub_reach.next_step [OF hub_reach.next_step [OF hub_reach.next_step
          [OF hub_reach_one [OF 1] 2] 3] 4] close])
  qed
  then show ?thesis by (simp add: us_def out_def)
qed


lemma intercept_alone:
  assumes "authorised X r g req manifest v'" and "handleIntercept X r g = (g', status, resp, tr)"
  shows "\<exists>pid state detail. g' = answer_run X (Some (agent_of req, ms_ToolName manifest)) pid state detail
     ((intercept_entry X r (agent_of req) (ms_ToolName manifest) v' g)
        \<lparr>gw_ebpf := after_run X (sandbox_run X (ir_Script req) g), gw_runsc := so_runsc (sandbox_run X (ir_Script req) g)\<rparr>)"
proof -
  let ?a = "agent_of req" and ?tool = "ms_ToolName manifest" and ?script = "ir_Script req"
  let ?e = "intercept_entry X r ?a ?tool v' g"
  have out: "sandbox_run X ?script ?e = sandbox_run X ?script g" by (simp add: intercept_entry_def sandbox_run_def Let_def)
  define g3 where "g3 = emit (NewToolCallEvent (gx_ms X 1) ?a (hr_RemoteAddr r) ?tool StatusUnknown ''sandbox launch initiated'')
     (emit (NewAttestationEvent (gx_ms X 0) ?a (hr_RemoteAddr r) ?tool)
        (g\<lparr>gw_validator := v', gw_VerifiedSignatures := gw_VerifiedSignatures g + 1\<rparr>))"
  obtain g4 pid res t where run: "run_sandbox X ?script g3 = (g4, pid, res, t)" by (metis prod_cases4)
  have g4: "g4 = (?e\<lparr>gw_ebpf := after_run X (sandbox_run X ?script g), gw_runsc := so_runsc (sandbox_run X ?script g)\<rparr>)
      \<lparr>gw_ActiveSandboxes := gw_ActiveSandboxes ?e - 1\<rparr>"
    using run unfolding out [symmetric] run_sandbox_def
    by (auto simp: intercept_entry_def g3_def Let_def sandbox_run_def after_run_def)
  have "handleIntercept X r g = launch X r ?a ?tool ?script (g\<lparr>gw_validator := v'\<rparr>)"
    by (rule intercept_launches [OF assms(1)])
  then obtain state detail where "g' = emit (NewSandboxLaunchEvent (gx_ms X 2) ?a ?tool pid state detail) g4"
    using assms(2) run by (cases res) (auto simp: launch_def Let_def g3_def)
  then have "g' = answer_run X (Some (?a, ?tool)) pid state detail
      (?e\<lparr>gw_ebpf := after_run X (sandbox_run X ?script g), gw_runsc := so_runsc (sandbox_run X ?script g)\<rparr>)"
    by (simp add: answer_run_def g4)
  then show ?thesis by blast
qed

lemma playground_alone:
  assumes "play_authorised X r g script v'" and "handlePlaygroundRun X r g = (g', status, resp, tr)"
  shows "g' = answer_run X None 0 0 []
     ((playground_entry v' g)\<lparr>gw_ebpf := after_run X (sandbox_run X script g), gw_runsc := so_runsc (sandbox_run X script g)\<rparr>)"
proof -
  let ?g = "g\<lparr>gw_validator := v', gw_VerifiedSignatures := gw_VerifiedSignatures g + 1\<rparr>"
  obtain g4 pid res t where run: "run_sandbox X script ?g = (g4, pid, res, t)" by (metis prod_cases4)
  have "g' = g4" using assms run by (auto simp: play_authorised_def handlePlaygroundRun_def Let_def split: sum.splits)
  moreover have "g4 = answer_run X None 0 0 []
     ((playground_entry v' g)\<lparr>gw_ebpf := after_run X (sandbox_run X script g), gw_runsc := so_runsc (sandbox_run X script g)\<rparr>)"
    using run by (auto simp: run_sandbox_def playground_entry_def answer_run_def Let_def sandbox_run_def after_run_def)
  ultimately show ?thesis by simp
qed

text \<open>Pids of containers fit; a request nobody is ahead of meets no busy pid.\<close>

definition small_pids :: "'pk gateway_env \<Rightarrow> bool" where
  "small_pids X \<longleftrightarrow> (\<forall>script g. run_pid X script g < 2 ^ 31)"

definition all_answered :: "'pk task list \<Rightarrow> bool" where
  "all_answered ts \<longleftrightarrow> (\<forall>t \<in> set ts. tk_phase t = Answered)"

lemma answered_free: "all_answered ts \<Longrightarrow> tk_phase t = Starting \<Longrightarrow> held_pids (ts @ [t]) = {}"
  by (force simp: all_answered_def held_pids_def)

lemma handle_schedule:
  assumes "handle p X r g = (g', status, resp, tr)" and "ok X" and "small_pids X" and "all_answered ts"
  shows "\<exists>us. all_answered (ts @ us) \<and> hub_reach held_pids ok (g, ts) (g', ts @ us)"
proof (cases "\<exists>script rep h. hub_step held_pids ok (g, ts)
      (h, ts @ [\<lparr> tk_env = X, tk_script = script, tk_report = rep, tk_phase = Starting \<rparr>])
    \<and> sandbox_run X script h = sandbox_run X script g
    \<and> (\<exists>pid state detail. g' = answer_run X rep pid state detail
        (h\<lparr>gw_ebpf := after_run X (sandbox_run X script g), gw_runsc := so_runsc (sandbox_run X script g)\<rparr>))")
  case True
  then obtain script rep h pid state detail where
    s: "hub_step held_pids ok (g, ts) (h, ts @ [\<lparr> tk_env = X, tk_script = script, tk_report = rep, tk_phase = Starting \<rparr>])"
    and out: "sandbox_run X script h = sandbox_run X script g"
    and g': "g' = answer_run X rep pid state detail
        (h\<lparr>gw_ebpf := after_run X (sandbox_run X script g), gw_runsc := so_runsc (sandbox_run X script g)\<rparr>)" by blast
  let ?t = "\<lparr> tk_env = X, tk_script = script, tk_report = rep, tk_phase = Answered \<rparr>"
  have "run_pid X script h < 2 ^ 31" using assms(3) by (simp add: small_pids_def)
  moreover have "run_pid X script h \<notin> held_pids (ts @ [?t\<lparr>tk_phase := Starting\<rparr>])"
    using answered_free [OF assms(4), of "?t\<lparr>tk_phase := Starting\<rparr>"] by simp
  ultimately have "hub_reach held_pids ok
      (h, ts @ [\<lparr> tk_env = X, tk_script = script, tk_report = rep, tk_phase = Starting \<rparr>]) (g', ts @ [?t])"
    using run_alone [of X script h held_pids ts rep ok pid state detail] unfolding out g' by simp
  from hub_reach_trans [OF this hub_reach_one [OF s]] assms(4) show ?thesis
    by (intro exI [of _ "[?t]"]) (simp add: all_answered_def)
next
  case no: False
  have "hub_step held_pids ok (g, ts) (g', ts)"
  proof (cases p)
    case Intercept
    then have h: "handleIntercept X r g = (g', status, resp, tr)" using assms(1) by simp
    show ?thesis
    proof (cases "\<exists>req manifest v'. authorised X r g req manifest v'")
      case True
      then obtain req manifest v' where a: "authorised X r g req manifest v'" by blast
      have "sandbox_run X s (intercept_entry X r (agent_of req) (ms_ToolName manifest) v' g) = sandbox_run X s g" for s
        by (simp add: intercept_entry_def sandbox_run_def Let_def)
      with no hub_step.intercept [where busy = held_pids and ok = ok, OF a assms(2), of ts] intercept_alone [OF a h]
      show ?thesis by blast
    next
      case False
      then show ?thesis by (rule hub_step.refuse_intercept [OF _ h])
    qed
  next
    case PlaygroundRun
    then have h: "handlePlaygroundRun X r g = (g', status, resp, tr)" using assms(1) by simp
    show ?thesis
    proof (cases "\<exists>script v'. play_authorised X r g script v'")
      case True
      then obtain script v' where a: "play_authorised X r g script v'" by blast
      have "sandbox_run X s (playground_entry v' g) = sandbox_run X s g" for s
        by (simp add: playground_entry_def sandbox_run_def)
      with no hub_step.playground [where busy = held_pids and ok = ok, OF a assms(2), of ts] playground_alone [OF a h]
      show ?thesis by blast
    next
      case False
      then show ?thesis by (rule hub_step.refuse_playground [OF _ h])
    qed
  qed
  from hub_reach_one [OF this] assms(4) show ?thesis by (intro exI [of _ "[]"]) simp
qed

lemma serve_schedule:
  "serve cs g = (g', trs) \<Longrightarrow> \<forall>(p, X, r) \<in> set cs. ok X \<and> small_pids X \<Longrightarrow> all_answered ts \<Longrightarrow>
     \<exists>us. all_answered (ts @ us) \<and> hub_reach held_pids ok (g, ts) (g', ts @ us)"
proof (induction cs g arbitrary: g' trs ts rule: serve.induct)
  case (1 g)
  then show ?case by (intro exI [of _ "[]"]) (auto intro: hub_reach.here)
next
  case (2 p X r cs g)
  obtain g1 st resp tr where h: "handle p X r g = (g1, st, resp, tr)" by (metis prod_cases4)
  obtain g2 trs' where s: "serve cs g1 = (g2, trs')" by fastforce
  have e: "g' = g2" using 2(2) h s by (simp add: Let_def)
  obtain us where us: "all_answered (ts @ us)" "hub_reach held_pids ok (g, ts) (g1, ts @ us)"
    using handle_schedule [OF h _ _ 2(4), of ok] 2(3) by auto
  have "\<forall>(p, X, r) \<in> set cs. ok X \<and> small_pids X" using 2(3) by simp
  from 2(1) [OF h [symmetric] HOL.refl HOL.refl HOL.refl s this us(1)]
  obtain vs where "all_answered ((ts @ us) @ vs)" "hub_reach held_pids ok (g1, ts @ us) (g2, (ts @ us) @ vs)" by blast
  with hub_reach_trans [OF this(2) us(2)] show ?case unfolding e by (intro exI [of _ "us @ vs"]) simp
qed


subsection \<open>Lemmas: the invariant of every interleaving\<close>

lemma small_pid_inj:
  "0 < p \<Longrightarrow> p < 2 ^ 31 \<Longrightarrow> 0 < q \<Longrightarrow> q < 2 ^ 31 \<Longrightarrow> (word_of_int p :: uint32) = word_of_int q \<longleftrightarrow> p = q"
  by (simp add: word_of_int_eq_iff take_bit_int_eq_self)

definition phases :: "'pk task list \<Rightarrow> phase list" where
  "phases ts = map tk_phase ts"

lemma phases_simps [simp]:
  "phases (ts @ [t]) = phases ts @ [tk_phase t]" "phases (ts[i := t]) = (phases ts)[i := tk_phase t]"
  "length (phases ts) = length ts" "i < length ts \<Longrightarrow> phases ts ! i = tk_phase (ts ! i)"
  by (simp_all add: phases_def map_update)

definition in_flight :: "phase list \<Rightarrow> nat" where
  "in_flight ps = sum_list (map (\<lambda>ph. if ph = Answered then 0 else 1) ps)"

lemma in_flight_update:
  "i < length ps \<Longrightarrow> in_flight (ps[i := ph]) + (if ps ! i = Answered then 0 else 1)
     = in_flight ps + (if ph = Answered then 0 else 1)"
proof (induction ps arbitrary: i)
  case Nil
  then show ?case by simp
next
  case (Cons q ps)
  then show ?case by (cases i) (auto simp: in_flight_def)
qed

text \<open>Request \<open>i\<close> holds \<open>pid\<close>; its container runs and the hook has succeeded.\<close>

definition holds :: "phase list \<Rightarrow> nat \<Rightarrow> int \<Rightarrow> bool" where
  "holds ps i pid \<longleftrightarrow> i < length ps \<and> held_pid (ps ! i) = Some pid"

definition secured :: "phase list \<Rightarrow> nat \<Rightarrow> int \<Rightarrow> bool" where
  "secured ps i pid \<longleftrightarrow> i < length ps \<and> ps ! i = Running pid True"

lemma holds_simps [simp]:
  "holds [] i pid \<longleftrightarrow> False" "holds (ps @ [Starting]) i pid \<longleftrightarrow> holds ps i pid"
  "holds (ps[j := ph]) i pid \<longleftrightarrow> (if i = j then j < length ps \<and> held_pid ph = Some pid else holds ps i pid)"
  by (auto simp: holds_def nth_append less_Suc_eq)

lemma secured_simps [simp]:
  "secured [] i pid \<longleftrightarrow> False" "secured (ps @ [Starting]) i pid \<longleftrightarrow> secured ps i pid"
  "secured (ps[j := ph]) i pid \<longleftrightarrow> (if i = j then j < length ps \<and> ph = Running pid True else secured ps i pid)"
  by (auto simp: secured_def nth_append less_Suc_eq)

lemma secured_holds: "secured ps i pid \<Longrightarrow> holds ps i pid"
  by (simp add: secured_def holds_def)

lemma held_pids_iff: "pid \<in> held_pids ts \<longleftrightarrow> (\<exists>i. holds (phases ts) i pid)"
proof
  assume "pid \<in> held_pids ts"
  then obtain t where "t \<in> set ts" "held_pid (tk_phase t) = Some pid" by (auto simp: held_pids_def)
  then obtain i where "i < length ts" "held_pid (tk_phase (ts ! i)) = Some pid" by (auto simp: in_set_conv_nth)
  then show "\<exists>i. holds (phases ts) i pid" by (auto simp: holds_def)
next
  assume "\<exists>i. holds (phases ts) i pid"
  then obtain i where "i < length ts" "held_pid (tk_phase (ts ! i)) = Some pid" by (auto simp: holds_def)
  then show "pid \<in> held_pids ts" by (auto simp: held_pids_def intro!: bexI [of _ "ts ! i"])
qed

text \<open>
  Held pids are small and belong to one request each; a container whose hook succeeded is locked; what is
  locked was locked at first or is held, if no removal fails.
\<close>

definition locks_ok :: "bool \<Rightarrow> uint32 set \<Rightarrow> uint32 set \<Rightarrow> phase list \<Rightarrow> bool" where
  "locks_ok clean L0 L ps \<longleftrightarrow>
     (\<forall>i pid. holds ps i pid \<longrightarrow> 0 < pid \<and> pid < 2 ^ 31)
     \<and> (\<forall>i j pid. holds ps i pid \<longrightarrow> holds ps j pid \<longrightarrow> i = j)
     \<and> (\<forall>i pid. secured ps i pid \<longrightarrow> word_of_int pid \<in> L)
     \<and> (clean \<longrightarrow> (\<forall>w \<in> L. w \<in> L0 \<or> (\<exists>i pid. holds ps i pid \<and> w = word_of_int pid)))"

lemma locks_begin: "locks_ok clean L0 L ps \<Longrightarrow> locks_ok clean L0 L (ps @ [Starting])"
  unfolding locks_ok_def by simp

text \<open>A phase that holds the same pid, or a new one, without the lock.\<close>

lemma locks_same:
  assumes "locks_ok clean L0 L ps" and "i < length ps" and "held_pid ph = held_pid (ps ! i)"
    and "\<forall>pid. ph \<noteq> Running pid True"
  shows "locks_ok clean L0 L (ps[i := ph])"
proof -
  have h: "holds (ps[i := ph]) j pid \<longleftrightarrow> holds ps j pid" for j pid
    using assms(2,3) by (auto simp: holds_def nth_list_update)
  have s: "secured (ps[i := ph]) j pid \<Longrightarrow> secured ps j pid" for j pid
    using assms(2,4) by (auto split: if_splits)
  from assms(1) s show ?thesis unfolding locks_ok_def h by blast
qed

lemma locks_new:
  assumes "locks_ok clean L0 L ps" and "i < length ps" and "held_pid (ps ! i) = None"
    and "0 < pid" "pid < 2 ^ 31" and "\<forall>j. \<not> holds ps j pid"
  shows "locks_ok clean L0 L (ps[i := Hooking pid])"
proof -
  have n: "\<not> holds ps i q" for q using assms(3) by (simp add: holds_def)
  have h: "holds (ps[i := Hooking pid]) j q \<longleftrightarrow> (if j = i then q = pid else holds ps j q)" for j q
    using assms(2) by auto
  have s: "secured (ps[i := Hooking pid]) j q \<Longrightarrow> secured ps j q" for j q by (auto split: if_splits)
  have more: "holds ps j q \<Longrightarrow> if j = i then q = pid else holds ps j q" for j q using n by auto
  have one: "i1 = i2" if "if i1 = i then q = pid else holds ps i1 q" "if i2 = i then q = pid else holds ps i2 q" for i1 i2 q
    using that assms(1,6) unfolding locks_ok_def by (metis (full_types))
  have small: "0 < q \<and> q < 2 ^ 31" if "if j = i then q = pid else holds ps j q" for j q
    using that assms(1,4,5) unfolding locks_ok_def by (metis (full_types))
  show ?thesis unfolding locks_ok_def h
    using one small s more assms(1) unfolding locks_ok_def by blast
qed

text \<open>The hook: with its pid locked or, after an error, with nothing locked.\<close>

lemma locks_hook:
  assumes "locks_ok clean L0 L ps" and "i < length ps" and "ps ! i = Hooking pid"
  shows "locks_ok clean L0 (insert (word_of_int pid) L) (ps[i := Running pid True])"
    and "locks_ok clean L0 L (ps[i := Running pid False])"
proof -
  have h: "holds (ps[i := Running pid b]) j q \<longleftrightarrow> holds ps j q" for j q b
    using assms(2,3) by (auto simp: holds_def nth_list_update)
  have s: "secured (ps[i := Running pid b]) j q \<Longrightarrow> j = i \<and> q = pid \<and> b \<or> secured ps j q" for j q b
    by (auto split: if_splits)
  have own: "holds ps i pid" using assms(2,3) by (simp add: holds_def)
  show "locks_ok clean L0 (insert (word_of_int pid) L) (ps[i := Running pid True])"
    using assms(1) own s unfolding locks_ok_def h by blast
  show "locks_ok clean L0 L (ps[i := Running pid False])"
    using assms(1) s unfolding locks_ok_def h by blast
qed

text \<open>The removal: of this request's pid and of no other's.\<close>

lemma locks_remove:
  assumes "locks_ok clean L0 L ps" and "i < length ps" and "ps ! i = Leaving pid"
    and "L' = L - {word_of_int pid} \<or> L' = L \<and> \<not> clean"
  shows "locks_ok clean L0 L' (ps[i := Closing])"
proof -
  have own: "holds ps i pid" using assms(2,3) by (simp add: holds_def)
  have h: "holds (ps[i := Closing]) j q \<longleftrightarrow> j \<noteq> i \<and> holds ps j q" for j q by simp
  have not_i: "\<not> secured ps i q" for q using assms(3) by (simp add: secured_def)
  then have s: "secured (ps[i := Closing]) j q \<longleftrightarrow> secured ps j q" for j q by auto
  have "word_of_int q \<in> L'" if q: "secured ps j q" for j q
  proof -
    have "j \<noteq> i" using q not_i by blast
    moreover have "holds ps j q" using q by (rule secured_holds)
    ultimately have "q \<noteq> pid" using assms(1) own unfolding locks_ok_def by blast
    then have "(word_of_int q :: uint32) \<noteq> word_of_int pid"
      using small_pid_inj [of q pid] assms(1) own \<open>holds ps j q\<close> unfolding locks_ok_def by blast
    moreover have "word_of_int q \<in> L" using assms(1) q unfolding locks_ok_def by blast
    ultimately show ?thesis using assms(4) by blast
  qed
  moreover have "w \<in> L0 \<or> (\<exists>j q. (j \<noteq> i \<and> holds ps j q) \<and> w = word_of_int q)" if c: clean and w: "w \<in> L'" for w
  proof -
    have "w \<in> L" and "w \<noteq> word_of_int pid" using assms(4) c w by auto
    then consider "w \<in> L0" | j q where "holds ps j q" "w = word_of_int q"
      using assms(1) c unfolding locks_ok_def by blast
    then show ?thesis
    proof cases
      case 2
      have "j \<noteq> i" using 2 \<open>w \<noteq> word_of_int pid\<close> assms(3) by (auto simp: holds_def)
      with 2 show ?thesis by blast
    qed simp
  qed
  ultimately show ?thesis using assms(1) unfolding locks_ok_def h s by blast
qed

text \<open>A refusal touches neither the gauge nor the controller.\<close>

lemma refused_intercept:
  assumes "\<not> (\<exists>req manifest v'. authorised X r g req manifest v')" and "handleIntercept X r g = (g', status, resp, tr)"
  shows "gw_ebpf g' = gw_ebpf g \<and> gw_ActiveSandboxes g' = gw_ActiveSandboxes g"
proof (cases "readable r")
  case False
  from intercept_unreadable [OF this, of X g] assms(2) show ?thesis by auto
next
  case True
  from intercept_refuses [OF True assms(1)] assms(2) show ?thesis by (auto simp: answer_fail_def)
qed

lemma refused_playground:
  assumes "\<not> (\<exists>script v'. play_authorised X r g script v')" and "handlePlaygroundRun X r g = (g', status, resp, tr)"
  shows "gw_ebpf g' = gw_ebpf g \<and> gw_ActiveSandboxes g' = gw_ActiveSandboxes g"
  using assms unfolding play_authorised_def handlePlaygroundRun_def answer_plain_def Let_def
  by (auto simp: scrubInput_no_variables split: if_splits option.splits sum.splits prod.splits)

lemma register_hook_none:
  assumes "ebpf_up c" and "register_hook E update pid c = (c', err)"
  shows "err = None \<longleftrightarrow> update = None"
  using assms(2) init_up [OF assms(1), of E] assms(1)
  by (auto simp: register_hook_def RegisterSandboxPID_def ebpf_up_def split: option.splits)

definition hub_inv :: "('pk gateway_env \<Rightarrow> bool) \<Rightarrow> 'pk gateway \<Rightarrow> 'pk hub \<Rightarrow> bool" where
  "hub_inv ok g0 s \<longleftrightarrow>
     ebpf_up (gw_ebpf (fst s))
     \<and> gw_ActiveSandboxes (fst s) = gw_ActiveSandboxes g0 + of_nat (in_flight (phases (snd s)))
     \<and> (\<forall>t \<in> set (snd s). ok (tk_env t))
     \<and> locks_ok (\<forall>X. ok X \<longrightarrow> gx_delete X = None) (locked_pids (gw_ebpf g0)) (locked_pids (gw_ebpf (fst s))) (phases (snd s))"

lemma hub_inv_start: "ebpf_up (gw_ebpf g) \<Longrightarrow> hub_inv ok g (g, [])"
  by (simp add: hub_inv_def in_flight_def phases_def locks_ok_def)

text \<open>A step that changes the phase of one request, and leaves the gauge alone.\<close>

lemma hub_inv_phase:
  assumes "hub_inv ok g0 (g, ts)" and "i < length ts" and "tk_phase (ts ! i) \<noteq> Answered" and "ph \<noteq> Answered"
    and "ebpf_up (gw_ebpf g')" and "gw_ActiveSandboxes g' = gw_ActiveSandboxes g"
    and "locks_ok (\<forall>X. ok X \<longrightarrow> gx_delete X = None) (locked_pids (gw_ebpf g0)) (locked_pids (gw_ebpf g')) ((phases ts)[i := ph])"
  shows "hub_inv ok g0 (g', ts[i := (ts ! i)\<lparr>tk_phase := ph\<rparr>])"
proof -
  have "in_flight ((phases ts)[i := ph]) = in_flight (phases ts)"
    using in_flight_update [of i "phases ts" ph] assms(2-4) by simp
  moreover have "ok (tk_env (ts ! i))" using assms(1,2) by (auto simp: hub_inv_def)
  ultimately show ?thesis
    using assms by (auto simp: hub_inv_def dest!: set_update_subset_insert [THEN subsetD])
qed

lemma hub_step_inv:
  assumes "hub_step held_pids ok s s'" and "hub_inv ok g0 s"
  shows "hub_inv ok g0 s'"
  using assms(1)
proof cases
  case (refuse_intercept X r g g' status resp tr ts)
  then show ?thesis using refused_intercept [OF refuse_intercept(3,4)] assms(2) by (simp add: hub_inv_def)
next
  case (refuse_playground X r g g' status resp tr ts)
  then show ?thesis using refused_playground [OF refuse_playground(3,4)] assms(2) by (simp add: hub_inv_def)
next
  case (intercept X r g req manifest v' ts)
  then show ?thesis using assms(2) locks_begin
    by (auto simp: hub_inv_def intercept_entry_def Let_def in_flight_def)
next
  case (playground X r g script v' ts)
  then show ?thesis using assms(2) locks_begin by (auto simp: hub_inv_def playground_entry_def in_flight_def)
next
  case (start i ts out g pid)
  have inv: "hub_inv ok g0 (g, ts)" using assms(2) start(1) by simp
  let ?L = "locks_ok (\<forall>X. ok X \<longrightarrow> gx_delete X = None) (locked_pids (gw_ebpf g0)) (locked_pids (gw_ebpf g))"
  have l: "?L (phases ts)" using inv by (simp add: hub_inv_def)
  have "?L ((phases ts)[i := if pid > 0 then Hooking pid else Closing])"
    using locks_same [OF l, of i Closing] locks_new [OF l, of i pid] start(3-8)
    by (auto simp: held_pids_iff)
  then show ?thesis unfolding start(2) using inv start(3,4)
    by (intro hub_inv_phase [OF inv]) (auto simp: hub_inv_def)
next
  case (hook i ts pid X g c err)
  have inv: "hub_inv ok g0 (g, ts)" using assms(2) hook(1) by simp
  have up: "ebpf_up (gw_ebpf g)" using inv by (simp add: hub_inv_def)
  let ?L = "locks_ok (\<forall>X. ok X \<longrightarrow> gx_delete X = None) (locked_pids (gw_ebpf g0))"
  have l: "?L (locked_pids (gw_ebpf g)) (phases ts)" using inv by (simp add: hub_inv_def)
  have ph: "i < length (phases ts)" "phases ts ! i = Hooking pid" using hook(3,4) by simp_all
  note r = register_hook_up [OF up, of "gx_bpf X" "gx_update X" pid, unfolded hook(6) fst_conv]
  have "?L (locked_pids c) ((phases ts)[i := Running pid (err = None)])"
    using locks_hook [OF l ph] r(2) register_hook_none [OF up hook(6)] by (cases err) auto
  then show ?thesis unfolding hook(2) using hook(3,4) r(1) by (intro hub_inv_phase [OF inv]) simp_all
next
  case (leave i ts pid locked g)
  have inv: "hub_inv ok g0 (g, ts)" using assms(2) leave(1) by simp
  then show ?thesis unfolding leave(2) using leave(3,4)
    by (intro hub_inv_phase [OF inv] locks_same) (simp_all add: hub_inv_def)
next
  case (remove i ts pid X g)
  have inv: "hub_inv ok g0 (g, ts)" using assms(2) remove(1) by simp
  have up: "ebpf_up (gw_ebpf g)" and X: "ok X" using inv remove(3,5) by (auto simp: hub_inv_def)
  let ?c = "fst (RemoveSandboxPID (gx_bpf X) (gx_delete X) pid (gw_ebpf g))"
  let ?L = "locks_ok (\<forall>X. ok X \<longrightarrow> gx_delete X = None) (locked_pids (gw_ebpf g0))"
  have r: "ebpf_up ?c" "locked_pids ?c =
      (if gx_delete X = None then locked_pids (gw_ebpf g) - {word_of_int pid} else locked_pids (gw_ebpf g))"
    using reg_exec_spec [OF up, of "gx_bpf X" "Rem pid (gx_delete X)"] by simp_all
  have "?L (locked_pids (gw_ebpf g)) (phases ts)" using inv by (simp add: hub_inv_def)
  then have "?L (locked_pids ?c) ((phases ts)[i := Closing])"
    using remove(3,4) X r(2) by (intro locks_remove) auto
  then show ?thesis unfolding remove(2) using remove(3,4) r(1) by (intro hub_inv_phase [OF inv]) simp_all
next
  case (answer i ts g pid state detail)
  have inv: "hub_inv ok g0 (g, ts)" using assms(2) answer(1) by simp
  have f: "gw_ebpf (answer_run X rep pid state detail g) = gw_ebpf g"
    "gw_ActiveSandboxes (answer_run X rep pid state detail g) = gw_ActiveSandboxes g - 1" for X rep
    by (simp_all add: answer_run_def Let_def split: option.split prod.split)
  have n: "in_flight (phases ts) = Suc (in_flight ((phases ts)[i := Answered]))"
    using in_flight_update [of i "phases ts" Answered] answer(3,4) by simp
  have "ok (tk_env (ts ! i))" using inv answer(3) by (auto simp: hub_inv_def)
  moreover have "locks_ok (\<forall>X. ok X \<longrightarrow> gx_delete X = None) (locked_pids (gw_ebpf g0)) (locked_pids (gw_ebpf g))
      ((phases ts)[i := Answered])"
    using inv answer(3,4) by (intro locks_same) (simp_all add: hub_inv_def)
  ultimately show ?thesis unfolding answer(2) using inv n
    by (auto simp: hub_inv_def f dest!: set_update_subset_insert [THEN subsetD])
next
  case (tidy X g ts)
  then show ?thesis using assms(2) by (simp add: hub_inv_def)
qed

lemma hub_reach_inv: "hub_reach held_pids ok s0 s \<Longrightarrow> hub_inv ok g0 s0 \<Longrightarrow> hub_inv ok g0 s"
  by (induction rule: hub_reach.induct) (auto intro: hub_step_inv)


subsection \<open>Lemmas: two requests on the example host\<close>

lemma run_pid_started:
  assumes "started (gx_sandbox X) (IsActive (gw_ebpf g)) (gw_sandbox g) script (gw_runsc g) = Some (dir, args, cid)"
    and "container_pid (gx_sandbox X) cid = Some pid"
  shows "run_pid X script g = pid"
proof -
  let ?hook = "\<lambda>pid (c, targetPID :: int). let (c', e) = register_hook (gx_bpf X) (gx_update X) pid c in ((c', pid), e)"
  let ?active = "\<lambda>s :: world ebpf \<times> int. IsActive (fst s)"
  let ?s = "(gw_ebpf g, 0 :: int)"
  obtain mid s' res where m: "supervise (gx_sandbox X) (gx_U X) (Some ?hook) cid ?s = (mid, s', res)"
    by (cases "supervise (gx_sandbox X) (gx_U X) (Some ?hook) cid ?s")
  obtain c' err where h: "register_hook (gx_bpf X) (gx_update X) pid (gw_ebpf g) = (c', err)" by fastforce
  have "s' = (c', pid)"
    using supervise_pid [OF assms(2), of "gx_U X" ?hook ?s] m h by (cases err; simp; auto)
  moreover have st: "started (gx_sandbox X) (?active ?s) (gw_sandbox g) script (gw_runsc g) = Some (dir, args, cid)"
    using assms(1) by simp
  note e = Execute_started(1) [where active = ?active, OF st m]
  have "so_state (sandbox_run X script g) = s'" unfolding sandbox_run_def e by simp
  ultimately show ?thesis by simp
qed

definition late_genv :: "unit gateway_env" where
  "late_genv = demo_genv\<lparr>gx_unix1 := 1400, gx_unix2 := 1400, gx_now := 1400 * second\<rparr>"

lemma late_genv_simps [simp]:
  "gx_sandbox late_genv = demo_sandbox" "gx_bpf late_genv = demo_bpf" "gx_update late_genv = None"
  "gx_delete late_genv = None" "gx_sandbox demo_genv = demo_sandbox" "gx_bpf demo_genv = demo_bpf"
  "gx_update demo_genv = None" "gx_delete demo_genv = None"
  by (simp_all add: late_genv_def demo_genv_def)

lemma demo_run_pid: "gx_sandbox X = demo_sandbox \<Longrightarrow> run_pid X script g = 4242"
proof -
  assume X: "gx_sandbox X = demo_sandbox"
  have "\<exists>args. started demo_sandbox active sm code rc = Some (''/tmp/s'', args, ''c0ffee'')" for active sm code rc
    by (simp add: started_def Let_def demo_sandbox_def prepare_scratch_def demo_sandbox_trims)
  then obtain args where "started (gx_sandbox X) (IsActive (gw_ebpf g)) (gw_sandbox g) script (gw_runsc g)
      = Some (''/tmp/s'', args, ''c0ffee'')" using X by metis
  then show "run_pid X script g = 4242" by (rule run_pid_started) (simp add: X demo_sandbox_facts)
qed

lemma authorised_cong: "gw_validator g = gw_validator h \<Longrightarrow> authorised X r g = authorised X r h"
  by (intro ext) (simp add: authorised_def)

text \<open>The same request again after its nonce has expired, inside the drift window.\<close>

lemma late_authorised:
  assumes "authorised demo_genv demo_post g demo_intercept \<lparr> ms_ToolName = ''t'', ms_Nonce = ''n'', ms_Timestamp = 1000 \<rparr> v'"
    and "gw_validator g = demo_validator" and "gw_validator h = v'"
  shows "\<exists>v''. authorised late_genv demo_post h demo_intercept
     \<lparr> ms_ToolName = ''t'', ms_Nonce = ''n'', ms_Timestamp = 1000 \<rparr> v''"
proof -
  let ?V = "\<lambda>t. Verify (\<lambda>m. m) (\<lambda>pk d r s. True) t (ir_Manifest demo_intercept) (ir_Signature demo_intercept) ''n''"
  have v: "?V (1000 * second) demo_validator = (None, v')"
    using assms(1,2) by (simp add: authorised_def demo_genv_def)
  have c: "pv_nonceCache v' = snd (nonce_Register (1000 * second) ''n'' (pv_nonceCache demo_validator))"
    and k: "pv_pubKey v' = pv_pubKey demo_validator"
    using Verify_cache [of "\<lambda>m. m" "\<lambda>pk d r s. True" "1000 * second" _ _ "''n''" demo_validator] v
      Verify_pubKey [of "\<lambda>m. m" "\<lambda>pk d r s. True" "1000 * second" _ _ "''n''" demo_validator]
    by (metis snd_conv)+
  have f: "fst (nonce_Register (1000 * second) ''n'' (pv_nonceCache demo_validator))"
    by (simp add: Register_fresh_iff nonce_live_def demo_validator_def NewNonceCache_def gm_get_def)
  have "nonce_wf (pv_nonceCache demo_validator)"
    by (simp add: demo_validator_def NewNonceCache_def nonce_wf_def gomap_simps)
  then have "gm_get (nc_nonces (pv_nonceCache v')) ''n'' = Some (1000 * second + 5 * minute)"
    using f by (simp add: c Register_get demo_validator_def NewNonceCache_def)
  then have late: "fst (nonce_Register (1400 * second) ''n'' (pv_nonceCache v'))"
    by (simp add: Register_fresh_iff nonce_live_def second_def minute_def)
  have "fst (?V (1400 * second) v') = fst (?V (1000 * second) demo_validator)"
    unfolding Verify_fresh [OF late] Verify_fresh [OF f] k by (rule HOL.refl)
  then have "fst (?V (1400 * second) v') = None" unfolding v by simp
  then obtain v'' where "?V (1400 * second) v' = (None, v'')" by (metis prod.collapse)
  then show ?thesis
    using assms(1,3) by (auto simp: authorised_def late_genv_def demo_genv_def drift_exceeded_def)
qed

definition demo_hub :: "unit gateway" where
  "demo_hub = (armed undefined)\<lparr>gw_ebpf := ebpf_start\<lparr>kc_initOnce := True, kc_lockedMap := Some []\<rparr>\<rparr>"

lemma demo_hub_up: "ebpf_up (gw_ebpf demo_hub)" "locked_pids (gw_ebpf demo_hub) = {}"
  by (simp_all add: demo_hub_def ebpf_up_def ebpf_start_def gomap_simps locked_pids_def gm_get_dom)

lemma demo_hub_authorised:
  "\<exists>v'. authorised demo_genv demo_post demo_hub demo_intercept
     \<lparr> ms_ToolName = ''t'', ms_Nonce = ''n'', ms_Timestamp = 1000 \<rparr> v'"
proof -
  have "gw_validator demo_hub = gw_validator (armed undefined)" by (simp add: demo_hub_def)
  from authorised_cong [OF this] show ?thesis using demo_authorised [of undefined] by simp
qed

text \<open>Admit a request, start its container, call the hook.\<close>

lemma demo_admits:
  assumes "authorised X r g req manifest v'" and "gx_sandbox X = demo_sandbox" and "4242 \<notin> busy (ts @ [t])"
    and "t = \<lparr> tk_env = X, tk_script = ir_Script req, tk_report = Some (agent_of req, ms_ToolName manifest), tk_phase = Starting \<rparr>"
    and "ebpf_up (gw_ebpf g)" and "gx_update X = None"
  shows "\<exists>g'. gw_validator g' = v' \<and> ebpf_up (gw_ebpf g')
     \<and> hub_reach busy (\<lambda>X. True) (g, ts) (g', ts @ [t\<lparr>tk_phase := Running 4242 True\<rparr>])"
proof -
  define us where "us ph = ts @ [t\<lparr>tk_phase := ph\<rparr>]" for ph
  let ?i = "length ts"
  have at: "?i < length (us ph)" "us ph ! ?i = t\<lparr>tk_phase := ph\<rparr>" "tk_phase (us ph ! ?i) = ph"
    "(us ph)[?i := (us ph ! ?i)\<lparr>tk_phase := ph'\<rparr>] = us ph'" for ph ph'
    by (simp_all add: us_def)
  have X: "tk_env (us ph ! ?i) = X" for ph by (simp add: at(2) assms(4))
  have t: "us Starting = ts @ [t]" by (simp add: us_def assms(4))
  define g1 where "g1 = intercept_entry X r (agent_of req) (ms_ToolName manifest) v' g"
  define out where "out = sandbox_run X (ir_Script req) g1"
  define g2 where "g2 = g1\<lparr>gw_runsc := so_runsc out\<rparr>"
  have 1: "hub_step busy (\<lambda>X. True) (g, ts) (g1, us Starting)"
    unfolding t g1_def assms(4) by (rule hub_step.intercept [OF assms(1)]) simp
  have pid: "snd (so_state out) = 4242" unfolding out_def by (rule demo_run_pid [OF assms(2)])
  have out: "out = sandbox_run (tk_env (us Starting ! ?i)) (tk_script (us Starting ! ?i)) g1"
    unfolding out_def X by (simp add: at(2) assms(4))
  have "(4242 :: int) \<notin> busy (us Starting)" using assms(3) by (simp add: t)
  from hub_step.start [where busy = busy and ok = "\<lambda>X. True",
      OF at(1) [of Starting] at(3) [of Starting] out pid [symmetric] this]
  have 2: "hub_step busy (\<lambda>X. True) (g1, us Starting) (g2, us (Hooking 4242))"
    unfolding at(4) by (simp add: g2_def)
  have e: "gw_ebpf g2 = gw_ebpf g" "gw_validator g2 = v'"
    by (simp_all add: g2_def g1_def intercept_entry_def Let_def)
  obtain c err where h: "register_hook (gx_bpf X) (gx_update X) 4242 (gw_ebpf g2) = (c, err)" by fastforce
  have n: "err = None" using register_hook_none [OF _ h] assms(5,6) e by simp
  have up: "ebpf_up c" using register_hook_up(1) [OF assms(5)] h e by (metis fst_conv)
  have 3: "hub_step busy (\<lambda>X. True) (g2, us (Hooking 4242)) (g2\<lparr>gw_ebpf := c\<rparr>, us (Running 4242 True))"
    using hub_step.hook [where busy = busy and ok = "\<lambda>X. True",
        OF at(1) [of "Hooking 4242"] at(3) [of "Hooking 4242"] X [of "Hooking 4242", symmetric] h] unfolding at(4) by (simp add: n)
  from hub_reach.next_step [OF hub_reach.next_step [OF hub_reach_one [OF 1] 2] 3] up e
  show ?thesis unfolding us_def by (intro exI [of _ "g2\<lparr>gw_ebpf := c\<rparr>"]) simp
qed


subsection \<open>Property: sequential service is one of the interleavings\<close>



subsection \<open>Property: concurrent requests are accounted for\<close>



subsection \<open>Property: a reused pid is unlocked under a running container\<close>

text \<open>
  C27: the race the removal has. A handler removes its pid after its container has ended, by number. When
  the kernel has given that number to a new container in the meantime, whose hook has locked it again, the
  removal unlocks the new container: it goes on running, on the bridge network, and is no longer enforced.
\<close>

theorem pid_reuse_unlocks:
  assumes "ebpf_up (gw_ebpf g)" and "i < length ts" and "j < length ts" and "i \<noteq> j"
    and "tk_phase (ts ! i) = Leaving pid" and "tk_phase (ts ! j) = Running pid True"
    and "gx_delete (tk_env (ts ! i)) = None"
  shows "\<exists>g' ts'. hub_step busy ok (g, ts) (g', ts')
     \<and> tk_phase (ts' ! j) = Running pid True \<and> word_of_int pid \<notin> locked_pids (gw_ebpf g')"
proof -
  let ?X = "tk_env (ts ! i)"
  let ?c = "fst (RemoveSandboxPID (gx_bpf ?X) (gx_delete ?X) pid (gw_ebpf g))"
  have "locked_pids ?c = locked_pids (gw_ebpf g) - {word_of_int pid}"
    using reg_exec_spec [OF assms(1), of "gx_bpf ?X" "Rem pid (gx_delete ?X)"] assms(7) by simp
  then have "word_of_int pid \<notin> locked_pids (gw_ebpf (g\<lparr>gw_ebpf := ?c\<rparr>))" by simp
  moreover have "tk_phase (ts[i := (ts ! i)\<lparr>tk_phase := Closing\<rparr>] ! j) = Running pid True" using assms(4,6) by simp
  ultimately show ?thesis using hub_step.remove [OF assms(2,5) HOL.refl] by blast
qed

text \<open>A state it applies to is reached: only the pids of running containers are busy.\<close>

theorem pid_reuse_unlocks_witness:
  "\<exists>g ts. hub_reach live_pids (\<lambda>X. True) (demo_hub, []) (g, ts)
     \<and> tk_phase (ts ! 1) = Running 4242 True \<and> 4242 \<notin> locked_pids (gw_ebpf g)"
proof -
  let ?m = "\<lparr> ms_ToolName = ''t'', ms_Nonce = ''n'', ms_Timestamp = 1000 \<rparr>"
  define tk where "tk X ph = \<lparr> tk_env = X, tk_script = ir_Script demo_intercept,
      tk_report = Some (agent_of demo_intercept, ms_ToolName ?m), tk_phase = ph \<rparr>" for X :: "unit gateway_env" and ph
  have tk: "(tk X ph)\<lparr>tk_phase := ph'\<rparr> = tk X ph'" "tk_phase (tk X ph) = ph" "tk_env (tk X ph) = X" for X ph ph'
    by (simp_all add: tk_def)
  have free: "4242 \<notin> live_pids ([] @ [tk demo_genv Starting])"
    "4242 \<notin> live_pids ([tk demo_genv (Leaving 4242)] @ [tk late_genv Starting])" by (simp_all add: live_pids_def tk)
  obtain v' where a: "authorised demo_genv demo_post demo_hub demo_intercept ?m v'" using demo_hub_authorised by blast
  from demo_admits [where busy = live_pids and ts = "[]" and t = "tk demo_genv Starting",
      OF a late_genv_simps(5) free(1) tk_def demo_hub_up(1) late_genv_simps(7)]
  obtain g1 where g1: "gw_validator g1 = v'" "ebpf_up (gw_ebpf g1)"
      "hub_reach live_pids (\<lambda>X. True) (demo_hub, []) (g1, [tk demo_genv (Running 4242 True)])"
    unfolding tk append_Nil by blast
  have "hub_step live_pids (\<lambda>X. True) (g1, [tk demo_genv (Running 4242 True)]) (g1, [tk demo_genv (Leaving 4242)])"
    using hub_step.leave [where i = 0 and ts = "[tk demo_genv (Running 4242 True)]" and pid = 4242] by (simp add: tk)
  note left = hub_reach.next_step [OF g1(3) this]
  have v: "gw_validator demo_hub = demo_validator" by (simp add: demo_hub_def armed_def)
  obtain v'' where b: "authorised late_genv demo_post g1 demo_intercept ?m v''"
    using late_authorised [OF a v g1(1)] by blast
  define ts where "ts = [tk demo_genv (Leaving 4242)] @ [tk late_genv (Running 4242 True)]"
  from demo_admits [where busy = live_pids and ts = "[tk demo_genv (Leaving 4242)]" and t = "tk late_genv Starting",
      OF b late_genv_simps(1) free(2) tk_def g1(2) late_genv_simps(3)]
  obtain g2 where g2: "ebpf_up (gw_ebpf g2)"
      "hub_reach live_pids (\<lambda>X. True) (g1, [tk demo_genv (Leaving 4242)]) (g2, ts)"
    unfolding tk ts_def by blast
  have r: "hub_reach live_pids (\<lambda>X. True) (demo_hub, []) (g2, ts)" by (rule hub_reach_trans [OF g2(2) left])
  have "0 < length ts" "1 < length ts" "(0 :: nat) \<noteq> 1" "tk_phase (ts ! 0) = Leaving 4242"
    "tk_phase (ts ! 1) = Running 4242 True" "gx_delete (tk_env (ts ! 0)) = None" by (simp_all add: ts_def tk)
  from pid_reuse_unlocks [where busy = live_pids and ok = "\<lambda>X. True", OF g2(1) this]
  obtain g3 ts' where s: "hub_step live_pids (\<lambda>X. True) (g2, ts) (g3, ts')"
    and p: "tk_phase (ts' ! 1) = Running 4242 True" "word_of_int 4242 \<notin> locked_pids (gw_ebpf g3)" by blast
  have "(4242 :: uint32) \<notin> locked_pids (gw_ebpf g3)" using p(2) by simp
  with hub_reach.next_step [OF r s] p(1) show ?thesis by blast
qed

end
