(* ===== verification/Startup.thy ===== *)
theory Startup
  imports Gateway
begin

text \<open>
  \<open>main\<close> of \<open>main.go\<close>: the order in which the components are built and wired, what ends the process
  and what is only a warning, and the deferred calls. Files, environment variables, the eBPF host and
  the decoders of keys and policies are the environment, \<open>boot_env\<close>. The goroutines \<open>main\<close> starts are
  the operations of their components; they are not run here.
\<close>

subsection \<open>The environment and the outcome\<close>

text \<open>\<open>bt_kill\<close> is also what the engine's deferred shutdown meets.\<close>

record 'pk boot_env =
  bt_siemURL :: string
  bt_siemToken :: string
  bt_hostname :: string
  bt_siemFile :: "string + dl_line list"
  bt_logFile :: "string + json list"
  bt_kill :: kill_env
  bt_bpf :: bpf_env
  bt_anti :: anti_env
  bt_sha256 :: "bytes \<Rightarrow> bytes"
  bt_maps :: "string + (bytes \<times> string option)"
  bt_exe :: exe_reading
  bt_publicKey :: "string + bytes"
  bt_pemDecode :: "bytes \<Rightarrow> bytes option"
  bt_parsePKIX :: "bytes \<Rightarrow> string + 'pk option"
  bt_privateKey :: "string + bytes"
  bt_parseEC :: "bytes \<Rightarrow> string + (bytes \<Rightarrow> string + bytes)"
  bt_policyYAML :: "bytes \<Rightarrow> string + PolicyFile"
  bt_policyFile :: fs_view
  bt_egressYAML :: "bytes \<Rightarrow> string + EgressPolicy"
  bt_egressFile :: fs_view

text \<open>Either the process has ended, with what is left of the controller, or the server listens.\<close>

datatype 'pk boot_outcome = Ended process "world ebpf" | Listening "'pk gateway"

definition new_process :: process where
  "new_process = \<lparr> pr_tel = \<lparr> gt_engine = None, gt_fallback = [] \<rparr>, pr_stderr = [], pr_exit = None \<rparr>"

fun open_error_text :: "unicode \<Rightarrow> open_error \<Rightarrow> string" where
  "open_error_text U (OpenFailed path e) = ''telemetry: failed opening local log '' @ go_quote U path @ '': '' @ e"

fun validator_error_text :: "validator_error \<Rightarrow> string" where
  "validator_error_text (KeyRead e) = ''failed to read public key PEM file: '' @ e"
| "validator_error_text KeyPEM = ''failed to parse PEM block containing public key''"
| "validator_error_text (KeyPKIX e) = ''failed to parse PKIX public key: '' @ e"
| "validator_error_text KeyNotECDSA = ''public key is not an ECDSA public key''"

subsection \<open>The modules\<close>

text \<open>A forwarder that fails to initialise is nil, like one that is not configured.\<close>

definition boot_engine :: "'pk boot_env \<Rightarrow> open_error + TelemetryEngine" where
  "boot_engine B =
     (let siemCfg = DefaultSIEMConfig (bt_siemURL B) (bt_siemToken B);
          forwarder = (case NewSIEMForwarder (bt_siemURL B) (bt_siemToken B) (bt_hostname B) (bt_siemFile B) siemCfg of
                         Inl _ \<Rightarrow> None | Inr f \<Rightarrow> f)
      in NewTelemetryEngine (bt_logFile B) DefaultEngineConfig forwarder)"

definition kill_callback :: "kill_env \<Rightarrow> string \<Rightarrow> (string, string) gomap \<Rightarrow> world \<Rightarrow> world" where
  "kill_callback E reason kctx = Trigger (E, reason, kctx)"

text \<open>The probes are tried only when the controller came up.\<close>

definition boot_ebpf :: "'pk boot_env \<Rightarrow> world ebpf \<times> init_error option" where
  "boot_ebpf B =
     (case InitNativeController (bt_bpf B)
             (SetKillSwitchCallback (Some (kill_callback (bt_kill B))) ebpf_start) of
        (c, Some e) \<Rightarrow> (c, Some e)
      | (c, None) \<Rightarrow> (fst (InitAntiTamperProbes (bt_anti B) c), None))"

definition boot_monitor :: "'pk boot_env \<Rightarrow> MemoryIntegrityMonitor option" where
  "boot_monitor B =
     (case NewMemoryIntegrityMonitor (bt_sha256 B) (bt_maps B) (bt_exe B) ''nexiscore-gateway'' TheEngine of
        Inl _ \<Rightarrow> None
      | Inr m \<Rightarrow> Some (snd (StartPeriodicCheck m)))"

definition boot_playground_key :: "'pk boot_env \<Rightarrow> (bytes \<Rightarrow> string + bytes) option" where
  "boot_playground_key B =
     (case bt_privateKey B of
        Inl _ \<Rightarrow> None
      | Inr raw \<Rightarrow>
     (case bt_pemDecode B raw of
        None \<Rightarrow> None
      | Some block \<Rightarrow>
     (case bt_parseEC B block of Inl _ \<Rightarrow> None | Inr key \<Rightarrow> Some key)))"

definition boot_egress :: "'pk boot_env \<Rightarrow> EgressProxy option" where
  "boot_egress B =
     (let U = ke_U (bt_kill B) in
      case NewAllowlistRouter U (bt_egressYAML B) ''egress_policy.yaml'' (bt_egressFile B) of
        Inl _ \<Rightarrow> None
      | Inr allow \<Rightarrow>
          Some (NewEgressProxy allow (NewDLPPipeline U) (boot_playground_key B) ''nexiscore-gateway''))"

subsection \<open>The deferred calls\<close>

text \<open>
  In reverse order: the monitor stops, the controller closes if it came up, the engine shuts down.
  \<open>os.Exit\<close>, and so \<open>log.Fatalf\<close>, skips them; a panic runs them.
\<close>

definition run_deferred :: "kill_env \<Rightarrow> init_error option \<Rightarrow> world ebpf \<Rightarrow> process \<Rightarrow> process \<times> world ebpf" where
  "run_deferred E initErr c p =
     (on_engine (engine_Shutdown (ke_U E) (ke_net E) (ke_clk E) (ke_drained E)) p,
      if initErr = None then CloseNativeController c else c)"

text \<open>\<open>len(agentPolicy.Routes())\<close> of a nil manager is a nil dereference.\<close>

definition boot_panic :: "'pk boot_env \<Rightarrow> init_error option \<Rightarrow> world ebpf \<Rightarrow> process \<Rightarrow> 'pk boot_outcome" where
  "boot_panic B initErr c p =
     (let (p', c') = run_deferred (bt_kill B) initErr c p in Ended (go_panic p') c')"

subsection \<open>\<open>main\<close>\<close>

definition boot :: "'pk boot_env \<Rightarrow> 'pk boot_outcome" where
  "boot B =
     (case boot_engine B of
        Inl e \<Rightarrow> Ended (log_Fatal (''Failed to initialise telemetry engine: ''
                   @ open_error_text (ke_U (bt_kill B)) e) new_process) ebpf_start
      | Inr engine \<Rightarrow>
     (let p = new_process\<lparr>pr_tel := SetGlobalEngine (pr_tel new_process) (Some engine)\<rparr>;
          ks = NewKillSwitch ''nexiscore-gateway'' TheEngine;
          (c, initErr) = boot_ebpf B;
          mem = boot_monitor B
      in case NewProvenanceValidator (bt_publicKey B) (bt_pemDecode B) (bt_parsePKIX B) (5 * minute) of
           Inl e \<Rightarrow> Ended (log_Fatal (''Failed to initialize Provenance Validator: '' @ validator_error_text e
                      @ '' (Please run key generator generate_keys.go first)'') p) c
         | Inr v \<Rightarrow>
        (case NewPolicyManager (bt_policyYAML B) ''policy.yaml'' (bt_policyFile B) of
           Inl _ \<Rightarrow> boot_panic B initErr c p
         | Inr policy \<Rightarrow> Listening
             \<lparr> gw_validator = v, gw_sandbox = NewSandboxManager ''python:3.10-slim'',
               gw_playgroundKey = boot_playground_key B, gw_VerifiedSignatures = 0,
               gw_ActiveSandboxes = 0, gw_router = NewAgentRouter NewAgentRegistry policy,
               gw_memMonitor = mem, gw_egressProxy = boot_egress B, gw_runsc = runsc_start,
               gw_ebpf = c, gw_world = (ks, p) \<rparr>)))"

text \<open>\<open>ListenAndServe\<close> returns only with an error.\<close>

definition server_aborted :: "string \<Rightarrow> 'pk gateway \<Rightarrow> process" where
  "server_aborted e g = log_Fatal (''Server aborted: '' @ e) (snd (gw_world g))"

subsection \<open>Lemmas\<close>

lemma boot_engine_fresh:
  "boot_engine B = Inr e \<Longrightarrow> te_queue e = [] \<and> te_submitted e = 0 \<and> te_dropped e = 0 \<and> te_processed e = 0
     \<and> \<not> te_once e \<and> te_cfg e = DefaultEngineConfig
     \<and> (\<exists>ls. bt_logFile B = Inr ls \<and> te_logFile e = Some ls) \<and> te_logOpen e"
  by (auto simp: boot_engine_def NewTelemetryEngine_def Let_def DefaultEngineConfig_def engine_fill_def second_def
      split: sum.splits if_splits)

lemma boot_engine_fails: "boot_engine B = Inl e \<longleftrightarrow> (\<exists>t. bt_logFile B = Inl t \<and> e = OpenFailed ''nexiscore_ocsf.jsonl'' t)"
  by (auto simp: boot_engine_def NewTelemetryEngine_def Let_def DefaultEngineConfig_def engine_fill_def second_def
      split: sum.splits)

lemma boot_ebpf_reach: "ebpf_reach (fst (boot_ebpf B))"
proof -
  let ?c = "SetKillSwitchCallback (Some (kill_callback (bt_kill B))) ebpf_start"
  have "ebpf_reach ?c" by (intro ebpf_reach.intros)
  then have n: "ebpf_reach (fst (InitNativeController (bt_bpf B) ?c))" by (rule ebpf_reach.native)
  obtain c e where i: "InitNativeController (bt_bpf B) ?c = (c, e)" by fastforce
  show ?thesis
  proof (cases e)
    case None
    have "ebpf_reach (fst (InitAntiTamperProbes (bt_anti B) c))" using n i by (intro ebpf_reach.intros) simp
    then show ?thesis by (simp add: boot_ebpf_def i None)
  next
    case (Some x)
    then show ?thesis using n i by (simp add: boot_ebpf_def)
  qed
qed


text \<open>Initialisation leaves the callback and the counters alone.\<close>

definition alert_part :: "'w ebpf \<Rightarrow> (string \<Rightarrow> (string, string) gomap \<Rightarrow> 'w \<Rightarrow> 'w) option \<times> int64 list" where
  "alert_part c = (kc_killSwitchCb c,
     [kc_BlockedNetworkBreaches c, kc_BlockedFileBypasses c, kc_BlockedPtraceAttempts c,
      kc_BlockedMprotectWX c, kc_BlockedShellSpawns c])"

lemma init_load_alert: "alert_part (fst (init_load E c)) = alert_part c"
  by (simp add: init_load_def alert_part_def split: option.split sum.split)

lemma attach_probe_alert: "alert_part (fst (attach_probe link pr c)) = alert_part c"
  by (simp add: attach_probe_def alert_part_def split: option.split)

lemma init_tail_alert: "alert_part (init_sockets E (init_whitelists E c)) = alert_part c"
proof -
  have "alert_part (init_whitelists E c) = alert_part c"
    by (simp add: init_whitelists_def alert_part_def case_prod_beta split: option.split)
  moreover have "alert_part (init_sockets E d) = alert_part d" for d :: "'a ebpf"
    by (simp add: init_sockets_def alert_part_def case_prod_beta Let_def split: option.split)
  ultimately show ?thesis by simp
qed

lemma init_body_alert: "alert_part (fst (init_body E c)) = alert_part c"
proof -
  obtain c1 e1 where 1: "init_load E c = (c1, e1)" by fastforce
  obtain c2 e2 where 2: "attach_probe (be_link E) ProbeConnect c1 = (c2, e2)" by fastforce
  obtain c3 e3 where 3: "attach_probe (be_link E) ProbeOpenat c2 = (c3, e3)" by fastforce
  have "alert_part c1 = alert_part c" "alert_part c2 = alert_part c1" "alert_part c3 = alert_part c2"
    using init_load_alert [of E c] attach_probe_alert [of "be_link E" ProbeConnect c1]
      attach_probe_alert [of "be_link E" ProbeOpenat c2] 1 2 3 by simp_all
  then show ?thesis
    using init_tail_alert [of E c3] by (simp add: init_body_def 1 2 3 split: option.split)
qed

lemma init_alert: "alert_part (fst (InitNativeController E c)) = alert_part c"
  using init_body_alert [of E c] by (simp add: InitNativeController_def case_prod_beta alert_part_def)

lemma attach_all_alert: "alert_part (fst (attach_all link prs c)) = alert_part c"
proof (induction prs arbitrary: c)
  case Nil
  then show ?case by simp
next
  case (Cons pr prs)
  obtain c1 e1 where 1: "attach_probe link pr c = (c1, e1)" by fastforce
  then show ?case using Cons.IH [of c1] attach_probe_alert [of link pr c] by (simp split: option.split)
qed

lemma anti_alert: "alert_part (fst (InitAntiTamperProbes A c)) = alert_part c"
proof -
  obtain c1 e1 where 1: "InitNativeController (ae_native A) c = (c1, e1)" by fastforce
  have a: "alert_part c1 = alert_part c" using init_alert [of "ae_native A" c] 1 by simp
  have "alert_part (fst (attach_all (ae_link A) [ProbePtrace, ProbeMprotect, ProbeExecve] (c1\<lparr>kc_antiRingMap := True\<rparr>)))
      = alert_part c1"
    unfolding attach_all_alert by (simp add: alert_part_def)
  with a have "alert_part (fst (anti_body A c)) = alert_part c"
    by (simp add: anti_body_def 1 split: option.split)
  then show ?thesis by (simp add: InitAntiTamperProbes_def case_prod_beta alert_part_def)
qed

lemma boot_ebpf_alert: "alert_part (fst (boot_ebpf B)) = (Some (kill_callback (bt_kill B)), [0, 0, 0, 0, 0])"
proof -
  let ?c = "SetKillSwitchCallback (Some (kill_callback (bt_kill B))) ebpf_start"
  obtain c e where i: "InitNativeController (bt_bpf B) ?c = (c, e)" by fastforce
  have "alert_part c = (Some (kill_callback (bt_kill B)), [0, 0, 0, 0, 0])"
    using init_alert [of "bt_bpf B" ?c] i by (simp add: alert_part_def SetKillSwitchCallback_def ebpf_start_def)
  then show ?thesis
    using anti_alert [of "bt_anti B" c] by (simp add: boot_ebpf_def i split: option.split)
qed

subsection \<open>Property: how the gateway comes up\<close>

text \<open>
  C22: the outcomes of \<open>main\<close>. The log file, the public key and the routing policy decide. Without the
  log file the process exits with 1 and has touched nothing. Without the key it exits with 1 too, the
  deferred calls skipped: the tracepoints stay attached. With a policy that does not load, for which
  the code prints a warning and goes on, it panics: the deferred calls release the kernel and shut the
  engine down, and the exit status is 2. Otherwise it listens, with an empty registry and nonce cache,
  the TTL at five minutes, the kill-switch unfired, installed as the callback of the probes and
  attached to the global engine, and an egress proxy exactly if the egress policy loads, signing with
  the playground's key.
\<close>

theorem startup_outcomes:
  "case boot B of
     Ended p c \<Rightarrow>
       if boot_engine B \<in> range Inl then pr_exit p = Some 1 \<and> c = ebpf_start
       else if NewProvenanceValidator (bt_publicKey B) (bt_pemDecode B) (bt_parsePKIX B) (5 * minute) \<in> range Inl
       then pr_exit p = Some 1 \<and> c = fst (boot_ebpf B) \<and> (\<exists>e. gt_engine (pr_tel p) = Some e \<and> \<not> te_once e)
       else NewPolicyManager (bt_policyYAML B) ''policy.yaml'' (bt_policyFile B) \<in> range Inl
         \<and> pr_exit p = Some 2 \<and> (\<exists>e. gt_engine (pr_tel p) = Some e \<and> te_once e)
         \<and> (if snd (boot_ebpf B) = None then released c else c = fst (boot_ebpf B))
   | Listening g \<Rightarrow>
       boot_engine B = Inr (the (gt_engine (gw_tel g)))
       \<and> NewProvenanceValidator (bt_publicKey B) (bt_pemDecode B) (bt_parsePKIX B) (5 * minute) = Inr (gw_validator g)
       \<and> pv_nonceCache (gw_validator g) = NewNonceCache (5 * minute)
       \<and> NewPolicyManager (bt_policyYAML B) ''policy.yaml'' (bt_policyFile B) = Inr (gw_policy g)
       \<and> Count (gw_registry g) = 0 \<and> gw_ActiveSandboxes g = 0 \<and> gw_VerifiedSignatures g = 0
       \<and> fst (gw_world g) = NewKillSwitch ''nexiscore-gateway'' TheEngine \<and> \<not> HasTriggered (fst (gw_world g))
       \<and> kc_killSwitchCb (gw_ebpf g) = Some (kill_callback (bt_kill B))
       \<and> pr_exit (snd (gw_world g)) = None
       \<and> map_option px_signer (gw_egressProxy g) =
           (case NewAllowlistRouter (ke_U (bt_kill B)) (bt_egressYAML B) ''egress_policy.yaml'' (bt_egressFile B) of
              Inl _ \<Rightarrow> None | Inr _ \<Rightarrow> Some (gw_playgroundKey g))"
proof (cases "boot_engine B")
  case (Inl e)
  then show ?thesis by (auto simp: boot_def log_Fatal_def)
next
  case engine: (Inr eng)
  obtain c initErr where b: "boot_ebpf B = (c, initErr)" by fastforce
  have fresh: "\<not> te_once eng" using boot_engine_fresh [OF engine] by simp
  have cb: "kc_killSwitchCb c = Some (kill_callback (bt_kill B))"
    using boot_ebpf_alert [of B] by (simp add: b alert_part_def)
  have rel: "released (CloseNativeController c)"
    using close_releases [OF ebpf_reach_inv [OF boot_ebpf_reach [of B]]] by (simp add: b)
  show ?thesis
  proof (cases "NewProvenanceValidator (bt_publicKey B) (bt_pemDecode B) (bt_parsePKIX B) (5 * minute)")
    case (Inl e)
    then show ?thesis
      using fresh by (auto simp: boot_def engine b log_Fatal_def SetGlobalEngine_def image_iff)
  next
    case (Inr v)
    have nc: "pv_nonceCache v = NewNonceCache (5 * minute)"
      using Inr by (auto simp: NewProvenanceValidator_def split: sum.splits option.splits)
    show ?thesis
    proof (cases "NewPolicyManager (bt_policyYAML B) ''policy.yaml'' (bt_policyFile B)")
      case (Inl e)
      then show ?thesis
        using fresh Inr rel
        by (auto simp: boot_def engine b SetGlobalEngine_def boot_panic_def run_deferred_def go_panic_def
            on_engine_def engine_Shutdown_def Let_def fold_process_frame new_process_def)
    next
      case p: (Inr pm)
      show ?thesis
        using nc cb
        by (auto simp: boot_def engine b Inr p SetGlobalEngine_def gw_tel_def gw_policy_def gw_registry_def
            NewAgentRouter_def NewAgentRegistry_def Count_def gm_len_def NewKillSwitch_def HasTriggered_def
            boot_egress_def NewEgressProxy_def Let_def new_process_def split: sum.split)
    qed
  qed
qed

end
