(* ===== verification/Calls.thy ===== *)
theory Calls
  imports Gateway
begin

text \<open>
  What holds of the gateway before and after every request. A call to one of the two executing endpoints is
  made of a few kinds of change (an event, a proof, a count, a run in the sandbox), so a preorder that
  admits each of them holds across any history of calls; the locale proves this once, and the theory
  interprets it for the configuration \<open>main\<close> set up, for the gauge of running containers and for the
  well-formedness of the state.
\<close>

subsection \<open>The changes a call is made of\<close>

locale request_relation =
  fixes R :: "'pk gateway \<Rightarrow> 'pk gateway \<Rightarrow> bool"
  assumes R_refl: "R g g"
    and R_trans: "R g h \<Longrightarrow> R h i \<Longrightarrow> R g i"
    and R_emit: "R g (emit ev g)"
    and R_verify: "R g (g\<lparr>gw_validator := snd (Verify sha ecdsa t m s n (gw_validator g))\<rparr>)"
    and R_signed: "R g (g\<lparr>gw_VerifiedSignatures := k\<rparr>)"
    and R_run: "run_sandbox X script g = (g', pid, res, tr) \<Longrightarrow> R g g'"
begin

lemma verified: "Verify sha ecdsa t m s n (gw_validator g) = (e, v') \<Longrightarrow> R g (g\<lparr>gw_validator := v'\<rparr>)"
  using R_verify [of g sha ecdsa t m s n] by simp

lemma launched:
  assumes "launch X r a tool script g = (g', status, resp, tr)"
  shows "R g g'"
proof -
  let ?g1 = "g\<lparr>gw_VerifiedSignatures := gw_VerifiedSignatures g + 1\<rparr>"
  let ?g2 = "emit (NewAttestationEvent (gx_ms X 0) a (hr_RemoteAddr r) tool) ?g1"
  let ?g3 = "emit (NewToolCallEvent (gx_ms X 1) a (hr_RemoteAddr r) tool StatusUnknown ''sandbox launch initiated'') ?g2"
  obtain g4 pid res t where run: "run_sandbox X script ?g3 = (g4, pid, res, t)" by (metis prod_cases4)
  obtain ev where "g' = emit ev g4" using assms run by (cases res) (auto simp: launch_def Let_def)
  moreover have "R g ?g3" by (intro R_trans [OF _ R_emit] R_signed)
  ultimately show ?thesis using R_trans R_run [OF run] R_emit by blast
qed

lemma intercepted:
  assumes h: "handleIntercept X r g = (g', status, resp, tr)"
  shows "R g g'"
proof (cases "readable r")
  case False
  from intercept_unreadable [OF this, of X g] h show ?thesis by (auto intro: R_refl)
next
  case rd: True
  show ?thesis
  proof (cases "\<exists>req manifest v'. authorised X r g req manifest v'")
    case True
    then obtain req manifest v' where a: "authorised X r g req manifest v'" by blast
    then have "R g (g\<lparr>gw_validator := v'\<rparr>)" by (auto simp: authorised_def intro: verified)
    with launched [OF h [unfolded intercept_launches [OF a]]] show ?thesis by (blast intro: R_trans)
  next
    case False
    from intercept_refuses [OF rd this] obtain req reason raw v' status' msg
      where f: "handleIntercept X r g = answer_fail X r (agent_of req) reason raw status' msg (g\<lparr>gw_validator := v'\<rparr>)"
        and v: "v' = gw_validator g \<or> (\<exists>m s n e. Verify (gx_sha256 X) (gx_ecdsa X) (gx_now X) m s n (gw_validator g) = (e, v'))"
      by blast
    from v have "R g (g\<lparr>gw_validator := v'\<rparr>)" using R_refl [of g] by (auto intro: verified)
    moreover have "\<exists>ev. g' = emit ev (g\<lparr>gw_validator := v'\<rparr>)" using h f by (auto simp: answer_fail_def)
    ultimately show ?thesis using R_emit by (blast intro: R_trans)
  qed
qed

lemma played:
  assumes "handlePlaygroundRun X r g = (g', status, resp, tr)"
  shows "R g g'"
proof -
  have run: "R g h" if "run_sandbox X s (g\<lparr>gw_validator := v, gw_VerifiedSignatures := n\<rparr>) = (h, pid, res, t)"
    and "Verify sha ecdsa t' m s' n' (gw_validator g) = (e, v)" for s v n h pid res t sha ecdsa t' m s' n' e
    using R_trans [OF verified [OF that(2)] R_trans [OF R_signed [of _ n] R_run]] that(1) by simp
  show ?thesis
    using assms R_refl unfolding handlePlaygroundRun_def answer_plain_def Let_def
    by (auto split: if_splits option.splits sum.splits prod.splits intro: verified run)
qed

lemma handled: "handle p X r g = (g', status, resp, tr) \<Longrightarrow> R g g'"
  by (cases p) (auto intro: intercepted played)

lemma served: "serve cs g = (g', trs) \<Longrightarrow> R g g'"
proof (induction cs g arbitrary: g' trs rule: serve.induct)
  case (1 g)
  then show ?case by (simp add: R_refl)
next
  case (2 p X r cs g)
  obtain g1 st resp tr where h: "handle p X r g = (g1, st, resp, tr)" by (metis prod_cases4)
  obtain g2 trs' where s: "serve cs g1 = (g2, trs')" by fastforce
  have "g' = g2" using 2(2) h s by (simp add: Let_def)
  with 2(1) [OF h [symmetric] HOL.refl HOL.refl HOL.refl s] handled [OF h] show ?case by (blast intro: R_trans)
qed

end

subsection \<open>The configuration\<close>

text \<open>What \<open>main\<close> sets up and no request changes.\<close>

definition same_config :: "'pk gateway \<Rightarrow> 'pk gateway \<Rightarrow> bool" where
  "same_config g g' \<longleftrightarrow>
     pv_pubKey (gw_validator g') = pv_pubKey (gw_validator g)
     \<and> nc_ttl (pv_nonceCache (gw_validator g')) = nc_ttl (pv_nonceCache (gw_validator g))
     \<and> gw_sandbox g' = gw_sandbox g \<and> gw_playgroundKey g' = gw_playgroundKey g \<and> gw_router g' = gw_router g
     \<and> gw_memMonitor g' = gw_memMonitor g \<and> gw_egressProxy g' = gw_egressProxy g"

interpretation config: request_relation same_config
proof
  fix X script and g g' :: "'pk gateway" and pid res tr
  assume "run_sandbox X script g = (g', pid, res, tr)"
  then show "same_config g g'" by (auto simp: run_sandbox_def Let_def same_config_def)
qed (auto simp: same_config_def emit_def Verify_cache)

text \<open>The gauge of running containers, once a call is answered.\<close>

interpretation gauge: request_relation "\<lambda>g g'. gw_ActiveSandboxes g' = gw_ActiveSandboxes g"
  by unfold_locales (auto simp: emit_def dest: run_sandbox_frame(3))

subsection \<open>Well-formedness\<close>

text \<open>
  The books of an engine no worker has served yet; the nonce cache and the registry are Go maps, the
  registry's two indices agree, the controller keeps its invariant.
\<close>

definition submit_books :: "TelemetryEngine \<Rightarrow> bool" where
  "submit_books e \<longleftrightarrow> te_submitted e = te_processed e + te_dropped e + of_nat (length (te_queue e))
     \<and> length (te_queue e) \<le> queue_cap e"

definition gateway_wf :: "'pk gateway \<Rightarrow> bool" where
  "gateway_wf g \<longleftrightarrow>
     nonce_wf (pv_nonceCache (gw_validator g)) \<and> reg_inv (gw_registry g) \<and> ebpf_inv (gw_ebpf g)
     \<and> (\<forall>e. gt_engine (gw_tel g) = Some e \<longrightarrow> submit_books e)"

lemma gateway_wf_ebpf: "gateway_wf g \<Longrightarrow> ebpf_inv (gw_ebpf g)"
  unfolding gateway_wf_def by blast

lemma Submit_books: "submit_books e \<Longrightarrow> submit_books (Submit e ev)"
  by (auto simp: submit_books_def Submit_def submit_count_def submit_send_def queue_cap_def)

lemma run_ebpf_inv:
  assumes "run_sandbox X script g = (g', pid, res, tr)" and "ebpf_inv (gw_ebpf g)"
  shows "ebpf_inv (gw_ebpf g')"
proof -
  have r: "ebpf_inv (fst (register_hook E e q c))" if "ebpf_inv c" for E e q and c :: "world ebpf"
    using registry_inv(1) [OF that, of E e q]
    by (cases "RegisterSandboxPID E e q c"; cases "snd (RegisterSandboxPID E e q c)") (simp_all add: register_hook_def)
  have "ebpf_inv (after_run X (sandbox_run X script g))"
    using sandbox_run_state [of X script g]
  proof (elim disjE exE conjE)
    fix q
    assume "0 < q" "so_state (sandbox_run X script g) = (fst (register_hook (gx_bpf X) (gx_update X) q (gw_ebpf g)), q)"
    then show ?thesis using registry_inv(2) [OF r [OF assms(2)]] by (simp add: after_run_def)
  qed (simp add: after_run_def assms(2))
  then show ?thesis using run_sandbox_frame(8) [OF assms(1)] by simp
qed

lemma gateway_wf_cong:
  assumes "gw_router g' = gw_router g" and "gw_world g' = gw_world g"
    and "nonce_wf (pv_nonceCache (gw_validator g)) \<Longrightarrow> nonce_wf (pv_nonceCache (gw_validator g'))"
    and "ebpf_inv (gw_ebpf g) \<Longrightarrow> ebpf_inv (gw_ebpf g')"
  shows "gateway_wf g \<Longrightarrow> gateway_wf g'"
  using assms by (simp add: gateway_wf_def gw_registry_def gw_tel_def)

interpretation wf: request_relation "\<lambda>g g'. gateway_wf g \<longrightarrow> gateway_wf g'"
proof
  fix g :: "'pk gateway" and sha ecdsa t m s n
  show "gateway_wf g \<longrightarrow> gateway_wf (g\<lparr>gw_validator := snd (Verify sha ecdsa t m s n (gw_validator g))\<rparr>)"
    by (intro impI, erule gateway_wf_cong [rotated -1]) (simp_all add: Verify_cache Register_wf)
next
  fix g :: "'pk gateway" and k
  show "gateway_wf g \<longrightarrow> gateway_wf (g\<lparr>gw_VerifiedSignatures := k\<rparr>)"
    by (intro impI, erule gateway_wf_cong [rotated -1]) simp_all
next
  fix g :: "'pk gateway" and ev
  show "gateway_wf g \<longrightarrow> gateway_wf (emit ev g)"
    by (auto simp: gateway_wf_def emit_def gw_registry_def gw_tel_def SubmitGlobal_def Submit_books split: option.splits)
next
  fix X script and g g' :: "'pk gateway" and pid res tr
  assume run: "run_sandbox X script g = (g', pid, res, tr)"
  then have "gw_router g' = gw_router g" by (auto simp: run_sandbox_def Let_def)
  then show "gateway_wf g \<longrightarrow> gateway_wf g'"
    using gateway_wf_cong [of g' g] run_sandbox_frame(1,4) [OF run] run_ebpf_inv [OF run] by simp
qed blast+

end
