(* ===== verification/Deployment.thy ===== *)
theory Deployment
  imports Startup Calls
begin

text \<open>
  The gateway as \<open>main\<close> wires it: what serving requests leaves alone, and how a breach reported by the
  anti-tamper probes reaches the kill-switch through the callback \<open>main\<close> installs.
\<close>

subsection \<open>Lemmas: what serving requests leaves alone\<close>

text \<open>The kill-switch, the process apart from its telemetry, and the alert side of the controller.\<close>

definition anti_part :: "'w ebpf \<Rightarrow> bool \<times> bool \<times> init_error option \<times> bool" where
  "anti_part c = (kc_initOnce c, kc_antiInitOnce c, kc_antiInitErr c, kc_antiRingMap c)"

definition same_host :: "'pk gateway \<Rightarrow> 'pk gateway \<Rightarrow> bool" where
  "same_host g g' \<longleftrightarrow>
     fst (gw_world g') = fst (gw_world g) \<and> pr_exit (snd (gw_world g')) = pr_exit (snd (gw_world g))
     \<and> (gt_engine (gw_tel g') = None \<longleftrightarrow> gt_engine (gw_tel g) = None)
     \<and> (kc_initOnce (gw_ebpf g) \<longrightarrow>
          anti_part (gw_ebpf g') = anti_part (gw_ebpf g) \<and> alert_part (gw_ebpf g') = alert_part (gw_ebpf g))"

lemma same_host_refl: "same_host g g"
  by (simp add: same_host_def)

lemma same_host_trans: "same_host g h \<Longrightarrow> same_host h k \<Longrightarrow> same_host g k"
  unfolding same_host_def by (auto simp: anti_part_def)

lemma same_host_update:
  assumes "gw_world g' = gw_world g" and "gw_ebpf g' = gw_ebpf g"
  shows "same_host g g'"
  using assms by (simp add: same_host_def gw_tel_def)

lemma same_host_emit: "same_host g (emit ev g)"
  by (simp add: same_host_def emit_def gw_tel_def SubmitGlobal_def split: option.split)

text \<open>Once the controller has initialised, the registry calls touch the locked map only.\<close>

lemma registry_frame:
  assumes "kc_initOnce c"
  shows "anti_part (fst (RemoveSandboxPID E e pid c)) = anti_part c
     \<and> alert_part (fst (RemoveSandboxPID E e pid c)) = alert_part c"
    and "anti_part (fst (register_hook E e pid c)) = anti_part c
     \<and> alert_part (fst (register_hook E e pid c)) = alert_part c"
proof -
  have i: "InitNativeController E c = (c, kc_initErr c)" using assms by (simp add: InitNativeController_def)
  show "anti_part (fst (RemoveSandboxPID E e pid c)) = anti_part c
     \<and> alert_part (fst (RemoveSandboxPID E e pid c)) = alert_part c"
    by (simp add: RemoveSandboxPID_def i anti_part_def alert_part_def split: option.split)
  show "anti_part (fst (register_hook E e pid c)) = anti_part c
     \<and> alert_part (fst (register_hook E e pid c)) = alert_part c"
    by (simp add: register_hook_def RegisterSandboxPID_def i anti_part_def alert_part_def split: option.split)
qed

lemma same_host_run:
  assumes "run_sandbox X script g = (g', pid, res, tr)"
  shows "same_host g g'"
proof -
  note f = run_sandbox_frame [OF assms]
  have "anti_part (gw_ebpf g') = anti_part (gw_ebpf g) \<and> alert_part (gw_ebpf g') = alert_part (gw_ebpf g)"
    if i: "kc_initOnce (gw_ebpf g)"
    using sandbox_run_state [of X script g]
  proof (elim disjE exE conjE)
    fix p
    let ?c = "fst (register_hook (gx_bpf X) (gx_update X) p (gw_ebpf g))"
    assume "so_state (sandbox_run X script g) = (?c, p)" and "0 < p"
    then have e: "gw_ebpf g' = fst (RemoveSandboxPID (gx_bpf X) (gx_delete X) p ?c)"
      using f(8) by (simp add: after_run_def)
    note r = registry_frame(2) [OF i, of "gx_bpf X" "gx_update X" p]
    then have "kc_initOnce ?c" using i by (simp add: anti_part_def)
    from registry_frame(1) [OF this] r show ?thesis by (simp add: e)
  qed (use f(8) in \<open>simp add: after_run_def\<close>)
  then show ?thesis using f(4) by (simp add: same_host_def gw_tel_def)
qed

interpretation host: request_relation same_host
proof
  fix g :: "'pk gateway" and sha ecdsa t m s n
  show "same_host g (g\<lparr>gw_validator := snd (Verify sha ecdsa t m s n (gw_validator g))\<rparr>)"
    by (rule same_host_update) simp_all
next
  fix g :: "'pk gateway" and k
  show "same_host g (g\<lparr>gw_VerifiedSignatures := k\<rparr>)" by (rule same_host_update) simp_all
qed (blast intro: same_host_refl same_host_trans same_host_emit same_host_run)+

subsection \<open>Lemmas: from the probe to the kill-switch\<close>

definition breach_reason :: "uint32 \<Rightarrow> string" where
  "breach_reason ty =
     (if ty = 3 then ''ptrace_attach_detected''
      else if ty = 4 then ''mprotect_wx_detected'' else ''shell_spawn_detected'')"

definition breach_details :: "AntiTamperEvent \<Rightarrow> (string, string) gomap" where
  "breach_details ev =
     (if ate_BreachType ev = 3
      then gm_put (breach_context ev) ''target_pid'' (dec_nat (unat (ate_TargetPID ev))) else breach_context ev)"

definition count_breach :: "uint32 \<Rightarrow> 'w ebpf \<Rightarrow> 'w ebpf" where
  "count_breach ty c =
     (if ty = 3 then c\<lparr>kc_BlockedPtraceAttempts := kc_BlockedPtraceAttempts c + 1\<rparr>
      else if ty = 4 then c\<lparr>kc_BlockedMprotectWX := kc_BlockedMprotectWX c + 1\<rparr>
      else c\<lparr>kc_BlockedShellSpawns := kc_BlockedShellSpawns c + 1\<rparr>)"

lemma dispatch_kills:
  assumes "kc_killSwitchCb c = Some (kill_callback E)" and "ate_BreachType ev \<in> {3, 4, 5}"
  shows "dispatch_breach ev (c, w) =
     (count_breach (ate_BreachType ev) c, Trigger (E, breach_reason (ate_BreachType ev), breach_details ev) w)"
  using assms
  by (auto simp: dispatch_breach_def Let_def invokeKillSwitch_def kill_callback_def count_breach_def
      breach_reason_def breach_details_def)

lemma breaches_type: "breaches_of rs = ev # later \<Longrightarrow> ate_BreachType ev \<in> {3, 4, 5}"
  using filter_eq_ConsD unfolding breaches_of_def by fastforce

lemma stream_breaches:
  assumes "ebpf_inv c" and "kc_antiInitOnce c" and "kc_antiInitErr c = None"
    and "kc_killSwitchCb c = Some (kill_callback E)"
    and "\<not> ks_once (fst w)" and "pr_exit (snd w) = None"
  shows "StreamAntiTamperAlerts (\<lambda>w. pr_exit (snd w) \<noteq> None) A None reads (c, w) =
     (case breaches_of reads of
        [] \<Rightarrow> (c, w)
      | ev # later \<Rightarrow> (count_breach (ate_BreachType ev) c,
                      Trigger (E, breach_reason (ate_BreachType ev), breach_details ev) w))"
proof -
  let ?dead = "\<lambda>w :: world. pr_exit (snd w) \<noteq> None"
  have "InitAntiTamperProbes A c = (c, None)" using assms(2,3) by (simp add: InitAntiTamperProbes_def)
  moreover have "kc_antiRingMap c" using assms(1-3) by (simp add: ebpf_inv_def)
  ultimately have s: "StreamAntiTamperAlerts ?dead A None reads (c, w) = breach_loop ?dead reads (c, w)"
    by (simp add: StreamAntiTamperAlerts_def)
  show ?thesis
  proof (cases "breaches_of reads")
    case Nil
    then show ?thesis unfolding s by (simp add: breach_loop_none)
  next
    case (Cons ev later)
    note d = dispatch_kills [OF assms(4) breaches_type [OF Cons], of w]
    have "?dead (snd (dispatch_breach ev (c, w)))"
      unfolding d using assms(5) by (cases w) (simp add: Trigger_def)
    then have "breach_loop ?dead reads (c, w) = dispatch_breach ev (c, w)"
      using assms(6) by (intro breach_loop_first [OF Cons]) simp_all
    then show ?thesis unfolding s by (simp add: Cons d)
  qed
qed


subsection \<open>Lemmas: the listening gateway\<close>

lemma anti_init_once: "kc_initOnce c \<Longrightarrow> kc_initOnce (fst (InitAntiTamperProbes A c))"
proof -
  assume i: "kc_initOnce c"
  obtain c2 e2 where 2: "attach_all (ae_link A) [ProbePtrace, ProbeMprotect, ProbeExecve]
      (c\<lparr>kc_antiRingMap := True\<rparr>) = (c2, e2)" by fastforce
  from attach_all_cases [OF this] i have "kc_initOnce c2" by auto
  moreover have "InitNativeController (ae_native A) c = (c, kc_initErr c)"
    using i by (simp add: InitNativeController_def)
  ultimately have "kc_initOnce (fst (anti_body A c))"
    using i 2 by (simp add: anti_body_def split: option.split)
  then show ?thesis using i by (simp add: InitAntiTamperProbes_def case_prod_beta)
qed



lemma boot_listening:
  assumes "boot B = Listening g"
  shows "gw_ebpf g = fst (boot_ebpf B)" "kc_killSwitchCb (gw_ebpf g) = Some (kill_callback (bt_kill B))"
    "fst (gw_world g) = NewKillSwitch ''nexiscore-gateway'' TheEngine" "pr_exit (snd (gw_world g)) = None"
    "gt_engine (gw_tel g) \<noteq> None" "ebpf_inv (gw_ebpf g)" "kc_initOnce (gw_ebpf g)"
proof -
  obtain eng where engine: "boot_engine B = Inr eng"
    using assms by (cases "boot_engine B") (auto simp: boot_def)
  obtain c initErr where b: "boot_ebpf B = (c, initErr)" by fastforce
  obtain v where v: "NewProvenanceValidator (bt_publicKey B) (bt_pemDecode B) (bt_parsePKIX B) (5 * minute) = Inr v"
    using assms engine b
    by (cases "NewProvenanceValidator (bt_publicKey B) (bt_pemDecode B) (bt_parsePKIX B) (5 * minute)")
      (auto simp: boot_def Let_def)
  obtain pm where pm: "NewPolicyManager (bt_policyYAML B) ''policy.yaml'' (bt_policyFile B) = Inr pm"
    using assms engine b v
    by (cases "NewPolicyManager (bt_policyYAML B) ''policy.yaml'' (bt_policyFile B)")
      (auto simp: boot_def Let_def boot_panic_def run_deferred_def)
  show c: "gw_ebpf g = fst (boot_ebpf B)" using assms by (auto simp: boot_def Let_def engine b v pm)
  show "kc_killSwitchCb (gw_ebpf g) = Some (kill_callback (bt_kill B))"
    using boot_ebpf_alert [of B] by (simp add: c alert_part_def)
  show "fst (gw_world g) = NewKillSwitch ''nexiscore-gateway'' TheEngine" "pr_exit (snd (gw_world g)) = None"
    "gt_engine (gw_tel g) \<noteq> None"
    using assms by (auto simp: boot_def Let_def engine b v pm new_process_def gw_tel_def SetGlobalEngine_def)
  show "ebpf_inv (gw_ebpf g)" unfolding c by (rule ebpf_reach_inv [OF boot_ebpf_reach])
  let ?c = "SetKillSwitchCallback (Some (kill_callback (bt_kill B))) ebpf_start"
  obtain c1 e1 where i: "InitNativeController (bt_bpf B) ?c = (c1, e1)" by fastforce
  have "kc_initOnce c1" using init_ran(1) [of "bt_bpf B" ?c] i by simp
  then show "kc_initOnce (gw_ebpf g)"
    using native_once.call_idle [of c1 "ae_native (bt_anti B)"] anti_init_once [of c1 "bt_anti B"]
    by (simp add: c boot_ebpf_def i split: option.split)
qed


text \<open>What \<open>main\<close> sets up is well formed: no container, no agent.\<close>

lemma boot_idle:
  assumes "boot B = Listening g"
  shows "gw_ActiveSandboxes g = 0" "gw_registry g = NewAgentRegistry"
  using assms
  by (auto simp: boot_def Let_def boot_panic_def run_deferred_def gw_registry_def NewAgentRouter_def
      split: sum.splits prod.splits)

lemma boot_wf:
  assumes "boot B = Listening g"
  shows "gateway_wf g"
proof -
  obtain v where "NewProvenanceValidator (bt_publicKey B) (bt_pemDecode B) (bt_parsePKIX B) (5 * minute) = Inr v"
    and v: "gw_validator g = v"
    using assms by (auto simp: boot_def Let_def boot_panic_def run_deferred_def split: sum.splits prod.splits)
  then have "nonce_wf (pv_nonceCache (gw_validator g))" using NewProvenanceValidator_wf by blast
  moreover have "reg_inv (gw_registry g)" using boot_idle(2) [OF assms] reg_inv_new by simp
  moreover obtain e where "boot_engine B = Inr e" and "gt_engine (gw_tel g) = Some e"
    using assms
    by (auto simp: boot_def Let_def boot_panic_def run_deferred_def new_process_def gw_tel_def SetGlobalEngine_def
        split: sum.splits prod.splits)
  then have "\<forall>e. gt_engine (gw_tel g) = Some e \<longrightarrow> submit_books e"
    using boot_engine_fresh [of B e] by (simp add: submit_books_def)
  ultimately show ?thesis using boot_listening(6) [OF assms] by (simp add: gateway_wf_def)
qed

text \<open>A host on which everything loads, with both policy files missing.\<close>

definition demo_up :: bpf_env where
  "demo_up = demo_bpf\<lparr>be_link := (\<lambda>pr. None)\<rparr>"

definition demo_boot :: "unit boot_env" where
  "demo_boot =
     \<lparr> bt_siemURL = [], bt_siemToken = [], bt_hostname = [], bt_siemFile = Inl [], bt_logFile = Inr [],
       bt_kill = demo_kill_env, bt_bpf = demo_up,
       bt_anti = \<lparr> ae_native = demo_up, ae_mkdir = None, ae_loadSpec = None, ae_loadAssign = None, ae_link = (\<lambda>pr. None) \<rparr>,
       bt_sha256 = (\<lambda>b. b), bt_maps = Inl [], bt_exe = ExeNoOpen [],
       bt_publicKey = Inr ''k'', bt_pemDecode = Some, bt_parsePKIX = (\<lambda>b. Inr (Some ())),
       bt_privateKey = Inl [], bt_parseEC = (\<lambda>b. Inl []),
       bt_policyYAML = (\<lambda>b. Inr \<lparr> pf_Version = [], pf_Routes = [] \<rparr>),
       bt_policyFile = \<lparr> fv_stat = StatNotExist, fv_read = Inl [] \<rparr>,
       bt_egressYAML = (\<lambda>b. Inl []), bt_egressFile = \<lparr> fv_stat = StatNotExist, fv_read = Inl [] \<rparr> \<rparr>"

text \<open>The same host with other keys, as long as the public key file holds a PEM block.\<close>

definition keyed_boot ::
  "(bytes \<Rightarrow> bytes option) \<Rightarrow> bytes \<Rightarrow> (string + bytes) \<Rightarrow> (bytes \<Rightarrow> string + (bytes \<Rightarrow> string + bytes)) \<Rightarrow> unit boot_env" where
  "keyed_boot pem publicKey privateKey parseEC =
     demo_boot\<lparr>bt_pemDecode := pem, bt_publicKey := Inr publicKey, bt_privateKey := privateKey, bt_parseEC := parseEC\<rparr>"

lemma keyed_boot_listens:
  assumes "pem publicKey = Some block"
  shows "\<exists>g. boot (keyed_boot pem publicKey privateKey parseEC) = Listening g
     \<and> kc_antiInitOnce (gw_ebpf g) \<and> kc_antiInitErr (gw_ebpf g) = None"
proof -
  define B where "B = keyed_boot pem publicKey privateKey parseEC"
  have "bt_logFile B = Inr []" by (simp add: B_def keyed_boot_def demo_boot_def)
  then obtain eng where e: "boot_engine B = Inr eng"
    using boot_engine_fails [of B] by (cases "boot_engine B") auto
  obtain c where c: "boot_ebpf B = (c, None)" "kc_antiInitOnce c" "kc_antiInitErr c = None"
    by (simp add: B_def keyed_boot_def boot_ebpf_def demo_boot_def demo_up_def demo_bpf_def SetKillSwitchCallback_def
        ebpf_start_def InitNativeController_def init_body_def init_load_def attach_probe_def init_sockets_def
        init_whitelists_def whitelistedDomains_def InitAntiTamperProbes_def anti_body_def Let_def case_prod_beta)
  obtain v where v: "NewProvenanceValidator (bt_publicKey B) (bt_pemDecode B) (bt_parsePKIX B) (5 * minute) = Inr v"
    using assms by (simp add: NewProvenanceValidator_def B_def keyed_boot_def demo_boot_def)
  obtain pm where p: "NewPolicyManager (bt_policyYAML B) ''policy.yaml'' (bt_policyFile B) = Inr pm"
    by (simp add: NewPolicyManager_def policy_load_def policy_apply_def B_def keyed_boot_def demo_boot_def Let_def
        case_prod_beta)
  show ?thesis unfolding B_def [symmetric] by (simp add: boot_def e c v p)
qed

lemma demo_boot_listens:
  "\<exists>g. boot demo_boot = Listening g \<and> kc_antiInitOnce (gw_ebpf g) \<and> kc_antiInitErr (gw_ebpf g) = None"
proof -
  have "demo_boot = keyed_boot Some ''k'' (Inl []) (\<lambda>b. Inl [])" by (simp add: keyed_boot_def demo_boot_def)
  then show ?thesis using keyed_boot_listens [of Some "''k''" "''k''" "Inl []" "\<lambda>b. Inl []"] by simp
qed


subsection \<open>Property: a refusal that leaves no trace\<close>

lemma unmarshalRequest_empty: "unmarshalRequest [] = None"
  by (simp add: unmarshalRequest_def json_parse_def json_read_def skip_ws_def)

lemma marshals_or_lost: "(M = None \<longleftrightarrow> \<not> P) \<Longrightarrow> (M = None \<Longrightarrow> Q) \<Longrightarrow> if P then M \<noteq> None else Q"
  by auto

lemma quoted_key_reason:
  assumes "\<forall>c \<in> set a. ascii c \<and> quote_json_safe c" and "\<forall>c \<in> set b. ascii c \<and> quote_json_safe c" and "raw \<noteq> []"
  shows "Marshal U (NewValidationFailEvent t u agent user (a @ k @ b) raw) = None
    \<longleftrightarrow> \<not> (\<forall>x \<in> set (runes k). json_rune U x)"
  using assms(3) by (simp add: Marshal_fails_iff NewValidationFailEvent_def error_text_valid_within [OF assms(1,2)])


text \<open>The request \<open>{"script":"", "variables":{"\u0001":""}}\<close>.\<close>

definition silent_body :: bytes where
  "silent_body = json_Marshal (JObj [(''script'', JStr []), (''variables'', JObj [([CHR 0x01], JStr [])])])"


end
