(* ===== verification/Tools.thy ===== *)
theory Tools
  imports Gateway
begin

text \<open>
  The command-line tools: \<open>generate_keys.go\<close>, \<open>tools/keygen.go\<close> and \<open>tools/signer.go\<close>. A tool is a function
  of the files of its working directory; key generation, key formats, PEM, SHA-256, ECDSA signing, the
  clock and the errors of file operations are the environment. Paths are written cleaned.
\<close>

type_synonym files = "string \<Rightarrow> bytes option"

record 'sk tool_env =
  tl_generate :: "string + 'sk"
  tl_marshalEC :: "'sk \<Rightarrow> string + bytes"
  tl_marshalPKIX :: "'sk \<Rightarrow> string + bytes"
  tl_pemEncode :: "string \<Rightarrow> bytes \<Rightarrow> bytes"
  tl_pemDecode :: "bytes \<Rightarrow> (string \<times> bytes) option"
  tl_parseEC :: "bytes \<Rightarrow> string + 'sk"
  tl_parsePKCS8 :: "bytes \<Rightarrow> string + 'sk option"
  tl_sha256 :: "bytes \<Rightarrow> bytes"
  tl_sign :: "'sk \<Rightarrow> bytes \<Rightarrow> string + (nat \<times> nat)"
  tl_mkdir :: "string \<Rightarrow> string option"
  tl_open :: "string \<Rightarrow> string option"
  tl_write :: "string \<Rightarrow> (nat \<times> string) option"
  tl_read :: "string \<Rightarrow> string option"
  tl_nano :: int64
  tl_unix :: int64

text \<open>A tool ends normally, with what it printed last, or through \<open>log.Fatalf\<close>.\<close>

datatype tool_end = Finished string | Fatal string

text \<open>
  Opening truncates; a write that fails has written some prefix. The result: the error of opening or of
  writing.
\<close>

definition write_file :: "'sk tool_env \<Rightarrow> string \<Rightarrow> bytes \<Rightarrow> files \<Rightarrow> files \<times> (string + string) option" where
  "write_file E path content fs =
     (case tl_open E path of
        Some e \<Rightarrow> (fs, Some (Inl e))
      | None \<Rightarrow>
          (case tl_write E path of
             None \<Rightarrow> (fs(path \<mapsto> content), None)
           | Some (n, e) \<Rightarrow> (fs(path \<mapsto> take n content), Some (Inr e))))"

definition read_file :: "'sk tool_env \<Rightarrow> files \<Rightarrow> string \<Rightarrow> string + bytes" where
  "read_file E fs path =
     (case tl_read E path of
        Some e \<Rightarrow> Inl e
      | None \<Rightarrow> (case fs path of None \<Rightarrow> Inl ''no such file or directory'' | Some b \<Rightarrow> Inr b))"

text \<open>\<open>asn1.Marshal\<close> of the two coordinates, and what \<open>ecdsa.SignASN1\<close> returns.\<close>

definition asn1_Marshal :: "nat \<Rightarrow> nat \<Rightarrow> bytes" where
  "asn1_Marshal r s = der_signature r s []"

definition SignASN1 :: "'sk tool_env \<Rightarrow> 'sk \<Rightarrow> bytes \<Rightarrow> string + bytes" where
  "SignASN1 E sk h = map_sum id (\<lambda>(r, s). asn1_Marshal r s) (tl_sign E sk h)"

subsection \<open>\<open>generate_keys.go\<close>\<close>

definition sample_nonce :: "int64 \<Rightarrow> string" where
  "sample_nonce nano = ''nonce_'' @ dec64 nano"

definition sample_manifest :: "int64 \<Rightarrow> int64 \<Rightarrow> bytes" where
  "sample_manifest nano unix =
     json_Marshal (JObj [(''nonce'', JStr (sample_nonce nano)), (''timestamp'', JNum (sint unix)),
                         (''tool_name'', JStr ''python_interpreter'')])"

definition sample_script :: string where
  "sample_script = ''print('' @ [CHR 0x27] @ ''Hello from sandboxed runtime!'' @ [CHR 0x27] @ '')''"

definition sample_request :: "bytes \<Rightarrow> string \<Rightarrow> bytes" where
  "sample_request manifest hexSignature =
     json_MarshalIndent (JObj
       [(''manifest'', JStr manifest), (''script'', JStr sample_script), (''signature'', JStr hexSignature),
        (''variables'', JObj [(''param1'', JArr [JStr ''val1'', JStr ''val2''])])])"

text \<open>Steps 4 to 8: the manifest, its signature and the request; a file that cannot be written is no error.\<close>

definition write_sample :: "'sk tool_env \<Rightarrow> 'sk \<Rightarrow> files \<Rightarrow> files \<times> tool_end" where
  "write_sample E privateKey fs =
     (let manifest = sample_manifest (tl_nano E) (tl_unix E) in
      case tl_sign E privateKey (tl_sha256 E manifest) of
        Inl e \<Rightarrow> (fs, Fatal (''Failed to sign manifest hash: '' @ e))
      | Inr (r, s) \<Rightarrow>
          (let requestJson = sample_request manifest (EncodeToString (asn1_Marshal r s))
           in (fst (write_file E ''test_payload.json'' requestJson fs), Finished requestJson)))"

definition generate_keys :: "'sk tool_env \<Rightarrow> files \<Rightarrow> files \<times> tool_end" where
  "generate_keys E fs =
     (case tl_generate E of
        Inl e \<Rightarrow> (fs, Fatal (''Failed to generate private key: '' @ e))
      | Inr privateKey \<Rightarrow>
     (case tl_marshalEC E privateKey of
        Inl e \<Rightarrow> (fs, Fatal (''Failed to marshal private key: '' @ e))
      | Inr privBytes \<Rightarrow>
     (case write_file E ''private_key.pem'' (tl_pemEncode E ''EC PRIVATE KEY'' privBytes) fs of
        (fs1, Some (Inl e)) \<Rightarrow> (fs1, Fatal (''Failed to create private_key.pem: '' @ e))
      | (fs1, Some (Inr e)) \<Rightarrow> (fs1, Fatal (''Failed to write private key PEM: '' @ e))
      | (fs1, None) \<Rightarrow>
     (case tl_marshalPKIX E privateKey of
        Inl e \<Rightarrow> (fs1, Fatal (''Failed to marshal public key: '' @ e))
      | Inr pubBytes \<Rightarrow>
     (case write_file E ''public_key.pem'' (tl_pemEncode E ''PUBLIC KEY'' pubBytes) fs1 of
        (fs2, Some (Inl e)) \<Rightarrow> (fs2, Fatal (''Failed to create public_key.pem: '' @ e))
      | (fs2, Some (Inr e)) \<Rightarrow> (fs2, Fatal (''Failed to write public key PEM: '' @ e))
      | (fs2, None) \<Rightarrow> write_sample E privateKey fs2)))))"

subsection \<open>\<open>tools/keygen.go\<close>\<close>

definition keygen :: "'sk tool_env \<Rightarrow> files \<Rightarrow> files \<times> tool_end" where
  "keygen E fs =
     (case tl_mkdir E ''certs'' of
        Some e \<Rightarrow> (fs, Fatal (''Failed to create certs directory: '' @ e))
      | None \<Rightarrow>
     (case tl_generate E of
        Inl e \<Rightarrow> (fs, Fatal (''Failed to generate P-256 private key: '' @ e))
      | Inr privateKey \<Rightarrow>
     (case tl_marshalEC E privateKey of
        Inl e \<Rightarrow> (fs, Fatal (''Failed to marshal private key bytes: '' @ e))
      | Inr privBytes \<Rightarrow>
     (case write_file E ''certs/private.pem'' (tl_pemEncode E ''EC PRIVATE KEY'' privBytes) fs of
        (fs1, Some e) \<Rightarrow> (fs1, Fatal (''Failed to write private.pem to filesystem: '' @ case_sum id id e))
      | (fs1, None) \<Rightarrow>
     (case tl_marshalPKIX E privateKey of
        Inl e \<Rightarrow> (fs1, Fatal (''Failed to marshal public key bytes: '' @ e))
      | Inr pubBytes \<Rightarrow>
     (case write_file E ''certs/public.pem'' (tl_pemEncode E ''PUBLIC KEY'' pubBytes) fs1 of
        (fs2, Some e) \<Rightarrow> (fs2, Fatal (''Failed to write public.pem to filesystem: '' @ case_sum id id e))
      | (fs2, None) \<Rightarrow>
          (fs2, Finished ''[SUCCESS] Enclave PKI Key pair successfully generated under ./certs'')))))))"

subsection \<open>\<open>tools/signer.go\<close>\<close>

definition signer :: "'sk tool_env \<Rightarrow> string list \<Rightarrow> files \<Rightarrow> tool_end" where
  "signer E args fs =
     (if length args < 2
      then Fatal (''Usage: go run tools/signer.go '' @ [CHR 0x27] @ ''<json_manifest>'' @ [CHR 0x27])
      else
        (let rawManifest = args ! 1 in
         case read_file E fs ''certs/private.pem'' of
           Inl e \<Rightarrow> Fatal (''Failed to read private key file ./certs/private.pem: '' @ e)
         | Inr privBytes \<Rightarrow>
        (case tl_pemDecode E privBytes of
           None \<Rightarrow> Fatal ''Failed to decode PEM block containing EC PRIVATE KEY''
         | Some (ty, block) \<Rightarrow>
             if ty \<noteq> ''EC PRIVATE KEY'' then Fatal ''Failed to decode PEM block containing EC PRIVATE KEY''
             else
        (case tl_parseEC E block of
           Inl e \<Rightarrow> Fatal (''Failed to parse EC Private Key: '' @ e)
         | Inr privKey \<Rightarrow>
        (case SignASN1 E privKey (tl_sha256 E rawManifest) of
           Inl e \<Rightarrow> Fatal (''Failed to sign manifest hash block: '' @ e)
         | Inr sigBytes \<Rightarrow> Finished (EncodeToString sigBytes))))))"

definition SignManifestHelper :: "'sk tool_env \<Rightarrow> string \<Rightarrow> bytes \<Rightarrow> string + string" where
  "SignManifestHelper E rawManifest privateKeyPEM =
     (case tl_pemDecode E privateKeyPEM of
        None \<Rightarrow> Inl ''failed to decode private key PEM''
      | Some (ty, block) \<Rightarrow>
     (case (case tl_parseEC E block of
              Inr k \<Rightarrow> Inr k
            | Inl _ \<Rightarrow>
                (case tl_parsePKCS8 E block of
                   Inl e \<Rightarrow> Inl e
                 | Inr None \<Rightarrow> Inl ''not an ECDSA private key''
                 | Inr (Some k) \<Rightarrow> Inr k)) of
        Inl e \<Rightarrow> Inl e
      | Inr privKey \<Rightarrow> map_sum id EncodeToString (SignASN1 E privKey (tl_sha256 E rawManifest))))"

end
