(* ===== verification/Provisioning.thy ===== *)
theory Provisioning
  imports Deployment Tools
begin

text \<open>
  How the gateway gets its keys: the files the tools write, the files \<open>main\<close> reads, and what they make
  of each other. The laws of PEM, of the key formats and of ECDSA are hypotheses.
\<close>

subsection \<open>The laws of the libraries\<close>

text \<open>
  What is encoded is decoded to the same; \<open>pub\<close> is the public key of a private key. A P-256 signature has
  coordinates below the order of the curve, and verifies against the public key.
\<close>

definition decodes :: "'sk tool_env \<Rightarrow> ('sk \<Rightarrow> 'pk) \<Rightarrow> 'pk boot_env \<Rightarrow> bool" where
  "decodes E pub B \<longleftrightarrow>
     (\<forall>ty b. tl_pemDecode E (tl_pemEncode E ty b) = Some (ty, b))
     \<and> (\<forall>ty b. bt_pemDecode B (tl_pemEncode E ty b) = Some b)
     \<and> (\<forall>sk b. tl_marshalEC E sk = Inr b \<longrightarrow> tl_parseEC E b = Inr sk \<and> (\<exists>sign. bt_parseEC B b = Inr sign))
     \<and> (\<forall>sk b. tl_marshalPKIX E sk = Inr b \<longrightarrow> bt_parsePKIX B b = Inr (Some (pub sk)))"

definition signs_for ::
  "'sk tool_env \<Rightarrow> ('sk \<Rightarrow> 'pk) \<Rightarrow> (bytes \<Rightarrow> bytes) \<Rightarrow> ('pk \<Rightarrow> bytes \<Rightarrow> int \<Rightarrow> int \<Rightarrow> bool) \<Rightarrow> bool" where
  "signs_for E pub sha256 ecdsa \<longleftrightarrow>
     tl_sha256 E = sha256
     \<and> (\<forall>sk d r s. tl_sign E sk d = Inr (r, s) \<longrightarrow>
          r < 2 ^ 256 \<and> s < 2 ^ 256 \<and> ecdsa (pub sk) d (int r) (int s))"

subsection \<open>Lemmas: a signature made by a tool\<close>

lemma der_nat_short: "n < 128 * 256 ^ k \<Longrightarrow> length (der_nat n) \<le> Suc k"
proof (induction k arbitrary: n)
  case 0
  then show ?case by (simp add: der_nat.simps [of n])
next
  case (Suc k)
  then have "n div 256 < 128 * 256 ^ k" by (simp add: less_mult_imp_div_less mult_ac)
  from Suc.IH [OF this] show ?case by (subst der_nat.simps) simp
qed

lemma der_nat_coordinate: "n < 2 ^ 256 \<Longrightarrow> length (der_nat n) \<le> 33"
  using der_nat_short [of n 32] by simp

lemma signature_fits:
  assumes "r < 2 ^ 256" and "s < 2 ^ 256"
  shows "asn1_Unmarshal (asn1_Marshal r s) = Inr (\<lparr> es_R = Some (int r), es_S = Some (int s) \<rparr>, [])"
proof -
  have "length (der_tlv 2 (der_nat r) @ der_tlv 2 (der_nat s) @ []) < 256"
    using der_nat_coordinate [OF assms(1)] der_nat_coordinate [OF assms(2)] by (simp add: der_tlv_def der_len_def)
  from asn1_der_signature [OF this, of "[]"] show ?thesis by (simp add: asn1_Marshal_def)
qed

lemma signed_checks:
  assumes "signs_for E pub h ecdsa" and "tl_sign E sk (h m) = Inr (r, s)"
  shows "check_signature h ecdsa (pub sk) m (EncodeToString (asn1_Marshal r s)) = None"
  using assms signature_fits [of r s] by (auto simp: signs_for_def check_signature_None_iff hex_roundtrip)

text \<open>A booted validator has the key of the file, and no nonce is live.\<close>

lemma boot_validator:
  assumes "boot B = Listening g"
  shows "NewProvenanceValidator (bt_publicKey B) (bt_pemDecode B) (bt_parsePKIX B) (5 * minute) = Inr (gw_validator g)"
    "gw_playgroundKey g = boot_playground_key B"
  using assms
  by (auto simp: boot_def Let_def boot_panic_def run_deferred_def split: sum.splits prod.splits)

lemma boot_key:
  assumes "boot B = Listening g" and "decodes E pub B" and "tl_marshalPKIX E sk = Inr b"
    and "bt_publicKey B = Inr (tl_pemEncode E ty b)"
  shows "pv_pubKey (gw_validator g) = pub sk" "pv_nonceCache (gw_validator g) = NewNonceCache (5 * minute)"
proof -
  have "\<lparr> pv_pubKey = pub sk, pv_nonceCache = NewNonceCache (5 * minute) \<rparr> = gw_validator g"
    using boot_validator(1) [OF assms(1)] assms(2-4) by (auto simp: decodes_def NewProvenanceValidator_def)
  from this [symmetric] show "pv_pubKey (gw_validator g) = pub sk"
    "pv_nonceCache (gw_validator g) = NewNonceCache (5 * minute)" by simp_all
qed

lemma fresh_cache: "n \<noteq> [] \<Longrightarrow> fst (nonce_Register t n (NewNonceCache ttl))"
  by (simp add: Register_fresh_iff nonce_live_def NewNonceCache_def gm_get_def)

subsection \<open>Lemmas: the sample request\<close>

lemma sample_manifest_decodes:
  "unmarshalManifest (sample_manifest nano unix) =
     Some \<lparr> ms_ToolName = ''python_interpreter'', ms_Nonce = sample_nonce nano, ms_Timestamp = unix \<rparr>"
  unfolding sample_manifest_def
  by (rule unmarshalManifest_printed) (simp_all add: sample_nonce_def dec64_def ascii_dec)

definition sample_variables :: "(string, json) gomap" where
  "sample_variables = [(''param1'', JArr [JStr ''val1'', JStr ''val2''])]"

lemma hex_ascii: "ascii_text (EncodeToString bs)"
proof -
  have "n < 16 \<Longrightarrow> byte_val (hex_digit n) < 128" for n by (auto simp: hex_digit_def)
  then have "byte_val (hex_digit (byte_val c div 16)) < 128" "byte_val (hex_digit (byte_val c mod 16)) < 128" for c
    by (simp_all add: less_mult_imp_div_less)
  then show ?thesis by (induction bs) (auto simp: EncodeToString_def ascii_text_def ascii_def)
qed

lemma sample_manifest_ascii: "ascii_text (sample_manifest nano unix)"
  unfolding sample_manifest_def by (rule ascii_Marshal) (simp add: sample_nonce_def dec64_def ascii_dec)

lemma sample_request_decodes:
  "unmarshalRequest (sample_request (sample_manifest nano unix) (EncodeToString bs)) =
     Some \<lparr> ir_Script = sample_script, ir_Variables = sample_variables, ir_Manifest = sample_manifest nano unix,
            ir_Signature = EncodeToString bs, ir_AgentID = [] \<rparr>"
  unfolding sample_request_def unmarshalRequest_def
  by (subst json_parse_MarshalIndent)
    (simp_all add: max_depth_def sample_manifest_ascii hex_ascii sample_script_def to_struct_def store_request_def
      field_keys set_string_def set_map_def gm_put_def sample_variables_def)

lemma sample_scrubbed: "scrubInput sample_script sample_variables = Inr (sample_script, sample_variables)"
proof -
  have "\<forall>kv \<in> set sample_variables. clean_variable kv"
    by (simp add: sample_variables_def clean_variable_def clean_key_def clean_text_def is_dec_def List.map_filter_def)
  moreover have "gm_wf sample_variables" by (simp add: sample_variables_def gm_wf_def)
  ultimately have "scrub_loop sample_variables [] = Inr sample_variables"
    using scrub_loop_spec [of "[]" sample_variables] by (cases "scrub_loop sample_variables []") simp_all
  moreover have "\<not> str_contains sample_script nul"
    by (simp add: sample_script_def nul_def str_contains_char)
  ultimately show ?thesis by (simp add: scrubInput_def)
qed


lemma generate_keys_finishes:
  assumes "generate_keys E fs = (fs', Finished req)"
  shows "\<exists>sk pb r s. tl_marshalPKIX E sk = Inr pb \<and> fs' ''public_key.pem'' = Some (tl_pemEncode E ''PUBLIC KEY'' pb)
     \<and> tl_sign E sk (tl_sha256 E (sample_manifest (tl_nano E) (tl_unix E))) = Inr (r, s)
     \<and> req = sample_request (sample_manifest (tl_nano E) (tl_unix E)) (EncodeToString (asn1_Marshal r s))
     \<and> fs' ''certs/private.pem'' = fs ''certs/private.pem''
     \<and> (tl_open E ''test_payload.json'' = None \<and> tl_write E ''test_payload.json'' = None \<longrightarrow>
          fs' ''test_payload.json'' = Some req)"
  using assms
  by (auto simp: generate_keys_def write_sample_def write_file_def Let_def
      split: sum.splits prod.splits option.splits if_splits; fast)

lemma keygen_finishes:
  assumes "keygen E fs = (fs', Finished msg)"
  shows "\<exists>sk b pb. tl_marshalEC E sk = Inr b \<and> tl_marshalPKIX E sk = Inr pb
     \<and> fs' ''certs/private.pem'' = Some (tl_pemEncode E ''EC PRIVATE KEY'' b)
     \<and> fs' ''certs/public.pem'' = Some (tl_pemEncode E ''PUBLIC KEY'' pb)
     \<and> fs' ''public_key.pem'' = fs ''public_key.pem''"
  using assms
  by (auto simp: keygen_def write_file_def split: sum.splits prod.splits option.splits if_splits; fast)

lemma tools_leave:
  "keygen E fs = (fs', out) \<Longrightarrow> fs' ''public_key.pem'' = fs ''public_key.pem''"
  "generate_keys E fs = (fs', out) \<Longrightarrow> fs' ''certs/private.pem'' = fs ''certs/private.pem''"
  by (auto simp: keygen_def generate_keys_def write_sample_def write_file_def Let_def
      split: sum.splits prod.splits option.splits)

subsection \<open>A toolchain for the witnesses\<close>

text \<open>
  One private key; a PEM text has the length of its type in unary, the type and the block; every file
  can be read and written.
\<close>

definition demo_pem :: "string \<Rightarrow> bytes \<Rightarrow> bytes" where
  "demo_pem ty b = replicate (length ty) (CHR ''x'') @ CHR ''y'' # ty @ b"

definition demo_unpem :: "bytes \<Rightarrow> (string \<times> bytes) option" where
  "demo_unpem s =
     (let n = length (takeWhile (\<lambda>c. c = CHR ''x'') s); t = drop (Suc n) s in Some (take n t, drop n t))"

definition demo_tools :: "unit tool_env" where
  "demo_tools =
     \<lparr> tl_generate = Inr (), tl_marshalEC = (\<lambda>k. Inr ''s''), tl_marshalPKIX = (\<lambda>k. Inr ''p''),
       tl_pemEncode = demo_pem, tl_pemDecode = demo_unpem, tl_parseEC = (\<lambda>b. Inr ()),
       tl_parsePKCS8 = (\<lambda>b. Inl []), tl_sha256 = (\<lambda>m. m), tl_sign = (\<lambda>k d. Inr (1, 1)),
       tl_mkdir = (\<lambda>p. None), tl_open = (\<lambda>p. None), tl_write = (\<lambda>p. None), tl_read = (\<lambda>p. None),
       tl_nano = 5, tl_unix = 1000 \<rparr>"

lemma demo_unpem: "demo_unpem (demo_pem ty b) = Some (ty, b)"
proof -
  have "takeWhile (\<lambda>c. c = CHR ''x'') (demo_pem ty b) = replicate (length ty) (CHR ''x'')"
    unfolding demo_pem_def by (subst takeWhile_append2) auto
  then show ?thesis by (simp add: demo_unpem_def demo_pem_def Let_def)
qed

lemma demo_signs_for: "signs_for demo_tools (\<lambda>k. ()) (\<lambda>m. m) (\<lambda>pk d r s. True)"
  by (simp add: signs_for_def demo_tools_def)

definition demo_keyed :: "bytes \<Rightarrow> (string + bytes) \<Rightarrow> unit boot_env" where
  "demo_keyed publicKey privateKey =
     keyed_boot (\<lambda>s. map_option snd (demo_unpem s)) publicKey privateKey (\<lambda>b. Inr (\<lambda>d. Inr (asn1_Marshal 1 1)))"

lemma demo_keyed_decodes: "decodes demo_tools (\<lambda>k. ()) (demo_keyed f p)"
  by (simp add: decodes_def demo_tools_def demo_keyed_def keyed_boot_def demo_boot_def demo_unpem)

lemma demo_keyed_listens: "\<exists>g. boot (demo_keyed (demo_pem ty b) p) = Listening g"
proof -
  have "map_option snd (demo_unpem (demo_pem ty b)) = Some b" by (simp add: demo_unpem)
  from keyed_boot_listens [of "\<lambda>s. map_option snd (demo_unpem s)", OF this] show ?thesis
    unfolding demo_keyed_def by blast
qed

lemma demo_keyed_files [simp]: "bt_publicKey (demo_keyed f p) = Inr f" "bt_privateKey (demo_keyed f p) = p"
  by (simp_all add: demo_keyed_def keyed_boot_def)

lemma demo_generate: "\<exists>fs' req. generate_keys demo_tools (\<lambda>path. None) = (fs', Finished req)"
  by (simp add: generate_keys_def write_sample_def write_file_def demo_tools_def Let_def)

lemma demo_keygen: "\<exists>fs' msg. keygen demo_tools (\<lambda>path. None) = (fs', Finished msg)"
  by (simp add: keygen_def write_file_def demo_tools_def)

subsection \<open>Property: the generated request is served\<close>

text \<open>
  C15: the generator and the gateway agree. When \<open>generate_keys.go\<close> runs to its end, and the gateway has
  been brought up on the public key it wrote, then the request it printed (and, where the file could be
  written, saved as \<open>test_payload.json\<close>) is accepted, if it is posted inside the drift window: the
  counter of verified signatures grows, the answer is 200 or, when the sandbox fails, 500, and the only
  script ever written is the sample script. Encoding, signing, marshalling, indentation, parsing, DER and
  hexadecimal decoding and scrubbing are the definitions of the model; PEM, the key formats, SHA-256 and
  the curve obey their laws.
\<close>

theorem generated_payload_accepted:
  assumes "generate_keys E fs = (fs', Finished req)"
    and "decodes E pub B" and "signs_for E pub (gx_sha256 X) (gx_ecdsa X)"
    and "bt_publicKey B = read_file E fs' ''public_key.pem''" and "boot B = Listening g"
    and "\<not> drift_exceeded (gx_unix1 X) (gx_unix2 X) (tl_unix E)"
    and "hr_Method r = ''POST''" and "hr_Body r = (req, None)"
    and "handleIntercept X r g = (g', status, resp, tr)"
  shows "gw_VerifiedSignatures g' = gw_VerifiedSignatures g + 1
     \<and> status \<in> {200, 500} \<and> (is_Success resp \<longleftrightarrow> status = 200)
     \<and> (\<forall>p c n. WriteScript p c n \<in> set tr \<longrightarrow> c = sample_script)
     \<and> (tl_open E ''test_payload.json'' = None \<and> tl_write E ''test_payload.json'' = None \<longrightarrow>
          fs' ''test_payload.json'' = Some req)"
proof -
  let ?m = "sample_manifest (tl_nano E) (tl_unix E)"
  obtain sk pb x y where sk: "tl_marshalPKIX E sk = Inr pb"
      "fs' ''public_key.pem'' = Some (tl_pemEncode E ''PUBLIC KEY'' pb)"
      "tl_sign E sk (tl_sha256 E ?m) = Inr (x, y)"
    and req: "req = sample_request ?m (EncodeToString (asn1_Marshal x y))"
    and saved: "tl_open E ''test_payload.json'' = None \<and> tl_write E ''test_payload.json'' = None \<longrightarrow>
          fs' ''test_payload.json'' = Some req"
    using generate_keys_finishes [OF assms(1)] by blast
  have "bt_publicKey B = Inr (tl_pemEncode E ''PUBLIC KEY'' pb)"
    using boot_validator(1) [OF assms(5)] assms(4) sk(2)
    by (auto simp: read_file_def NewProvenanceValidator_def split: option.splits)
  note v = boot_key [OF assms(5,2) sk(1) this]
  have "tl_sign E sk (gx_sha256 X ?m) = Inr (x, y)" using sk(3) assms(3) by (simp add: signs_for_def)
  note ok = signed_checks [OF assms(3) this]
  let ?sig = "EncodeToString (asn1_Marshal x y)"
  let ?n = "sample_nonce (tl_nano E)"
  obtain v' where V: "Verify (gx_sha256 X) (gx_ecdsa X) (gx_now X) ?m ?sig ?n (gw_validator g) = (None, v')"
    using Verify_fresh [of "gx_now X" ?n "gw_validator g" "gx_sha256 X" "gx_ecdsa X" ?m ?sig] v ok fresh_cache [of ?n]
    by (auto simp: sample_nonce_def) (metis prod.collapse)
  let ?req = "\<lparr> ir_Script = sample_script, ir_Variables = sample_variables, ir_Manifest = ?m, ir_Signature = ?sig,
     ir_AgentID = [] \<rparr>"
  have "authorised X r g ?req \<lparr> ms_ToolName = ''python_interpreter'', ms_Nonce = ?n, ms_Timestamp = tl_unix E \<rparr> v'"
    using assms(6-8) V req
    by (simp add: authorised_def sample_request_decodes sample_manifest_decodes sample_scrubbed sample_nonce_def)
  note l = launch_spec [OF assms(9) [unfolded intercept_launches [OF this]]]
  show ?thesis using l sandbox_run_scripts saved by fastforce
qed

theorem generated_payload_accepted_witness:
  "\<exists>fs' req f g g' status resp tr. generate_keys demo_tools (\<lambda>path. None) = (fs', Finished req)
     \<and> fs' ''public_key.pem'' = Some f \<and> boot (demo_keyed f (Inl [])) = Listening g
     \<and> handleIntercept demo_genv \<lparr> hr_Method = ''POST'', hr_Body = (req, None), hr_RemoteAddr = [] \<rparr> g = (g', status, resp, tr)
     \<and> gw_VerifiedSignatures g' = gw_VerifiedSignatures g + 1"
proof -
  obtain fs' req where gen: "generate_keys demo_tools (\<lambda>path. None) = (fs', Finished req)" using demo_generate by blast
  then obtain pb where f: "fs' ''public_key.pem'' = Some (demo_pem ''PUBLIC KEY'' pb)"
    using generate_keys_finishes [OF gen] by (auto simp: demo_tools_def)
  let ?f = "demo_pem ''PUBLIC KEY'' pb"
  let ?r = "\<lparr> hr_Method = ''POST'', hr_Body = (req, None), hr_RemoteAddr = [] \<rparr>"
  obtain g where g: "boot (demo_keyed ?f (Inl [])) = Listening g" using demo_keyed_listens by blast
  obtain g' status resp tr where h: "handleIntercept demo_genv ?r g = (g', status, resp, tr)" by (metis prod_cases4)
  have s: "signs_for demo_tools (\<lambda>k. ()) (gx_sha256 demo_genv) (gx_ecdsa demo_genv)"
    using demo_signs_for by (simp add: demo_genv_def)
  have p: "bt_publicKey (demo_keyed ?f (Inl [])) = read_file demo_tools fs' ''public_key.pem''"
    using f by (simp add: read_file_def demo_tools_def)
  have d: "\<not> drift_exceeded (gx_unix1 demo_genv) (gx_unix2 demo_genv) (tl_unix demo_tools)"
    by (simp add: drift_exceeded_def demo_genv_def demo_tools_def)
  from generated_payload_accepted [OF gen demo_keyed_decodes s p g d _ _ h] gen f g h show ?thesis by auto
qed

subsection \<open>Property: the signer's output verifies\<close>

text \<open>
  C26: \<open>make generate-pki\<close> provisions the gateway. \<open>tools/keygen.go\<close> runs to its end and its public key
  is copied to \<open>public_key.pem\<close>. A gateway brought up on these files has its playground key; and
  whatever \<open>tools/signer.go\<close> prints for a manifest (as well as what \<open>SignManifestHelper\<close> returns for it)
  is a signature that this gateway accepts for that very text, under any nonce that is not empty.
\<close>

theorem signer_output_verifies:
  assumes "keygen E fs = (fs1, Finished msg)" and "fs2 = fs1(''public_key.pem'' := fs1 ''certs/public.pem'')"
    and "decodes E pub B" and "signs_for E pub h ecdsa" and "tl_read E = (\<lambda>path. None)"
    and "bt_publicKey B = read_file E fs2 ''public_key.pem''" and "bt_privateKey B = read_file E fs2 ''certs/private.pem''"
    and "boot B = Listening g" and "nonce \<noteq> []"
  shows "gw_playgroundKey g \<noteq> None
     \<and> (\<forall>args s. signer E args fs2 = Finished s \<longrightarrow>
          fst (Verify h ecdsa now (args ! 1) s nonce (gw_validator g)) = None)
     \<and> (\<forall>m s. SignManifestHelper E m (the (fs2 ''certs/private.pem'')) = Inr s \<longrightarrow>
          fst (Verify h ecdsa now m s nonce (gw_validator g)) = None)"
proof -
  obtain sk b pb where k: "tl_marshalEC E sk = Inr b" "tl_marshalPKIX E sk = Inr pb"
      "fs2 ''certs/private.pem'' = Some (tl_pemEncode E ''EC PRIVATE KEY'' b)"
      "fs2 ''public_key.pem'' = Some (tl_pemEncode E ''PUBLIC KEY'' pb)"
    using keygen_finishes [OF assms(1)] assms(2) by auto
  have "bt_publicKey B = Inr (tl_pemEncode E ''PUBLIC KEY'' pb)" using assms(5,6) k(4) by (simp add: read_file_def)
  note v = boot_key [OF assms(8,3) k(2) this]
  have priv: "bt_privateKey B = Inr (tl_pemEncode E ''EC PRIVATE KEY'' b)" using assms(5,7) k(3) by (simp add: read_file_def)
  have hash: "tl_sha256 E = h" using assms(4) by (simp add: signs_for_def)
  have ok: "fst (Verify h ecdsa now m (EncodeToString sig) nonce (gw_validator g)) = None"
    if signed: "SignASN1 E sk (tl_sha256 E m) = Inr sig" for m sig
  proof -
    obtain x y where xy: "tl_sign E sk (h m) = Inr (x, y)" "sig = asn1_Marshal x y"
      using signed hash by (cases "tl_sign E sk (h m)") (auto simp: SignASN1_def)
    have "check_signature h ecdsa (pv_pubKey (gw_validator g)) m (EncodeToString sig) = None"
      using signed_checks [OF assms(4) xy(1)] by (simp add: v xy(2))
    then show ?thesis using Verify_fresh fresh_cache [OF assms(9)] v(2) by metis
  qed
  have parse: "tl_pemDecode E (tl_pemEncode E ty c) = Some (ty, c)" "tl_parseEC E b = Inr sk" for ty c
    using assms(3) k(1) by (auto simp: decodes_def)
  obtain sign where "bt_parseEC B b = Inr sign" using assms(3) k(1) unfolding decodes_def by blast
  moreover have "bt_pemDecode B (tl_pemEncode E ty c) = Some c" for ty c using assms(3) by (simp add: decodes_def)
  ultimately have "gw_playgroundKey g \<noteq> None"
    using priv by (simp add: boot_validator(2) [OF assms(8)] boot_playground_key_def)
  moreover have "fst (Verify h ecdsa now (args ! 1) s nonce (gw_validator g)) = None"
    if "signer E args fs2 = Finished s" for args s
    using that ok k(3) assms(5) parse
    by (auto simp: signer_def read_file_def Let_def split: if_splits sum.splits)
  moreover have "fst (Verify h ecdsa now m s nonce (gw_validator g)) = None"
    if "SignManifestHelper E m (the (fs2 ''certs/private.pem'')) = Inr s" for m s
    using that ok [of m] k(3) parse
    by (cases "SignASN1 E sk (tl_sha256 E m)") (auto simp: SignManifestHelper_def)
  ultimately show ?thesis by blast
qed

theorem signer_output_verifies_witness:
  "\<exists>fs1 msg f p g. keygen demo_tools (\<lambda>path. None) = (fs1, Finished msg)
     \<and> boot (demo_keyed f p) = Listening g \<and> gw_playgroundKey g \<noteq> None
     \<and> fst (Verify (\<lambda>m. m) (\<lambda>pk d r s. True) 0 ''manifest'' (EncodeToString (asn1_Marshal 1 1)) ''n'' (gw_validator g)) = None"
proof -
  obtain fs1 msg where gen: "keygen demo_tools (\<lambda>path. None) = (fs1, Finished msg)" using demo_keygen by blast
  let ?fs2 = "fs1(''public_key.pem'' := fs1 ''certs/public.pem'')"
  obtain b pb where f: "?fs2 ''public_key.pem'' = Some (demo_pem ''PUBLIC KEY'' pb)"
      "?fs2 ''certs/private.pem'' = Some (demo_pem ''EC PRIVATE KEY'' b)"
    using keygen_finishes [OF gen] by (auto simp: demo_tools_def)
  let ?B = "demo_keyed (demo_pem ''PUBLIC KEY'' pb) (Inr (demo_pem ''EC PRIVATE KEY'' b))"
  obtain g where g: "boot ?B = Listening g" using demo_keyed_listens by blast
  have r: "tl_read demo_tools = (\<lambda>path. None)" by (simp add: demo_tools_def)
  have p: "bt_publicKey ?B = read_file demo_tools ?fs2 ''public_key.pem''"
      "bt_privateKey ?B = read_file demo_tools ?fs2 ''certs/private.pem''"
    using f by (simp_all add: read_file_def r)
  have n: "''n'' \<noteq> []" by simp
  note t = signer_output_verifies [OF gen HOL.refl demo_keyed_decodes demo_signs_for r p g n, of 0]
  have "signer demo_tools [[], ''manifest''] ?fs2 = Finished (EncodeToString (asn1_Marshal 1 1))"
    using f(2) by (simp add: signer_def read_file_def demo_tools_def demo_unpem SignASN1_def Let_def)
  with t have "fst (Verify (\<lambda>m. m) (\<lambda>pk d r s. True) 0 ''manifest'' (EncodeToString (asn1_Marshal 1 1)) ''n''
      (gw_validator g)) = None" by fastforce
  with t gen g show ?thesis by blast
qed

subsection \<open>Property: neither tool alone provisions both keys\<close>

text \<open>
  Each generator leaves out a file. \<open>main\<close> reads \<open>public_key.pem\<close> and \<open>certs/private.pem\<close>.
  \<open>generate_keys.go\<close>, the program the start-up error names, never writes the second: on a fresh
  checkout the playground then answers 500 to every script. \<open>tools/keygen.go\<close> never writes the first:
  without the copy the Makefile makes, \<open>main\<close> ends with status 1.
\<close>

theorem tools_write_apart:
  assumes "tl_read E = (\<lambda>path. None)"
    and "bt_publicKey B = read_file E fs' ''public_key.pem''" and "bt_privateKey B = read_file E fs' ''certs/private.pem''"
  shows "(fs ''certs/private.pem'' = None \<and> generate_keys E fs = (fs', out) \<and> boot B = Listening g \<and> hr_Method r = ''POST''
       \<longrightarrow> gw_playgroundKey g = None
           \<and> handlePlaygroundRun X r g = (g, 500, refusal ''Playground private key not loaded on server. Cannot sign manifest.'', []))
     \<and> (fs ''public_key.pem'' = None \<and> keygen E fs = (fs', out)
       \<longrightarrow> (\<exists>p c. boot B = Ended p c \<and> pr_exit p = Some 1))"
proof (intro conjI impI; elim conjE)
  assume f: "fs ''certs/private.pem'' = None" "generate_keys E fs = (fs', out)" and b: "boot B = Listening g"
    and p: "hr_Method r = ''POST''"
  have "fs' ''certs/private.pem'' = None" using tools_leave(2) [OF f(2)] f(1) by simp
  then have "\<exists>e. bt_privateKey B = Inl e" using assms(1,3) by (simp add: read_file_def)
  then show k: "gw_playgroundKey g = None" by (auto simp: boot_validator(2) [OF b] boot_playground_key_def)
  show "handlePlaygroundRun X r g = (g, 500, refusal ''Playground private key not loaded on server. Cannot sign manifest.'', [])"
    using p by (simp add: handlePlaygroundRun_def k answer_plain_def)
next
  assume f: "fs ''public_key.pem'' = None" "keygen E fs = (fs', out)"
  have "fs' ''public_key.pem'' = None" using tools_leave(1) [OF f(2)] f(1) by simp
  then obtain e where "bt_publicKey B = Inl e" using assms(1,2) by (simp add: read_file_def)
  then have "NewProvenanceValidator (bt_publicKey B) (bt_pemDecode B) (bt_parsePKIX B) (5 * minute) = Inl (KeyRead e)"
    by (simp add: NewProvenanceValidator_def)
  then show "\<exists>p c. boot B = Ended p c \<and> pr_exit p = Some 1"
    by (auto simp: boot_def Let_def log_Fatal_def split: sum.split prod.split)
qed

theorem tools_write_apart_witness:
  "\<exists>fs' req g. generate_keys demo_tools (\<lambda>path. None) = (fs', Finished req)
     \<and> boot (demo_keyed (the (fs' ''public_key.pem'')) (read_file demo_tools fs' ''certs/private.pem'')) = Listening g
     \<and> gw_playgroundKey g = None"
proof -
  obtain fs' req where gen: "generate_keys demo_tools (\<lambda>path. None) = (fs', Finished req)" using demo_generate by blast
  then obtain pb where f: "fs' ''public_key.pem'' = Some (demo_pem ''PUBLIC KEY'' pb)"
    using generate_keys_finishes [OF gen] by (auto simp: demo_tools_def)
  let ?B = "demo_keyed (demo_pem ''PUBLIC KEY'' pb) (read_file demo_tools fs' ''certs/private.pem'')"
  obtain g where g: "boot ?B = Listening g" using demo_keyed_listens by blast
  have r: "tl_read demo_tools = (\<lambda>path. None)" by (simp add: demo_tools_def)
  have p: "bt_publicKey ?B = read_file demo_tools fs' ''public_key.pem''"
      "bt_privateKey ?B = read_file demo_tools fs' ''certs/private.pem''"
    using f by (simp_all add: read_file_def r)
  from tools_write_apart [OF r p, of "\<lambda>path. None" "Finished req" g demo_post demo_genv] gen g
  have "gw_playgroundKey g = None" by (simp add: demo_post_def)
  with gen g f show ?thesis by auto
qed

end
