(* ===== verification/Replay.thy ===== *)
theory Replay
  imports Interleave Provisioning
begin

text \<open>
  A request sent twice: to the gateway while it serves any number of others at the same time, and to the
  gateway after a restart.
\<close>

subsection \<open>Lemmas: a spent nonce\<close>

text \<open>The nonce is in the cache, with an expiry of at least \<open>E\<close>.\<close>

definition spent_cache :: "time \<Rightarrow> string \<Rightarrow> NonceCache \<Rightarrow> bool" where
  "spent_cache E n nc \<longleftrightarrow>
     nonce_wf nc \<and> 0 \<le> nc_ttl nc \<and> (\<exists>expiry \<ge> E. gm_get (nc_nonces nc) n = Some expiry)"

abbreviation spent :: "time \<Rightarrow> string \<Rightarrow> 'pk gateway \<Rightarrow> bool" where
  "spent E n g \<equiv> spent_cache E n (pv_nonceCache (gw_validator g))"

text \<open>An attempt that fails leaves the entry, one that succeeds puts a later one: time has passed it.\<close>

lemma spent_Register:
  assumes "spent_cache E n nc"
  shows "spent_cache E n (snd (nonce_Register t nonce nc))"
proof -
  obtain x where x: "E \<le> x" "gm_get (nc_nonces nc) n = Some x" and wf: "nonce_wf nc" and ttl: "0 \<le> nc_ttl nc"
    using assms by (auto simp: spent_cache_def)
  have "x \<le> t" if "fst (nonce_Register t nonce nc)" and "nonce = n"
    using that x by (simp add: Register_fresh_iff nonce_live_def)
  then have "\<exists>y \<ge> E. gm_get (nc_nonces (snd (nonce_Register t nonce nc))) n = Some y"
    using x ttl by (fastforce simp: Register_get [OF wf])
  then show ?thesis using Register_wf [OF wf] ttl by (simp add: spent_cache_def)
qed

lemma spent_cleanup:
  assumes "spent_cache E n nc" and "t \<le> E"
  shows "spent_cache E n (cleanup_tick t nc)"
  using assms cleanup_get [of nc t n] by (auto simp: spent_cache_def cleanup_wf)

lemma spent_refuses:
  assumes "spent_cache E n (pv_nonceCache v)" and "t < E"
  shows "fst (Verify h ecdsa t m s n v) = Some NonceRejected"
  using assms by (auto simp: Verify_rejected_iff Register_fresh_iff nonce_live_def spent_cache_def)

subsection \<open>What requests do to the validator\<close>

text \<open>
  Requests reach the validator through \<open>Verify\<close> alone, so a preorder on validators that admits \<open>Verify\<close>
  holds across any history of calls, and across any interleaving of them when it also admits the clean-up.
\<close>

locale validator_relation =
  fixes V :: "'pk ProvenanceValidator \<Rightarrow> 'pk ProvenanceValidator \<Rightarrow> bool"
  assumes V_refl: "V v v"
    and V_trans: "V u v \<Longrightarrow> V v w \<Longrightarrow> V u w"
    and V_verify: "V v (snd (Verify sha ecdsa t m s n v))"

sublocale validator_relation \<subseteq> request_relation "\<lambda>g g'. V (gw_validator g) (gw_validator g')"
proof
  fix X script and g g' :: "'pk gateway" and pid res tr
  assume "run_sandbox X script g = (g', pid, res, tr)"
  then show "V (gw_validator g) (gw_validator g')" using V_refl by (simp add: run_sandbox_frame(1))
qed (auto simp: emit_def V_refl V_verify intro: V_trans)

context validator_relation
begin

lemma hub_step_rel:
  assumes "hub_step busy ok s s'"
    and clean: "\<And>X v. ok X \<Longrightarrow> V v (v\<lparr>pv_nonceCache := cleanup_tick (gx_now X) (pv_nonceCache v)\<rparr>)"
  shows "V (gw_validator (fst s)) (gw_validator (fst s'))"
  using assms(1)
proof cases
  case (refuse_intercept X r g g' status resp tr ts)
  then show ?thesis using intercepted [OF refuse_intercept(4)] by simp
next
  case (refuse_playground X r g g' status resp tr ts)
  then show ?thesis using played [OF refuse_playground(4)] by simp
next
  case (intercept X r g req manifest v' ts)
  then have "V (gw_validator g) v'" by (auto simp: authorised_def dest!: verified)
  then show ?thesis by (simp add: intercept intercept_entry_def emit_def Let_def)
next
  case (playground X r g script v' ts)
  then have "V (gw_validator g) v'" by (auto simp: play_authorised_def dest!: verified)
  then show ?thesis by (simp add: playground playground_entry_def)
next
  case (answer i ts g pid state detail)
  then show ?thesis by (simp add: answer_run_def emit_def Let_def V_refl split: option.split prod.split)
next
  case (tidy X g ts)
  then show ?thesis using clean by simp
qed (simp_all add: V_refl)

lemma hub_reach_rel:
  assumes "hub_reach busy ok s s'"
    and "\<And>X v. ok X \<Longrightarrow> V v (v\<lparr>pv_nonceCache := cleanup_tick (gx_now X) (pv_nonceCache v)\<rparr>)"
  shows "V (gw_validator (fst s)) (gw_validator (fst s'))"
  using assms(1) by (induction rule: hub_reach.induct) (auto intro: V_refl V_trans hub_step_rel [OF _ assms(2)])

end

interpretation spent: validator_relation
  "\<lambda>v v'. spent_cache E n (pv_nonceCache v) \<longrightarrow> spent_cache E n (pv_nonceCache v')" for E n
  by unfold_locales (auto simp: Verify_cache spent_Register)

text \<open>The key and the lifetime of a nonce stay; the cache stays well formed.\<close>

definition validator_kept :: "'pk ProvenanceValidator \<Rightarrow> 'pk ProvenanceValidator \<Rightarrow> bool" where
  "validator_kept v v' \<longleftrightarrow>
     pv_pubKey v' = pv_pubKey v \<and> nc_ttl (pv_nonceCache v') = nc_ttl (pv_nonceCache v)
     \<and> (nonce_wf (pv_nonceCache v) \<longrightarrow> nonce_wf (pv_nonceCache v'))"

interpretation kept: validator_relation validator_kept
  by unfold_locales (auto simp: validator_kept_def Verify_cache Register_wf)

lemma kept_cleanup: "validator_kept v (v\<lparr>pv_nonceCache := cleanup_tick t (pv_nonceCache v)\<rparr>)"
  by (simp add: validator_kept_def cleanup_wf)

subsection \<open>Property: replays among concurrent requests\<close>

text \<open>
  C5: no replay in any interleaving. Take the deployed gateway in the middle of any number of concurrent
  requests, and let it admit one to \<open>/api/v1/intercept\<close>. Whatever is admitted, refused, started, ended and
  tidied up after that within five minutes, in any order: another request whose manifest carries the same nonce,
  whoever signed it, is answered with an error and causes nothing, even while the first is still running.
\<close>

theorem concurrent_replay_refused:
  assumes "boot B = Listening g0" and "hub_reach busy ok0 (g0, []) (g, ts)"
    and "authorised X r g req manifest v'"
    and "hub_reach busy ok (intercept_entry X r (agent_of req) (ms_ToolName manifest) v' g, ts @ [t]) (g1, us)"
    and "\<And>Z. ok Z \<Longrightarrow> gx_now Z \<le> gx_now X + 5 * minute"
    and "unmarshalRequest (fst (hr_Body q)) = Some req1" and "unmarshalManifest (ir_Manifest req1) = Some manifest1"
    and "ms_Nonce manifest1 = ms_Nonce manifest" and "gx_now Y < gx_now X + 5 * minute"
    and "handleIntercept Y q g1 = (g2, status, resp, tr)"
  shows "status \<in> {400, 401, 405} \<and> tr = [] \<and> gw_VerifiedSignatures g2 = gw_VerifiedSignatures g1"
proof -
  let ?E = "gx_now X + 5 * minute" and ?n = "ms_Nonce manifest"
  have b: "nonce_wf (pv_nonceCache (gw_validator g0))" "nc_ttl (pv_nonceCache (gw_validator g0)) = 5 * minute"
    using NewProvenanceValidator_wf [OF boot_validator(1) [OF assms(1)]] by simp_all
  have k: "nonce_wf (pv_nonceCache (gw_validator g))" "nc_ttl (pv_nonceCache (gw_validator g)) = 5 * minute"
    using kept.hub_reach_rel [OF assms(2) kept_cleanup] b by (simp_all add: validator_kept_def)
  have v: "Verify (gx_sha256 X) (gx_ecdsa X) (gx_now X) (ir_Manifest req) (ir_Signature req) ?n (gw_validator g) = (None, v')"
    using assms(3) by (simp add: authorised_def)
  have "nonce_wf (pv_nonceCache v') \<and> gm_get (nc_nonces (pv_nonceCache v')) ?n = Some ?E"
    using Verify_registers [OF k(1), of "gx_sha256 X" "gx_ecdsa X" "gx_now X" "ir_Manifest req" "ir_Signature req" ?n]
    by (simp add: v k(2))
  moreover have "nc_ttl (pv_nonceCache v') = 5 * minute"
    using kept.V_verify [of "gw_validator g" "gx_sha256 X" "gx_ecdsa X" "gx_now X" "ir_Manifest req" "ir_Signature req" ?n]
    by (simp add: v k(2) validator_kept_def)
  ultimately have "spent_cache ?E ?n (pv_nonceCache v')" by (simp add: spent_cache_def minute_def second_def)
  then have "spent_cache ?E ?n (pv_nonceCache (gw_validator g1))"
    using spent.hub_reach_rel [OF assms(4), of ?E ?n] assms(5)
    by (simp add: spent_cleanup intercept_entry_def emit_def Let_def)
  from spent_refuses [OF this assms(9)]
  have refused: "fst (Verify h ecdsa (gx_now Y) m s (ms_Nonce manifest1) (gw_validator g1)) = Some NonceRejected" for h ecdsa m s
    by (simp add: assms(8))
  have no: "\<not> (\<exists>req' m' w. authorised Y q g1 req' m' w)"
  proof (intro notI, elim exE)
    fix req' m' w
    assume "authorised Y q g1 req' m' w"
    then have "fst (Verify (gx_sha256 Y) (gx_ecdsa Y) (gx_now Y) (ir_Manifest req1) (ir_Signature req1)
        (ms_Nonce manifest1) (gw_validator g1)) = None"
      using assms(6,7) by (auto simp: authorised_def)
    then show False using refused by simp
  qed
  show ?thesis
  proof (cases "readable q")
    case False
    from intercept_unreadable [OF this, of Y g1] assms(10) show ?thesis by auto
  next
    case True
    from intercept_refuses [OF True no] assms(10) show ?thesis by (auto simp: answer_fail_def emit_def)
  qed
qed

lemma demo_boot_validator: "boot demo_boot = Listening g \<Longrightarrow> gw_validator g = demo_validator"
  using boot_validator(1) [of demo_boot g]
  by (simp add: demo_boot_def NewProvenanceValidator_def demo_validator_def)

lemma demo_boot_authorised:
  assumes "boot demo_boot = Listening g"
  shows "\<exists>v'. authorised demo_genv demo_post g demo_intercept
     \<lparr> ms_ToolName = ''t'', ms_Nonce = ''n'', ms_Timestamp = 1000 \<rparr> v'"
proof -
  have "gw_validator g = gw_validator (armed undefined)" using demo_boot_validator [OF assms] by (simp add: armed_def)
  from authorised_cong [OF this] show ?thesis using demo_authorised [of undefined] by simp
qed

lemma demo_reads:
  "unmarshalRequest (fst (hr_Body demo_post)) = Some demo_intercept"
  "unmarshalManifest (ir_Manifest demo_intercept) = Some \<lparr> ms_ToolName = ''t'', ms_Nonce = ''n'', ms_Timestamp = 1000 \<rparr>"
  by (simp_all add: demo_post_def demo_intercept_def demo_decodes)

text \<open>The same request twice, with a clean-up in between.\<close>

theorem concurrent_replay_refused_witness:
  "\<exists>g s g1 g2 status resp. boot demo_boot = Listening g
     \<and> hub_step held_pids (\<lambda>Z. Z = demo_genv) (g, []) s \<and> hub_reach held_pids (\<lambda>Z. Z = demo_genv) s (g1, snd s)
     \<and> handleIntercept (demo_genv\<lparr>gx_now := 1200 * second\<rparr>) demo_post g1 = (g2, status, resp, [])"
proof -
  let ?m = "\<lparr> ms_ToolName = ''t'', ms_Nonce = ''n'', ms_Timestamp = 1000 \<rparr>" and ?ok = "\<lambda>Z. Z = demo_genv"
  let ?Y = "demo_genv\<lparr>gx_now := 1200 * second\<rparr>"
  let ?t = "\<lparr> tk_env = demo_genv, tk_script = ir_Script demo_intercept,
      tk_report = Some (agent_of demo_intercept, ms_ToolName ?m), tk_phase = Starting \<rparr>"
  obtain g where g: "boot demo_boot = Listening g" using demo_boot_listens by blast
  obtain v' where a: "authorised demo_genv demo_post g demo_intercept ?m v'" using demo_boot_authorised [OF g] by blast
  let ?e = "intercept_entry demo_genv demo_post (agent_of demo_intercept) (ms_ToolName ?m) v' g"
  have s: "hub_step held_pids ?ok (g, []) (?e, [] @ [?t])" by (rule hub_step.intercept [OF a HOL.refl])
  obtain g1 where r: "hub_reach held_pids ?ok (?e, [] @ [?t]) (g1, [] @ [?t])"
    using hub_reach_one [OF hub_step.tidy [where ok = ?ok and busy = held_pids, OF HOL.refl]] by blast
  obtain g2 status resp tr where h: "handleIntercept ?Y demo_post g1 = (g2, status, resp, tr)" by (metis prod_cases4)
  have early: "gx_now ?Y < gx_now demo_genv + 5 * minute" by (simp add: demo_genv_def minute_def second_def)
  have "gx_now Z \<le> gx_now demo_genv + 5 * minute" if "Z = demo_genv" for Z :: "unit gateway_env"
    using that by (simp add: minute_def second_def)
  from concurrent_replay_refused [OF g hub_reach.here a r this demo_reads HOL.refl early h]
  have "tr = []" by simp
  with g s r h show ?thesis by (metis snd_conv)
qed

subsection \<open>Property: replays across a restart\<close>

lemma new_validator_cache:
  "NewProvenanceValidator file pemDecode parsePKIX ttl = Inr v \<Longrightarrow> pv_nonceCache v = NewNonceCache ttl"
  by (auto simp: NewProvenanceValidator_def split: sum.splits option.splits)

text \<open>
  C24: a restart forgets the nonces. Let a request be answered by the deployed gateway, after any others, and
  the gateway then end and be brought up again on the same public key. While the manifest's timestamp is
  within the drift window the same request, byte for byte, is accepted and its script run again, however
  shortly after the first time: the nonces were in the memory of the first process.
\<close>

theorem restart_forgets_nonces:
  assumes "boot B = Listening g0" and "serve cs g0 = (g, trs)"
    and "handleIntercept X r g = (g1, status1, resp1, tr1)" and "status1 \<in> {200, 500}"
    and "unmarshalRequest (fst (hr_Body r)) = Some req" and "unmarshalManifest (ir_Manifest req) = Some manifest"
    and "boot B' = Listening h0"
    and "bt_publicKey B' = bt_publicKey B" "bt_pemDecode B' = bt_pemDecode B" "bt_parsePKIX B' = bt_parsePKIX B"
    and "gx_sha256 Y = gx_sha256 X" "gx_ecdsa Y = gx_ecdsa X"
    and "\<not> drift_exceeded (gx_unix1 Y) (gx_unix2 Y) (ms_Timestamp manifest)"
    and "handleIntercept Y r h0 = (h1, status2, resp2, tr2)"
  shows "status2 \<in> {200, 500} \<and> tr2 = so_trace (sandbox_run Y (ir_Script req) h0)
     \<and> gw_VerifiedSignatures h1 = gw_VerifiedSignatures h0 + 1"
proof -
  let ?v = "gw_validator g" and ?w = "gw_validator h0" and ?n = "ms_Nonce manifest"
  obtain v' where a: "authorised X r g req manifest v'"
    using intercept_authorised_iff [OF assms(3)] assms(4-6) by (auto simp: authorised_def)
  have w: "?w = gw_validator g0"
    using boot_validator(1) [OF assms(1)] boot_validator(1) [OF assms(7)] assms(8-10) by simp
  have key: "pv_pubKey ?w = pv_pubKey ?v" using kept.served [OF assms(2)] by (simp add: w validator_kept_def)
  have v: "Verify (gx_sha256 X) (gx_ecdsa X) (gx_now X) (ir_Manifest req) (ir_Signature req) ?n ?v = (None, v')" and n: "?n \<noteq> []"
    using a by (simp_all add: authorised_def)
  have sig: "check_signature (gx_sha256 Y) (gx_ecdsa Y) (pv_pubKey ?w) (ir_Manifest req) (ir_Signature req) = None"
    using Verify_accepts(3) [OF v] assms(11,12) by (simp add: check_signature_None_iff key)
  have "pv_nonceCache ?w = NewNonceCache (5 * minute)" by (rule new_validator_cache [OF boot_validator(1) [OF assms(7)]])
  then have fresh: "fst (nonce_Register (gx_now Y) ?n (pv_nonceCache ?w))"
    using n by (simp add: Register_fresh_iff nonce_live_def NewNonceCache_def gm_get_def)
  obtain w' where "Verify (gx_sha256 Y) (gx_ecdsa Y) (gx_now Y) (ir_Manifest req) (ir_Signature req) ?n ?w = (None, w')"
    using Verify_fresh [OF fresh, of "gx_sha256 Y" "gx_ecdsa Y" "ir_Manifest req" "ir_Signature req"] sig
    by (metis prod.collapse)
  then have b: "authorised Y r h0 req manifest w'" using a assms(13) by (auto simp: authorised_def)
  from launch_spec [OF assms(14) [unfolded intercept_launches [OF b]]] show ?thesis by (auto simp: sandbox_run_def)
qed

text \<open>The same host started twice, the same request half a second after the restart.\<close>

theorem restart_forgets_nonces_witness:
  "\<exists>g g1 resp1 tr1 status1 g2 resp2 tr2 status2. boot demo_boot = Listening g
     \<and> handleIntercept demo_genv demo_post g = (g1, status1, resp1, tr1) \<and> status1 \<in> {200, 500}
     \<and> handleIntercept (demo_genv\<lparr>gx_now := gx_now demo_genv + 500000000\<rparr>) demo_post g = (g2, status2, resp2, tr2)
     \<and> status2 \<in> {200, 500}"
proof -
  let ?Y = "demo_genv\<lparr>gx_now := gx_now demo_genv + 500000000\<rparr>"
  obtain g where g: "boot demo_boot = Listening g" using demo_boot_listens by blast
  obtain g1 status1 resp1 tr1 where h: "handleIntercept demo_genv demo_post g = (g1, status1, resp1, tr1)" by (metis prod_cases4)
  obtain g2 status2 resp2 tr2 where h2: "handleIntercept ?Y demo_post g = (g2, status2, resp2, tr2)" by (metis prod_cases4)
  have s: "status1 \<in> {200, 500}" using intercept_authorised_iff [OF h] demo_boot_authorised [OF g] by blast
  have d: "\<not> drift_exceeded (gx_unix1 ?Y) (gx_unix2 ?Y) (ms_Timestamp \<lparr> ms_ToolName = ''t'', ms_Nonce = ''n'', ms_Timestamp = 1000 \<rparr>)"
    by (simp add: demo_genv_def drift_exceeded_def)
  have e: "serve [] g = (g, [])" and same: "gx_sha256 ?Y = gx_sha256 demo_genv" "gx_ecdsa ?Y = gx_ecdsa demo_genv" by simp_all
  from restart_forgets_nonces [OF g e h s demo_reads g HOL.refl HOL.refl HOL.refl same d h2]
  have "status2 \<in> {200, 500}" by blast
  with g h s h2 show ?thesis by blast
qed

end
