(* ===== verification/Mux.thy ===== *)
theory Mux
  imports Gateway
begin

text \<open>
  The routes \<open>main.go\<close> mounts on the default \<open>ServeMux\<close>, and the server as a function of a path and a
  request. Paths are those without percent escapes; the page of the dashboard is a constant, \<open>page\<close>.
\<close>

subsection \<open>Clean paths\<close>

text \<open>
  The mux redirects a request whose path is not clean, unless it is a CONNECT. Clean: it starts with a
  slash, has no empty, \<open>.\<close> or \<open>..\<close> segment; a trailing slash stays.
\<close>

fun split_slash :: "string \<Rightarrow> string list" where
  "split_slash [] = [[]]"
| "split_slash (c # cs) =
     (if c = CHR ''/'' then [] # split_slash cs
      else (case split_slash cs of [] \<Rightarrow> [[c]] | s # ss \<Rightarrow> (c # s) # ss))"

fun clean_segments :: "string list \<Rightarrow> string list \<Rightarrow> string list" where
  "clean_segments acc [] = rev acc"
| "clean_segments acc (s # ss) =
     (if s = [] \<or> s = ''.'' then clean_segments acc ss
      else if s = ''..'' then clean_segments (tl acc) ss
      else clean_segments (s # acc) ss)"

definition cleanPath :: "string \<Rightarrow> string" where
  "cleanPath path =
     (if path = [] then ''/''
      else
        (let p = (if hd path = CHR ''/'' then path else CHR ''/'' # path);
             segs = clean_segments [] (split_slash p);
             np = (if segs = [] then ''/'' else concat (map (\<lambda>s. CHR ''/'' # s) segs))
         in if last p = CHR ''/'' \<and> np \<noteq> ''/'' then np @ ''/'' else np))"

subsection \<open>The routes\<close>

datatype route = ExecRoute endpoint | AgentsRoute | TelemetryRoute | RootRoute

definition match_route :: "string \<Rightarrow> route" where
  "match_route path =
     (if path = ''/api/v1/intercept'' then ExecRoute Intercept
      else if path = ''/api/v1/playground/run'' then ExecRoute PlaygroundRun
      else if path = ''/api/v1/agents'' then AgentsRoute
      else if path = ''/api/v1/metrics'' \<or> path = ''/api/v1/telemetry'' then TelemetryRoute
      else RootRoute)"

datatype http_body =
    ResponseBody InterceptResponse
  | AgentsBody "string + nat \<times> agentSummary list"
  | MetricsBody "string + TelemetryMetrics"
  | PageBody bytes
  | NotFoundBody
  | RedirectTo string

type_synonym 'pk http_answer = "'pk gateway \<times> nat \<times> http_body \<times> effect list"

definition dashboardHandler :: "bytes \<Rightarrow> string \<Rightarrow> nat \<times> http_body" where
  "dashboardHandler page path = (if path \<noteq> ''/'' then (404, NotFoundBody) else (200, PageBody page))"

text \<open>\<open>rfc3339\<close> formats the times of the agents' list.\<close>

definition ServeHTTP ::
  "bytes \<Rightarrow> (time \<Rightarrow> string) \<Rightarrow> string \<Rightarrow> 'pk gateway_env \<Rightarrow> http_request \<Rightarrow> 'pk gateway \<Rightarrow> 'pk http_answer" where
  "ServeHTTP page rfc3339 path X r g =
     (if hr_Method r \<noteq> ''CONNECT'' \<and> cleanPath path \<noteq> path then (g, 301, RedirectTo (cleanPath path), [])
      else
        (case match_route path of
           ExecRoute p \<Rightarrow> (let (g', status, resp, tr) = handle p X r g in (g', status, ResponseBody resp, tr))
         | AgentsRoute \<Rightarrow> (let (status, body) = handleListAgents rfc3339 r g in (g, status, AgentsBody body, []))
         | TelemetryRoute \<Rightarrow> (let (status, body) = telemetryHandler r g in (g, status, MetricsBody body, []))
         | RootRoute \<Rightarrow> (let (status, body) = dashboardHandler page path in (g, status, body, []))))"

fun serve_http ::
  "bytes \<Rightarrow> (time \<Rightarrow> string) \<Rightarrow> (string \<times> 'pk gateway_env \<times> http_request) list \<Rightarrow> 'pk gateway
     \<Rightarrow> 'pk gateway \<times> effect list list" where
  "serve_http page rfc3339 [] g = (g, [])"
| "serve_http page rfc3339 ((path, X, r) # cs) g =
     (let (g', status, body, tr) = ServeHTTP page rfc3339 path X r g;
          (g'', trs) = serve_http page rfc3339 cs g'
      in (g'', tr # trs))"

subsection \<open>Lemmas: what reaches the sandbox\<close>

text \<open>The requests of a history that reach one of the executing handlers.\<close>

definition exec_request :: "string \<times> 'pk gateway_env \<times> http_request \<Rightarrow> (endpoint \<times> 'pk gateway_env \<times> http_request) option" where
  "exec_request c =
     (case c of (path, X, r) \<Rightarrow>
        if hr_Method r \<noteq> ''CONNECT'' \<and> cleanPath path \<noteq> path then None
        else (case match_route path of ExecRoute p \<Rightarrow> Some (p, X, r) | _ \<Rightarrow> None))"

lemma exec_request_iff:
  "exec_request (path, X, r) = Some (p, Y, q) \<longleftrightarrow> Y = X \<and> q = r
     \<and> (p = Intercept \<and> path = ''/api/v1/intercept'' \<or> p = PlaygroundRun \<and> path = ''/api/v1/playground/run'')"
proof -
  have "cleanPath ''/api/v1/intercept'' = ''/api/v1/intercept''"
    "cleanPath ''/api/v1/playground/run'' = ''/api/v1/playground/run''" by code_simp+
  moreover have "match_route path = ExecRoute p \<longleftrightarrow>
      p = Intercept \<and> path = ''/api/v1/intercept'' \<or> p = PlaygroundRun \<and> path = ''/api/v1/playground/run''"
    unfolding match_route_def
    by (cases "path = ''/api/v1/intercept''"; cases "path = ''/api/v1/playground/run''") (simp_all, metis+)
  ultimately show ?thesis unfolding exec_request_def by (auto split: route.splits)
qed

lemma ServeHTTP_other:
  "exec_request (path, X, r) = None \<Longrightarrow> \<exists>status body. ServeHTTP page rfc3339 path X r g = (g, status, body, [])
     \<and> status \<in> {200, 301, 404, 405}"
  by (auto simp: exec_request_def ServeHTTP_def dashboardHandler_def handleListAgents_def telemetryHandler_def Let_def
      split: if_splits route.splits option.split prod.split)

lemma ServeHTTP_exec:
  "exec_request (path, X, r) = Some (p, X, r) \<Longrightarrow>
     ServeHTTP page rfc3339 path X r g = (let (g', status, resp, tr) = handle p X r g in (g', status, ResponseBody resp, tr))"
  by (auto simp: exec_request_def ServeHTTP_def split: if_splits route.splits)


text \<open>
  A history of HTTP requests leaves the gateway as serving only those on the two executing paths does,
  with the same effects; every other path, every unclean one included, changes nothing.
\<close>

lemma serve_http_executes:
  "serve_http page rfc3339 cs g = (g', trs) \<Longrightarrow>
     \<exists>trs'. serve (List.map_filter exec_request cs) g = (g', trs') \<and> filter ((\<noteq>) []) trs = filter ((\<noteq>) []) trs'"
proof (induction cs arbitrary: g g' trs)
  case Nil
  then show ?case by (simp add: List.map_filter_def)
next
  case (Cons c cs)
  obtain path X r where c: "c = (path, X, r)" by (cases c)
  obtain g1 status body tr where s: "ServeHTTP page rfc3339 path X r g = (g1, status, body, tr)" by (metis prod_cases4)
  obtain trs1 where t: "serve_http page rfc3339 cs g1 = (g', trs1)" "trs = tr # trs1"
    using Cons.prems s by (auto simp: c Let_def split: prod.splits)
  obtain trs2 where ih: "serve (List.map_filter exec_request cs) g1 = (g', trs2)"
    "filter ((\<noteq>) []) trs1 = filter ((\<noteq>) []) trs2" using Cons.IH [OF t(1)] by blast
  show ?case
  proof (cases "exec_request c")
    case None
    then have "g1 = g" "tr = []" using ServeHTTP_other [of path X r page rfc3339 g] s by (auto simp: c)
    then show ?thesis using ih t None by (simp add: List.map_filter_def)
  next
    case (Some e)
    then obtain p where p: "e = (p, X, r)" by (cases e) (auto simp: c exec_request_iff)
    obtain g2 st resp tr2 where h: "handle p X r g = (g2, st, resp, tr2)" by (metis prod_cases4)
    have "g1 = g2" "tr = tr2"
      using ServeHTTP_exec [of path X r p page rfc3339 g] s Some p h by (simp_all add: c)
    then show ?thesis using ih t Some h p by (simp add: List.map_filter_def)
  qed
qed

end
