(* ===== verification/Spec2Isabelle.thy ===== *)
theory Spec2Isabelle
  imports Replay Mux
begin

text \<open>
  A verification library for NexisCore, a zero-trust gateway written in Go that runs scripts of AI agents
  in containers, routes messages between agents, filters their outgoing traffic and ends its own
  process when it is tampered with. The theories model the Go code under \<open>src/\<close>; names follow the
  source, fields of a struct carry a prefix of two or three letters.

  \<^bold>\<open>The program and its theories\<close>

  \<^item> \<open>Prelude\<close>: strings as byte lists, \<open>int64\<close> as \<open>64 word\<close>, times as integers (nanoseconds), Go maps as
    association lists whose order stands for the order of a \<open>range\<close> loop, and the interfaces that
    several components share: \<open>keyed_store\<close> (maps and tables), \<open>rule_list\<close> (the ACL, the domain and
    the CIDR lists), \<open>once_cell\<close> (\<open>sync.Once\<close>).
  \<^item> \<open>Utf8\<close>, \<open>Hex\<close>, \<open>Json\<close>, \<open>Netaddr\<close>, \<open>Regex\<close>: what the source uses of the standard library:
    decoding of UTF-8, \<open>encoding/hex\<close>, the trees and the syntax check of \<open>encoding/json\<close>, IP
    addresses and CIDR blocks, and Go's regular expressions with leftmost-first matching.
  \<^item> \<open>Ocsf\<close>, \<open>Siem\<close>, \<open>Engine\<close> (\<open>telemetry/ocsf.go\<close>, \<open>siem.go\<close>, \<open>engine.go\<close>): events and their JSON form,
    the batching forwarder with retries and dead letters, the engine with its queue, workers and
    shutdown. Forwarder and engine are functions on their records and, for the interleaving of
    submitters, flushers and workers, step relations over them. \<open>event_sink\<close> is what every module that
    emits events relies on.
  \<^item> \<open>Reload\<close>, \<open>Policy\<close>, \<open>Allowlist\<close> (\<open>agent/policy.go\<close>, \<open>egress/allowlist.go\<close>): the two hot-reloading
    policies. \<open>Reload\<close> states the contract of a loader once; both meet it.
  \<^item> \<open>Registry\<close>, \<open>Router\<close> (\<open>agent/registry.go\<close>, \<open>agent/router.go\<close>): agent identities under two maps,
    certificates, and \<open>RouteContext\<close> with the TLS exchange between the two ends.
  \<^item> \<open>Dlp\<close>, \<open>Proxy\<close> (\<open>egress/dlp.go\<close>, \<open>egress/proxy.go\<close>): the ten redaction rules and the five stages of
    the egress transport.
  \<^item> \<open>Validator\<close> (\<open>validator/validator.go\<close>): the nonce cache, DER decoding, \<open>Verify\<close>.
  \<^item> \<open>KillSwitch\<close>, \<open>Memcheck\<close> (\<open>integrity/\<close>): the explicit process with its exit status, the trigger,
    the memory monitor.
  \<^item> \<open>Kernel\<close> (\<open>ebpf/controller.go\<close>): the controller's package variables as one record, with what it
    holds in the kernel beside them; initialisation, the registry of locked pids, both alert streams.
  \<^item> \<open>Sandbox\<close> (\<open>sandbox/sandbox.go\<close>): one run of a script, with a trace of its effects.
  \<^item> \<open>Jsondec\<close>: reading JSON into a tree, into a struct (with Go's folding of field names) and into a
    map, and printing it as \<open>json.Marshal\<close> and \<open>json.MarshalIndent\<close> do.
  \<^item> \<open>Quote\<close>: Go's quoting \<open>%q\<close> read as JSON, for any bytes and Unicode tables. \<open>telemetry/ocsf.go\<close> writes
    such a text by hand; \<open>Quote\<close> shows when it is JSON and that it is then read back byte for byte.
  \<^item> \<open>Gateway\<close>, \<open>Mux\<close>, \<open>Startup\<close> (\<open>main.go\<close>): the HTTP handlers over one record of all package
    variables, the routes, and \<open>main\<close>. \<open>Calls\<close> states what a relation between the gateway before and after
    a call has to admit to hold over every history (\<open>request_relation\<close>), and interprets it for the
    configuration, the gauge and the well-formedness of the state; \<open>Deployment\<close> has the lemmas on the
    gateway as \<open>main\<close> wires it; this theory has the properties that span it.
  \<^item> \<open>Interleave\<close>: the two executing handlers split into steps, so that requests run concurrently over
    the same record, and with the goroutine that cleans the nonce cache; the sequential handlers are one of the
    interleavings. \<open>Replay\<close> extends \<open>request_relation\<close> to these steps (\<open>validator_relation\<close>) and follows one
    request that is sent twice: in any interleaving, and across a restart of the gateway.
  \<^item> \<open>Tools\<close> (\<open>generate_keys.go\<close>, \<open>tools/keygen.go\<close>, \<open>tools/signer.go\<close>): the command-line tools as
    functions of the files of the working directory; \<open>Provisioning\<close> puts them together with the gateway.

  \<^bold>\<open>How the parts interact\<close>

  A request reaches \<open>handleIntercept\<close>, which scrubs it, asks \<open>Verify\<close> (nonce, then signature), and calls
  \<open>Execute\<close> with a hook that registers the container's pid with the controller; the handler removes it
  afterwards. Every module reports through \<open>SubmitGlobal\<close>, whose state is part of the process. The
  streams of the controller call the callback \<open>main\<close> installs, which is \<open>Trigger\<close>; the callback acts
  on the pair of kill-switch and process, the type parameter of \<open>ebpf\<close>. The memory monitor triggers
  the same kill-switch. The tools write the key files \<open>main\<close> reads and the request a client posts.

  What the code does not determine is an argument: clock readings, what files and commands return, DNS,
  the TLS library, SHA-256, ECDSA, PEM and X.509, the YAML decoder, the transport. Each component
  has one record of them per call (\<open>egress_env\<close>, \<open>sandbox_env\<close>, \<open>gateway_env\<close>, \<open>boot_env\<close> and others);
  no property assumes more of them than its statement says.

  \<^bold>\<open>What is shown\<close>

  \<^item> Authorisation: only verified requests run (\<open>Gateway\<close>), only permitted and authenticated routes reach
    a handler (\<open>Router\<close>), only allowed destinations are contacted and only scrubbed bodies are sent
    (\<open>Proxy\<close>), exactly which hosts and variables pass (\<open>Allowlist\<close>, \<open>Gateway\<close>).
  \<^item> Replay: a nonce is refused until its TTL ends, over every history (\<open>Validator\<close>), and accepted again
    from then on (\<open>Gateway\<close>); exactly which timestamps are in the window, overflow included. While requests
    run concurrently a copy is refused as well, and a restart forgets every nonce (\<open>Replay\<close>).
  \<^item> Accounting: the counters of engine and forwarder in every interleaving, the events each answer of
    the gateway leaves, the pids left locked after any requests; the gauge and the locked pids while
    requests run concurrently, and the reuse of a pid that breaks the lock (\<open>Interleave\<close>).
  \<^item> Liveness: a fair run of the engine's workers ends after the shutdown has begun (\<open>Engine\<close>).
  \<^item> Provisioning: what the tools write is accepted by the gateway that reads it, and what is missing
    when only one of them has been run (\<open>Provisioning\<close>).
  \<^item> Integrity: the kill-switch acts once and ends the process with 137, the monitor fires at the first
    differing hash, the first breach the probes report ends the deployed process (this theory).
  \<^item> Invariants: every component's state is well formed in every history of HTTP requests the deployed
    gateway answers (this theory).
  \<^item> Confinement: the trace of a run cleans up on every path, how a container is confined, when the
    kernel enforces.
  \<^item> Refinement, equivalence and round trips: the registry as a finite map, the locked pids as a set,
    redaction as a left-to-right rewriting, \<open>luhnCheck\<close> as the Luhn test, DER signatures, kernel events.

  \<^bold>\<open>Bounds and fuel\<close>

  Loops over lists are structural; the retry loop and the scanners have a measure. The JSON scanner takes
  fuel from the length of its text, each call consuming a byte or an opening bracket; the JSON reader takes
  \<open>2 * length s + 2\<close>, which \<open>Jsondec\<close> proves enough for every text (more fuel reads the same), and refuses
  nesting deeper than 10000 as the library does. \<open>parseIPv6\<close> runs at most the eight rounds the source
  bounds it by, with fuel nine. Counters wrap at \<open>2 ^ 64\<close>.

  \<^bold>\<open>Not modelled\<close>

  The dashboard page is a constant document (a parameter of \<open>Mux\<close>); the integration tests talk to a running
  system. Log lines are left out, except those written on the way to an exit. Paths with percent escapes
  are not decoded. In \<open>Interleave\<close> what a handler does before it starts a container is one step: up to there
  requests share only atomic counters, the validator's locked cache and the engine's queue, whose own
  interleavings are in \<open>Engine\<close> and \<open>Siem\<close>. The text of an error of the JSON decoder is not modelled.
\<close>

section \<open>Properties across components\<close>

text \<open>
  C3: a breach ends the process. Take the gateway as \<open>main\<close> brings it up, with the anti-tamper probes
  attached, after any requests to its executing endpoints. Whatever the ring buffer of the probes
  delivers: while there is no breach in it, nothing changes; at the first ptrace, W+X mprotect or shell
  breach the counter of its kind grows by one, the kill-switch fires with the reason of the breach,
  one event is offered to telemetry and the process ends with status 137. What follows is never read.
\<close>

theorem first_breach_kills:
  assumes "boot B = Listening g0" and "kc_antiInitOnce (gw_ebpf g0)" and "kc_antiInitErr (gw_ebpf g0) = None"
    and "serve cs g0 = (g, trs)"
  shows "case (breaches_of reads, StreamAntiTamperAlerts (\<lambda>w. pr_exit (snd w) \<noteq> None) A None reads (gw_ebpf g, gw_world g)) of
      ([], (c, w)) \<Rightarrow> c = gw_ebpf g \<and> w = gw_world g
    | (ev # later, (c, w)) \<Rightarrow> c = count_breach (ate_BreachType ev) (gw_ebpf g)
        \<and> w = Trigger (bt_kill B, breach_reason (ate_BreachType ev), breach_details ev) (gw_world g)
        \<and> HasTriggered (fst w) \<and> pr_exit (snd w) = Some 137
        \<and> gt_offered (pr_tel (snd w)) = gt_offered (gw_tel g) + 1"
proof -
  note b = boot_listening [OF assms(1)]
  have h: "same_host g0 g" by (rule host.served [OF assms(4)])
  have anti: "anti_part (gw_ebpf g) = anti_part (gw_ebpf g0)" "alert_part (gw_ebpf g) = alert_part (gw_ebpf g0)"
    using h b(7) by (simp_all add: same_host_def)
  have inv: "ebpf_inv (gw_ebpf g)" using wf.served [OF assms(4)] boot_wf [OF assms(1)] gateway_wf_ebpf by blast
  have once: "kc_antiInitOnce (gw_ebpf g)" "kc_antiInitErr (gw_ebpf g) = None"
    "kc_killSwitchCb (gw_ebpf g) = Some (kill_callback (bt_kill B))"
    using anti assms(2,3) b(2) by (simp_all add: anti_part_def alert_part_def)
  have w: "fst (gw_world g) = NewKillSwitch ''nexiscore-gateway'' TheEngine" "pr_exit (snd (gw_world g)) = None"
    "gt_engine (pr_tel (snd (gw_world g))) \<noteq> None"
    using h b(3-5) by (simp_all add: same_host_def gw_tel_def)
  then have fresh: "\<not> ks_once (fst (gw_world g))" by (simp add: NewKillSwitch_def)
  note s = stream_breaches [OF inv once fresh w(2), of A reads]
  have "gt_offered (pr_tel (snd (Trigger a (gw_world g)))) = gt_offered (gw_tel g) + 1" for a
    using trigger_offered [of "fst (gw_world g)" "snd (gw_world g)" a] fresh w(3) by (simp add: gw_tel_def)
  moreover have "HasTriggered (fst (Trigger a (gw_world g))) \<and> pr_exit (snd (Trigger a (gw_world g))) = Some 137" for a
    using fresh by (cases a) (simp add: Trigger_def HasTriggered_def)
  ultimately show ?thesis unfolding s by (simp split: list.split)
qed


text \<open>One mprotect breach.\<close>

definition demo_breach :: bytes where
  "demo_breach = le_bytes 0 @ le_bytes 0 @ le_bytes 4 @ le_bytes 0 @ replicate 16 (CHR 0x00)"

lemma demo_breach_decodes: "\<exists>ev. decode_anti_tamper demo_breach = Some ev \<and> ate_BreachType ev = 4"
  by (simp add: decode_anti_tamper_def demo_breach_def)

theorem first_breach_kills_witness:
  "\<forall>A. \<exists>g g' trs c w. boot demo_boot = Listening g
     \<and> serve [(Intercept, demo_genv, demo_post)] g = (g', trs)
     \<and> StreamAntiTamperAlerts (\<lambda>w. pr_exit (snd w) \<noteq> None) A None [RingSample demo_breach] (gw_ebpf g', gw_world g') = (c, w)
     \<and> pr_exit (snd w) = Some 137"
proof
  fix A
  obtain g where g: "boot demo_boot = Listening g" "kc_antiInitOnce (gw_ebpf g)" "kc_antiInitErr (gw_ebpf g) = None"
    using demo_boot_listens by blast
  obtain g' trs where s: "serve [(Intercept, demo_genv, demo_post)] g = (g', trs)" by fastforce
  obtain c w where r: "StreamAntiTamperAlerts (\<lambda>w. pr_exit (snd w) \<noteq> None) A None [RingSample demo_breach]
      (gw_ebpf g', gw_world g') = (c, w)" by (rule prod.exhaust)
  obtain ev where ev: "breaches_of [RingSample demo_breach] = [ev]"
    using demo_breach_decodes by (auto simp: breaches_of_sample breaches_of_def)
  have "pr_exit (snd w) = Some 137"
    using first_breach_kills [OF g s, of "[RingSample demo_breach]" A] unfolding r ev by auto
  with g s r show "\<exists>g g' trs c w. boot demo_boot = Listening g
     \<and> serve [(Intercept, demo_genv, demo_post)] g = (g', trs)
     \<and> StreamAntiTamperAlerts (\<lambda>w. pr_exit (snd w) \<noteq> None) A None [RingSample demo_breach] (gw_ebpf g', gw_world g') = (c, w)
     \<and> pr_exit (snd w) = Some 137" by blast
qed

text \<open>
  C17: the deployed gateway stays well formed and as configured. After \<open>main\<close> has come up and its HTTP server
  has answered any requests, whatever their paths, methods and bodies: the nonce cache and the registry are
  well-formed maps, the registry's two indices agree, the eBPF controller keeps its invariant, every event
  ever submitted is processed, dropped or in the queue, whose length never exceeds its capacity; the key,
  the five-minute lifetime of a nonce, the sandbox, the router, the monitor and the proxy are those \<open>main\<close>
  set up; no container is counted as running. No request registers an agent, so the list of
  \<open>/api/v1/agents\<close> is always empty.
\<close>

theorem deployment_well_formed:
  assumes "boot B = Listening g0" and "serve_http page rfc3339 cs g0 = (g, trs)"
  shows "gateway_wf g \<and> same_config g0 g \<and> nc_ttl (pv_nonceCache (gw_validator g)) = 5 * minute
    \<and> gw_ActiveSandboxes g = 0 \<and> (hr_Method q = ''GET'' \<longrightarrow> handleListAgents rfc3339 q g = (200, Inr (0, [])))"
proof -
  obtain trs' where s: "serve (List.map_filter exec_request cs) g0 = (g, trs')"
    using serve_http_executes [OF assms(2)] by blast
  note c = config.served [OF s]
  have "gateway_wf g" using wf.served [OF s] boot_wf [OF assms(1)] by blast
  moreover have "nc_ttl (pv_nonceCache (gw_validator g)) = 5 * minute"
    using c NewProvenanceValidator_wf [OF boot_validator(1) [OF assms(1)]] by (simp add: same_config_def)
  moreover have "gw_ActiveSandboxes g = 0" using gauge.served [OF s] boot_idle(1) [OF assms(1)] by simp
  moreover have "gw_registry g = NewAgentRegistry"
    using c boot_idle(2) [OF assms(1)] by (simp add: same_config_def gw_registry_def)
  ultimately show ?thesis using c by (simp add: handleListAgents_def NewAgentRegistry_def ListActive_def)
qed

theorem deployment_well_formed_witness:
  "\<exists>g g' trs. boot demo_boot = Listening g
     \<and> serve_http [] (\<lambda>t. []) [(''/api/v1/intercept'', demo_genv, demo_post), (''/api//v1'', demo_genv, demo_post)] g = (g', trs)
     \<and> gateway_wf g' \<and> gw_ActiveSandboxes g' = 0
     \<and> handleListAgents (\<lambda>t. []) (demo_post\<lparr>hr_Method := ''GET''\<rparr>) g' = (200, Inr (0, []))"
proof -
  obtain g where g: "boot demo_boot = Listening g" using demo_boot_listens by blast
  obtain g' trs where s: "serve_http [] (\<lambda>t. [])
      [(''/api/v1/intercept'', demo_genv, demo_post), (''/api//v1'', demo_genv, demo_post)] g = (g', trs)" by fastforce
  have "hr_Method (demo_post\<lparr>hr_Method := ''GET''\<rparr>) = ''GET''" by simp
  with g s deployment_well_formed [OF g s, of "demo_post\<lparr>hr_Method := ''GET''\<rparr>"] show ?thesis by blast
qed

end
